(* ===== verification/Prelude.thy ===== *)
theory Prelude
  imports Main "HOL-Library.Word"
begin

section \<open>Prelude: machine types, exceptions, ranges and byte images\<close>

text \<open>
  What every component of the development shares: the machine types of the C++ code, the ways
  control leaves a function (\<open>exn\<close>), sequencing of fallible and of state-changing calls, the
  index ranges that the \<open>for\<close> loops over \<open>uint64_t\<close> run through, and the memory image of a
  64-bit integer.
\<close>

subsection \<open>Machine types\<close>

type_synonym byte = "8 word"
type_synonym u16 = "16 word"
type_synonym u32 = "32 word"
type_synonym u64 = "64 word"

text \<open>\<open>int32_t\<close> values that are stored or sent: return codes, counts. \<open>sint\<close> reads them.\<close>

type_synonym i32 = "32 word"

text \<open>A \<open>ptr<T>\<close> (shared pointer) that may be null.\<close>

type_synonym 'a ptr = "'a option"

subsection \<open>Leaving a function other than by returning\<close>

text \<open>
  C++ exceptions, \<open>exit\<close>, and the two undefined behaviours the code can run into: a null
  dereference and \<open>front()\<close> of an empty container.
\<close>

datatype exn =
    Runtime_error string
  | Invalid_argument string
  | Overflow_error
  | Out_of_range
  | Length_error
  | Rpc_error string
  | Null_deref
  | Empty_container
  | Exit int

type_synonym 'a res = "exn + 'a"

text \<open>What \<open>catch (const std::exception&)\<close> catches.\<close>

fun std_exception :: "exn \<Rightarrow> bool" where
  "std_exception Null_deref = False"
| "std_exception Empty_container = False"
| "std_exception (Exit _) = False"
| "std_exception _ = True"

text \<open>A state-changing member function: the state survives an exception.\<close>

type_synonym ('s, 'a) act = "'s \<Rightarrow> 'a res \<times> 's"

definition rbind :: "'a res \<Rightarrow> ('a \<Rightarrow> 'b res) \<Rightarrow> 'b res" where
  "rbind m f = (case m of Inl e \<Rightarrow> Inl e | Inr x \<Rightarrow> f x)"

definition abind :: "('s, 'a) act \<Rightarrow> ('a \<Rightarrow> ('s, 'b) act) \<Rightarrow> ('s, 'b) act" where
  "abind m f s = (case m s of (Inl e, s') \<Rightarrow> (Inl e, s') | (Inr x, s') \<Rightarrow> f x s')"

text \<open>\<open>*p\<close> for a shared pointer.\<close>

definition deref :: "'a ptr \<Rightarrow> 'a res" where
  "deref p = (case p of None \<Rightarrow> Inl Null_deref | Some x \<Rightarrow> Inr x)"

text \<open>A loop that calls a fallible function on each element in turn.\<close>

fun rmap :: "('a \<Rightarrow> 'b res) \<Rightarrow> 'a list \<Rightarrow> 'b list res" where
  "rmap f [] = Inr []"
| "rmap f (x # xs) = rbind (f x) (\<lambda>y. rbind (rmap f xs) (\<lambda>ys. Inr (y # ys)))"

lemma rbind_simps [simp]: "rbind (Inl e) f = Inl e" "rbind (Inr x) f = f x"
  by (simp_all add: rbind_def)

lemma rbind_eq_Inr: "rbind m f = Inr y \<longleftrightarrow> (\<exists>x. m = Inr x \<and> f x = Inr y)"
  by (cases m) auto

lemma rbind_eq_Inl: "rbind m f = Inl e \<longleftrightarrow> m = Inl e \<or> (\<exists>x. m = Inr x \<and> f x = Inl e)"
  by (cases m) auto

lemma rbind_assoc: "rbind (rbind m f) g = rbind m (\<lambda>x. rbind (f x) g)"
  by (cases m) auto

lemma rbind_cong [fundef_cong]:
  "m = m' \<Longrightarrow> (\<And>x. m' = Inr x \<Longrightarrow> f x = f' x) \<Longrightarrow> rbind m f = rbind m' f'"
  by (cases m') auto

lemma abind_Inl [simp]: "m s = (Inl e, s') \<Longrightarrow> abind m f s = (Inl e, s')"
  by (simp add: abind_def)

lemma abind_Inr [simp]: "m s = (Inr x, s') \<Longrightarrow> abind m f s = f x s'"
  by (simp add: abind_def)

lemma deref_simps [simp]: "deref None = Inl Null_deref" "deref (Some x) = Inr x"
  by (simp_all add: deref_def)

lemma deref_eq_Inr [simp]: "deref p = Inr x \<longleftrightarrow> p = Some x"
  by (cases p) auto

lemma rmap_Inr: "(\<And>x. x \<in> set xs \<Longrightarrow> f x = Inr (g x)) \<Longrightarrow> rmap f xs = Inr (map g xs)"
  by (induction xs) auto

subsection \<open>Loops over \<open>uint64_t\<close> ranges\<close>

text \<open>The values \<open>i\<close> takes in \<open>for (uint64_t i = a; i < b; ++i)\<close>.\<close>

definition urange :: "u64 \<Rightarrow> u64 \<Rightarrow> u64 list" where
  "urange a b = map word_of_nat [unat a ..< unat b]"

text \<open>The contents of a \<open>std::vector<uint64_t>\<close> of size \<open>n\<close> after \<open>std::iota\<close> from \<open>a\<close>.\<close>

definition iota :: "nat \<Rightarrow> u64 \<Rightarrow> u64 list" where
  "iota n a = map (\<lambda>i. a + word_of_nat i) [0 ..< n]"

lemma unat_lt_2_64 [simp]: "unat (w :: u64) < 18446744073709551616"
proof -
  have "unat w < 2 ^ LENGTH(64)" by (rule unsigned_less)
  then show ?thesis by simp
qed

lemma unat_of_nat_64:
  "n < 18446744073709551616 \<Longrightarrow> unat (word_of_nat n :: u64) = n"
  by (simp add: unat_of_nat take_bit_nat_eq_self_iff)

lemma unat_add_64: "unat (a :: u64) + unat b < 18446744073709551616 \<Longrightarrow> unat (a + b) = unat a + unat b"
  by (simp add: unat_word_ariths)

lemma unat_Suc_64: "unat (a :: u64) + 1 < 18446744073709551616 \<Longrightarrow> unat (a + 1) = unat a + 1"
  using unat_add_64 [of a 1] by simp

lemma unat_sub1_64: "(a :: u64) \<noteq> 0 \<Longrightarrow> unat (a - 1) = unat a - 1"
  by (simp add: unat_minus_one)

lemma word_of_nat_Suc_64: "word_of_nat (Suc (unat a)) = (a :: u64) + 1"
  by (simp add: add.commute)

lemma u64_eq_iff: "(a :: u64) = b \<longleftrightarrow> unat a = unat b"
  by (rule word_unat_eq_iff)

lemma u64_less_iff: "(a :: u64) < b \<longleftrightarrow> unat a < unat b"
  by (rule word_less_nat_alt)

lemma u64_le_iff: "(a :: u64) \<le> b \<longleftrightarrow> unat a \<le> unat b"
  by (rule word_le_nat_alt)

lemma length_urange [simp]: "length (urange a b) = unat b - unat a"
  by (simp add: urange_def)

lemma urange_empty [simp]: "b \<le> a \<Longrightarrow> urange a b = []"
  by (simp add: urange_def u64_le_iff)

lemma urange_step: "a < b \<Longrightarrow> urange a b = a # urange (a + 1) b"
proof -
  assume "a < b"
  then have lt: "unat a < unat b" by (simp add: u64_less_iff)
  moreover have "unat b < 18446744073709551616" by simp
  ultimately have "unat (a + 1) = Suc (unat a)" using unat_Suc_64 [of a] by linarith
  then show ?thesis using lt by (simp add: urange_def upt_conv_Cons)
qed

lemma set_urange [simp]: "set (urange a b) = {a ..< b}"
proof (rule set_eqI)
  fix x
  have "x \<in> set (urange a b) \<longleftrightarrow> (\<exists>n \<in> {unat a ..< unat b}. x = word_of_nat n)"
    by (auto simp: urange_def)
  also have "\<dots> \<longleftrightarrow> unat a \<le> unat x \<and> unat x < unat b"
  proof
    assume "\<exists>n \<in> {unat a ..< unat b}. x = word_of_nat n"
    then obtain n where n: "unat a \<le> n" "n < unat b" "x = word_of_nat n" by auto
    moreover have "n < 18446744073709551616" using n(2) unat_lt_2_64 [of b] by linarith
    ultimately have "unat x = n" using unat_of_nat_64 [of n] by simp
    with n show "unat a \<le> unat x \<and> unat x < unat b" by simp
  next
    assume "unat a \<le> unat x \<and> unat x < unat b"
    then show "\<exists>n \<in> {unat a ..< unat b}. x = word_of_nat n"
      by (intro bexI [of _ "unat x"]) auto
  qed
  finally show "x \<in> set (urange a b) \<longleftrightarrow> x \<in> {a ..< b}"
    by (simp add: u64_le_iff u64_less_iff)
qed

lemma nth_urange: "i < unat b - unat a \<Longrightarrow> urange a b ! i = a + word_of_nat i"
  by (simp add: urange_def)

lemma distinct_urange [simp]: "distinct (urange a b)"
proof -
  have "inj_on (word_of_nat :: nat \<Rightarrow> u64) (set [unat a ..< unat b])"
  proof (rule inj_onI)
    fix x y assume "x \<in> set [unat a ..< unat b]" "y \<in> set [unat a ..< unat b]"
      and eq: "(word_of_nat x :: u64) = word_of_nat y"
    then have "x < 18446744073709551616" "y < 18446744073709551616"
      using unat_lt_2_64 [of b] by (auto intro: less_trans)
    then show "x = y" using eq unat_of_nat_64 by metis
  qed
  then show ?thesis by (simp add: urange_def distinct_map)
qed

lemma card_u64_range: "card {a ..< b :: u64} = unat b - unat a"
  using distinct_card [OF distinct_urange, of a b] by simp

lemma finite_u64_range [simp]: "finite {a ..< b :: u64}"
  using List.finite_set [of "urange a b"] by simp

lemma urange_snoc:
  assumes "a \<le> b" "unat b + 1 < 18446744073709551616"
  shows "urange a (b + 1) = urange a b @ [b]"
  using assms unat_Suc_64 [of b] by (simp add: urange_def u64_le_iff)

lemma take_urange:
  assumes "a \<le> c" "c \<le> b"
  shows "take (unat c - unat a) (urange a b) = urange a c"
  using assms by (simp add: urange_def take_map take_upt u64_le_iff)

lemma drop_urange:
  assumes "a \<le> c"
  shows "drop (unat c - unat a) (urange a b) = urange c b"
  using assms by (simp add: urange_def drop_map drop_upt u64_le_iff)

lemma urange_split:
  assumes "a \<le> c" "c < b"
  shows "urange a b = urange a c @ c # urange (c + 1) b"
proof -
  have "urange a b = urange a c @ urange c b"
    using take_urange [of a c b] drop_urange [of a c b] assms append_take_drop_id by (metis less_imp_le)
  then show ?thesis by (simp add: urange_step [OF assms(2)])
qed

lemma u64_range_Suc:
  assumes "(a :: u64) \<le> b" "unat b + 1 < 18446744073709551616"
  shows "{a ..< b + 1} = insert b {a ..< b}"
  using arg_cong [OF urange_snoc [OF assms], where f = set] by auto

lemma length_iota [simp]: "length (iota n a) = n"
  by (simp add: iota_def)

lemma iota_urange: "unat a + n < 18446744073709551616 \<Longrightarrow> iota n a = urange a (a + word_of_nat n)"
proof -
  assume n: "unat a + n < 18446744073709551616"
  then have "unat (word_of_nat n :: u64) = n" by (intro unat_of_nat_64) simp
  then have "unat (a + word_of_nat n) = unat a + n" using n unat_add_64 [of a "word_of_nat n"] by simp
  then show ?thesis
    by (intro nth_equalityI) (simp_all add: iota_def urange_def)
qed

text \<open>A character and its byte.\<close>

lemma unat_of_char_byte: "unat (of_char c :: byte) = of_char c"
proof -
  have "(word_of_nat (of_char c) :: byte) = of_char c" by (simp add: of_char_def)
  moreover have "unat (word_of_nat (of_char c) :: byte) = of_char c"
    by (simp add: unat_of_nat take_bit_nat_eq_self_iff)
  ultimately show ?thesis by simp
qed

subsection \<open>The memory image of a \<open>uint64_t\<close>\<close>

text \<open>
  The eight bytes at the address of a \<open>uint64_t\<close>, least significant first, and the read of a
  \<open>uint64_t\<close> from its address (the deployment images are built for little-endian x86-64).
\<close>

definition u64_bytes :: "u64 \<Rightarrow> byte list" where
  "u64_bytes w = map (\<lambda>i. ucast (drop_bit (8 * i) w)) [0 ..< 8]"

definition u64_of_bytes :: "byte list \<Rightarrow> u64" where
  "u64_of_bytes bs = foldr (\<lambda>b acc. push_bit 8 acc + ucast b) (take 8 bs) 0"

lemma length_u64_bytes [simp]: "length (u64_bytes w) = 8"
  by (simp add: u64_bytes_def)

lemma push_drop_byte: "push_bit 8 (drop_bit 8 (w :: u64)) + ucast (ucast w :: byte) = w"
proof -
  have "ucast (ucast w :: byte) = take_bit 8 w"
    by (rule bit_word_eqI) (auto simp: bit_simps)
  then show ?thesis by (simp add: bits_ident)
qed

lemma u64_of_bytes_u64_bytes [simp]: "u64_of_bytes (u64_bytes w @ r) = w"
proof -
  have step: "push_bit 8 (drop_bit (n + 8) w) + ucast (ucast (drop_bit n w) :: byte) = drop_bit n w" for n
    using push_drop_byte [of "drop_bit n w"] by (simp add: add.commute)
  have top: "drop_bit 64 w = 0"
    by (rule bit_word_eqI) (auto simp: bit_simps dest: bit_imp_le_length)
  show ?thesis
    using step [of 0] step [of 8] step [of 16] step [of 24] step [of 32] step [of 40] step [of 48] step [of 56] top
    by (simp add: u64_of_bytes_def u64_bytes_def upt_rec)
qed

lemma u64_bytes_inj [simp]: "u64_bytes a = u64_bytes b \<longleftrightarrow> a = b"
  using u64_of_bytes_u64_bytes [of a "[]"] u64_of_bytes_u64_bytes [of b "[]"] by metis

end
