(* ===== verification/Nuraft_Api.thy ===== *)
theory Nuraft_Api
  imports Prelude
begin

section \<open>The NuRaft types the code calls: buffers, serializers, log entries\<close>

text \<open>
  NuRaft is a git submodule and not part of this repository. Its \<open>buffer\<close>,
  \<open>buffer_serializer\<close>, \<open>log_entry\<close> and \<open>EventAwaiter\<close> are parameters of the model: a record of
  functions over opaque types \<open>'b\<close>, \<open>'s\<close>, \<open>'e\<close>, \<open>'ea\<close>. What the code relies on is stated as
  named laws, and every theorem that needs one has it as a hypothesis:
  \<^item> a buffer is a fixed number of bytes with a cursor; a write puts the bytes of the value at
    the cursor and moves it, a read of bytes that some value was written as gives that value
    and moves the cursor, and both throw \<open>overflow_error\<close> when too few bytes are left;
  \<^item> the accessors of a log entry give back what it was constructed from, and
    \<open>log_entry::deserialize\<close>, which reads a buffer from its cursor on, undoes
    \<open>log_entry::serialize\<close> for the term, the value type and the payload when the cursor is at 0.
  A concrete byte-level instance that satisfies all of them is at the end; the witnesses use it.
\<close>

record ('b, 's) buffer_api =
  buffer_alloc :: "u64 \<Rightarrow> 'b"
  buffer_clone :: "'b \<Rightarrow> 'b"
  buffer_size :: "'b \<Rightarrow> u64"
  data_begin :: "'b \<Rightarrow> byte list"
  buffer_pos :: "'b \<Rightarrow> nat"
  set_pos0 :: "'b \<Rightarrow> 'b"
  put_int :: "'b \<Rightarrow> i32 \<Rightarrow> 'b res"
  put_buffer :: "'b \<Rightarrow> 'b \<Rightarrow> 'b res"
  put_raw :: "'b \<Rightarrow> byte list \<Rightarrow> 'b res"
  get_int :: "'b \<Rightarrow> (i32 \<times> 'b) res"
  get_buffer :: "'b \<Rightarrow> 'b \<Rightarrow> ('b \<times> 'b) res"
  serializer :: "'b \<Rightarrow> 's"
  bs_buffer :: "'s \<Rightarrow> 'b"
  bs_pos :: "'s \<Rightarrow> nat"
  bs_put_u8 :: "'s \<Rightarrow> byte \<Rightarrow> 's res"
  bs_put_u64 :: "'s \<Rightarrow> u64 \<Rightarrow> 's res"
  bs_put_i32 :: "'s \<Rightarrow> i32 \<Rightarrow> 's res"
  bs_put_raw :: "'s \<Rightarrow> byte list \<Rightarrow> 's res"
  bs_get_u8 :: "'s \<Rightarrow> (byte \<times> 's) res"
  bs_get_u64 :: "'s \<Rightarrow> (u64 \<times> 's) res"
  bs_get_raw :: "'s \<Rightarrow> u64 \<Rightarrow> (byte list \<times> 's) res"

record ('b, 's, 'e, 'ea) nuraft = "('b, 's) buffer_api" +
  log_entry_new :: "u64 \<Rightarrow> 'b ptr \<Rightarrow> 'e"
  log_entry_make :: "u64 \<Rightarrow> 'b ptr \<Rightarrow> byte \<Rightarrow> u64 \<Rightarrow> bool \<Rightarrow> u32 \<Rightarrow> bool \<Rightarrow> 'e"
  get_term :: "'e \<Rightarrow> u64"
  get_buf :: "'e \<Rightarrow> 'b"
  get_val_type :: "'e \<Rightarrow> byte"
  get_timestamp :: "'e \<Rightarrow> u64"
  has_crc32 :: "'e \<Rightarrow> bool"
  get_crc32 :: "'e \<Rightarrow> u32"
  le_serialize :: "'e \<Rightarrow> 'b"
  le_deserialize :: "'b \<Rightarrow> 'e res"
  ea_invoke :: "'ea \<Rightarrow> 'ea"
  ea_reset :: "'ea \<Rightarrow> 'ea"

subsection \<open>Laws of a byte cursor\<close>

definition splice :: "byte list \<Rightarrow> nat \<Rightarrow> byte list \<Rightarrow> byte list" where
  "splice d p xs = take p d @ xs @ drop (p + length xs) d"

definition put_law :: "('c \<Rightarrow> byte list) \<Rightarrow> ('c \<Rightarrow> nat) \<Rightarrow> ('c \<Rightarrow> 'v \<Rightarrow> 'c res) \<Rightarrow> ('v \<Rightarrow> byte list) \<Rightarrow> bool" where
  "put_law dat pos put enc \<longleftrightarrow>
     (\<forall>c v. pos c + length (enc v) \<le> length (dat c) \<longrightarrow>
        (\<exists>c'. put c v = Inr c' \<and> dat c' = splice (dat c) (pos c) (enc v) \<and>
              pos c' = pos c + length (enc v)))"

definition get_law :: "('c \<Rightarrow> byte list) \<Rightarrow> ('c \<Rightarrow> nat) \<Rightarrow> ('c \<Rightarrow> ('v \<times> 'c) res) \<Rightarrow> ('v \<Rightarrow> byte list) \<Rightarrow> bool" where
  "get_law dat pos get enc \<longleftrightarrow>
     (\<forall>c v r. drop (pos c) (dat c) = enc v @ r \<longrightarrow>
        (\<exists>c'. get c = Inr (v, c') \<and> dat c' = dat c \<and> pos c' = pos c + length (enc v)))"

text \<open>Reads past the end throw, whatever the bytes are; reads of \<open>n\<close> bytes in range return.\<close>

definition short_law :: "('c \<Rightarrow> byte list) \<Rightarrow> ('c \<Rightarrow> nat) \<Rightarrow> nat \<Rightarrow> ('c \<Rightarrow> ('v \<times> 'c) res) \<Rightarrow> bool" where
  "short_law dat pos n get \<longleftrightarrow>
     (\<forall>c. length (drop (pos c) (dat c)) < n \<longrightarrow> get c = Inl Overflow_error)"

definition raw_law :: "('c \<Rightarrow> byte list) \<Rightarrow> ('c \<Rightarrow> nat) \<Rightarrow> ('c \<Rightarrow> u64 \<Rightarrow> (byte list \<times> 'c) res) \<Rightarrow> bool" where
  "raw_law dat pos get \<longleftrightarrow>
     (\<forall>c n. if unat n \<le> length (drop (pos c) (dat c))
        then \<exists>c'. get c n = Inr (take (unat n) (drop (pos c) (dat c)), c') \<and> dat c' = dat c \<and>
                  pos c' = pos c + unat n
        else get c n = Inl Overflow_error)"

text \<open>
  The laws of buffers and serializers. \<open>e64\<close> and \<open>e32\<close> are the byte images that the library
  gives to 64-bit and 32-bit integers: eight and four bytes.
\<close>

definition buffer_laws ::
    "('b, 's, 'z) buffer_api_scheme \<Rightarrow> (u64 \<Rightarrow> byte list) \<Rightarrow> (i32 \<Rightarrow> byte list) \<Rightarrow> bool" where
  "buffer_laws N e64 e32 \<longleftrightarrow>
     (\<forall>w. length (e64 w) = 8) \<and> (\<forall>w. length (e32 w) = 4) \<and>
     (\<forall>n. length (data_begin N (buffer_alloc N n)) = unat n \<and> buffer_pos N (buffer_alloc N n) = 0) \<and>
     (\<forall>b. buffer_size N b = word_of_nat (length (data_begin N b))) \<and>
     (\<forall>b. data_begin N (buffer_clone N b) = data_begin N b) \<and>
     (\<forall>b. data_begin N (set_pos0 N b) = data_begin N b \<and> buffer_pos N (set_pos0 N b) = 0) \<and>
     put_law (data_begin N) (buffer_pos N) (put_int N) e32 \<and>
     put_law (data_begin N) (buffer_pos N) (put_buffer N) (data_begin N) \<and>
     put_law (data_begin N) (buffer_pos N) (put_raw N) id \<and>
     get_law (data_begin N) (buffer_pos N) (get_int N) e32 \<and>
     (\<forall>b d. length (data_begin N d) \<le> length (drop (buffer_pos N b) (data_begin N b)) \<and> buffer_pos N d = 0 \<longrightarrow>
        (\<exists>d' b'. get_buffer N b d = Inr (d', b') \<and>
           data_begin N d' = take (length (data_begin N d)) (drop (buffer_pos N b) (data_begin N b)) \<and>
           buffer_pos N d' = 0 \<and>
           data_begin N b' = data_begin N b \<and>
           buffer_pos N b' = buffer_pos N b + length (data_begin N d)))"

definition serializer_laws ::
    "('b, 's, 'z) buffer_api_scheme \<Rightarrow> (u64 \<Rightarrow> byte list) \<Rightarrow> (i32 \<Rightarrow> byte list) \<Rightarrow> bool" where
  "serializer_laws N e64 e32 \<longleftrightarrow>
     (\<forall>b. data_begin N (bs_buffer N (serializer N b)) = data_begin N b \<and> bs_pos N (serializer N b) = 0 \<and>
        buffer_pos N (bs_buffer N (serializer N b)) = buffer_pos N b) \<and>
     put_law (\<lambda>s. data_begin N (bs_buffer N s)) (bs_pos N) (bs_put_u8 N) (\<lambda>v. [v]) \<and>
     put_law (\<lambda>s. data_begin N (bs_buffer N s)) (bs_pos N) (bs_put_u64 N) e64 \<and>
     put_law (\<lambda>s. data_begin N (bs_buffer N s)) (bs_pos N) (bs_put_i32 N) e32 \<and>
     put_law (\<lambda>s. data_begin N (bs_buffer N s)) (bs_pos N) (bs_put_raw N) id \<and>
     (\<forall>s v s'. bs_put_i32 N s v = Inr s' \<longrightarrow>
        buffer_pos N (bs_buffer N s') = buffer_pos N (bs_buffer N s)) \<and>
     get_law (\<lambda>s. data_begin N (bs_buffer N s)) (bs_pos N) (bs_get_u8 N) (\<lambda>v. [v]) \<and>
     get_law (\<lambda>s. data_begin N (bs_buffer N s)) (bs_pos N) (bs_get_u64 N) e64 \<and>
     short_law (\<lambda>s. data_begin N (bs_buffer N s)) (bs_pos N) 1 (bs_get_u8 N) \<and>
     short_law (\<lambda>s. data_begin N (bs_buffer N s)) (bs_pos N) 8 (bs_get_u64 N) \<and>
     raw_law (\<lambda>s. data_begin N (bs_buffer N s)) (bs_pos N) (bs_get_raw N)"

text \<open>What can be observed of a log entry through its accessors.\<close>

record entry_view =
  ev_term :: u64
  ev_type :: byte
  ev_buf :: "byte list"
  ev_timestamp :: u64
  ev_has_crc :: bool
  ev_crc :: u32

definition le_view :: "('b, 's, 'e, 'ea) nuraft \<Rightarrow> 'e \<Rightarrow> entry_view" where
  "le_view N e = \<lparr>ev_term = get_term N e, ev_type = get_val_type N e,
     ev_buf = data_begin N (get_buf N e), ev_timestamp = get_timestamp N e,
     ev_has_crc = has_crc32 N e, ev_crc = get_crc32 N e\<rparr>"

text \<open>The part of a log entry that its serialized form carries.\<close>

definition le_core :: "entry_view \<Rightarrow> u64 \<times> byte \<times> byte list" where
  "le_core v = (ev_term v, ev_type v, ev_buf v)"

definition log_entry_laws :: "('b, 's, 'e, 'ea) nuraft \<Rightarrow> bool" where
  "log_entry_laws N \<longleftrightarrow>
     (\<forall>t b vt ts hc c. let e = log_entry_make N t (Some b) vt ts hc c False in
        get_term N e = t \<and> get_buf N e = b \<and> get_val_type N e = vt \<and> get_timestamp N e = ts \<and>
        has_crc32 N e = hc \<and> get_crc32 N e = c) \<and>
     (\<forall>t b. get_term N (log_entry_new N t b) = t) \<and>
     (\<forall>e b. data_begin N b = data_begin N (le_serialize N e) \<and> buffer_pos N b = 0 \<longrightarrow>
        (\<exists>e'. le_deserialize N b = Inr e' \<and> le_core (le_view N e') = le_core (le_view N e)))"

subsection \<open>Reasoning with the laws\<close>

text \<open>\<open>wrote dat pos c xs n\<close>: the bytes \<open>xs\<close> are written up to the cursor and \<open>n\<close> more fit.\<close>

definition wrote :: "('c \<Rightarrow> byte list) \<Rightarrow> ('c \<Rightarrow> nat) \<Rightarrow> 'c \<Rightarrow> byte list \<Rightarrow> nat \<Rightarrow> bool" where
  "wrote dat pos c xs n \<longleftrightarrow> take (length xs) (dat c) = xs \<and> pos c = length xs \<and> length (dat c) = length xs + n"

text \<open>\<open>unread dat pos c r\<close>: the bytes \<open>r\<close> are ahead of the cursor.\<close>

definition unread :: "('c \<Rightarrow> byte list) \<Rightarrow> ('c \<Rightarrow> nat) \<Rightarrow> 'c \<Rightarrow> byte list \<Rightarrow> bool" where
  "unread dat pos c r \<longleftrightarrow> drop (pos c) (dat c) = r"

lemma put_wrote:
  assumes "put_law dat pos put enc" "wrote dat pos c xs (length (enc v) + n)"
  shows "\<exists>c'. put c v = Inr c' \<and> wrote dat pos c' (xs @ enc v) n"
proof -
  have len: "length (dat c) = length xs + (length (enc v) + n)" and p: "pos c = length xs"
    and t: "take (length xs) (dat c) = xs"
    using assms(2) by (auto simp: wrote_def)
  obtain c' where c': "put c v = Inr c'" "dat c' = splice (dat c) (pos c) (enc v)" "pos c' = pos c + length (enc v)"
    using assms(1) len p unfolding put_law_def by (metis add.assoc le_add1)
  then have "dat c' = (xs @ enc v) @ drop (length xs + length (enc v)) (dat c)"
    using t p by (simp add: splice_def)
  then have "wrote dat pos c' (xs @ enc v) n" using len p c'(3) by (simp add: wrote_def)
  with c'(1) show ?thesis by blast
qed

lemma wrote_full: "wrote dat pos c xs 0 \<Longrightarrow> dat c = xs"
  unfolding wrote_def by (metis add_0_right order_refl take_all)

lemma get_unread:
  assumes "get_law dat pos get enc" "unread dat pos c (enc v @ r)"
  shows "\<exists>c'. get c = Inr (v, c') \<and> unread dat pos c' r \<and> dat c' = dat c"
proof -
  have d: "drop (pos c) (dat c) = enc v @ r" using assms(2) by (simp add: unread_def)
  then obtain c' where c': "get c = Inr (v, c')" "dat c' = dat c" "pos c' = pos c + length (enc v)"
    using assms(1) unfolding get_law_def by metis
  then have "drop (pos c') (dat c') = drop (length (enc v)) (drop (pos c) (dat c))"
    by (simp add: add.commute)
  with d c' show ?thesis by (auto simp: unread_def)
qed

lemma short_unread:
  assumes "short_law dat pos n get" "unread dat pos c r" "length r < n"
  shows "get c = Inl Overflow_error"
  using assms unfolding short_law_def unread_def by metis

lemma raw_unread:
  assumes "raw_law dat pos get" "unread dat pos c r" "unat n \<le> length r"
  shows "\<exists>c'. get c n = Inr (take (unat n) r, c') \<and> unread dat pos c' (drop (unat n) r) \<and> dat c' = dat c"
proof -
  have d: "drop (pos c) (dat c) = r" using assms(2) by (simp add: unread_def)
  then obtain c' where c': "get c n = Inr (take (unat n) r, c')" "dat c' = dat c" "pos c' = pos c + unat n"
    using assms(1,3) unfolding raw_law_def by metis
  then have "drop (pos c') (dat c') = drop (unat n) (drop (pos c) (dat c))"
    by (simp add: add.commute)
  with d c' show ?thesis by (auto simp: unread_def)
qed

lemma raw_short_unread:
  assumes "raw_law dat pos get" "unread dat pos c r" "length r < unat n"
  shows "get c n = Inl Overflow_error"
  using assms unfolding raw_law_def unread_def by (metis not_less)

text \<open>The laws of each operation, in the form the components use them.\<close>

abbreviation ser_wrote :: "('b, 's, 'z) buffer_api_scheme \<Rightarrow> 's \<Rightarrow> byte list \<Rightarrow> nat \<Rightarrow> bool" where
  "ser_wrote N \<equiv> wrote (\<lambda>s. data_begin N (bs_buffer N s)) (bs_pos N)"

abbreviation ser_unread :: "('b, 's, 'z) buffer_api_scheme \<Rightarrow> 's \<Rightarrow> byte list \<Rightarrow> bool" where
  "ser_unread N \<equiv> unread (\<lambda>s. data_begin N (bs_buffer N s)) (bs_pos N)"

abbreviation buf_wrote :: "('b, 's, 'z) buffer_api_scheme \<Rightarrow> 'b \<Rightarrow> byte list \<Rightarrow> nat \<Rightarrow> bool" where
  "buf_wrote N \<equiv> wrote (data_begin N) (buffer_pos N)"

abbreviation buf_unread :: "('b, 's, 'z) buffer_api_scheme \<Rightarrow> 'b \<Rightarrow> byte list \<Rightarrow> bool" where
  "buf_unread N \<equiv> unread (data_begin N) (buffer_pos N)"

lemma ser_put_u8:
  assumes "serializer_laws N e64 e32" "ser_wrote N s xs (1 + n)"
  shows "\<exists>s'. bs_put_u8 N s v = Inr s' \<and> ser_wrote N s' (xs @ [v]) n"
proof -
  have "put_law (\<lambda>s. data_begin N (bs_buffer N s)) (bs_pos N) (bs_put_u8 N) (\<lambda>v. [v])"
    using assms(1) by (simp add: serializer_laws_def)
  from put_wrote [OF this, of s xs v n] assms(2) show ?thesis by simp
qed

lemma ser_put_u64:
  assumes "serializer_laws N e64 e32" "ser_wrote N s xs (length (e64 v) + n)"
  shows "\<exists>s'. bs_put_u64 N s v = Inr s' \<and> ser_wrote N s' (xs @ e64 v) n"
proof -
  have "put_law (\<lambda>s. data_begin N (bs_buffer N s)) (bs_pos N) (bs_put_u64 N) e64"
    using assms(1) by (simp add: serializer_laws_def)
  from put_wrote [OF this, of s xs v n] assms(2) show ?thesis by simp
qed

lemma ser_put_i32:
  assumes "serializer_laws N e64 e32" "ser_wrote N s xs (length (e32 v) + n)"
  shows "\<exists>s'. bs_put_i32 N s v = Inr s' \<and> ser_wrote N s' (xs @ e32 v) n \<and>
    buffer_pos N (bs_buffer N s') = buffer_pos N (bs_buffer N s)"
proof -
  have "put_law (\<lambda>s. data_begin N (bs_buffer N s)) (bs_pos N) (bs_put_i32 N) e32"
    "\<forall>s v s'. bs_put_i32 N s v = Inr s' \<longrightarrow> buffer_pos N (bs_buffer N s') = buffer_pos N (bs_buffer N s)"
    using assms(1) by (simp_all add: serializer_laws_def)
  with put_wrote [OF this(1), of s xs v n] assms(2) show ?thesis by auto
qed

lemma ser_put_raw:
  assumes "serializer_laws N e64 e32" "ser_wrote N s xs (length v + n)"
  shows "\<exists>s'. bs_put_raw N s v = Inr s' \<and> ser_wrote N s' (xs @ v) n"
proof -
  have "put_law (\<lambda>s. data_begin N (bs_buffer N s)) (bs_pos N) (bs_put_raw N) id"
    using assms(1) by (simp add: serializer_laws_def)
  from put_wrote [OF this, of s xs v n] assms(2) show ?thesis by simp
qed

lemma ser_get_u8:
  assumes "serializer_laws N e64 e32" "ser_unread N s (v # r)"
  shows "\<exists>s'. bs_get_u8 N s = Inr (v, s') \<and> ser_unread N s' r"
proof -
  have "get_law (\<lambda>s. data_begin N (bs_buffer N s)) (bs_pos N) (bs_get_u8 N) (\<lambda>v. [v])"
    using assms(1) by (simp add: serializer_laws_def)
  from get_unread [OF this, of s v r] assms(2) show ?thesis by auto
qed

lemma ser_get_u64:
  assumes "serializer_laws N e64 e32" "ser_unread N s (e64 v @ r)"
  shows "\<exists>s'. bs_get_u64 N s = Inr (v, s') \<and> ser_unread N s' r"
proof -
  have "get_law (\<lambda>s. data_begin N (bs_buffer N s)) (bs_pos N) (bs_get_u64 N) e64"
    using assms(1) by (simp add: serializer_laws_def)
  from get_unread [OF this, of s v r] assms(2) show ?thesis by auto
qed

lemma ser_get_raw:
  assumes "serializer_laws N e64 e32" "ser_unread N s (v @ r)" "unat n = length v"
  shows "\<exists>s'. bs_get_raw N s n = Inr (v, s') \<and> ser_unread N s' r"
proof -
  have "raw_law (\<lambda>s. data_begin N (bs_buffer N s)) (bs_pos N) (bs_get_raw N)"
    using assms(1) by (simp add: serializer_laws_def)
  from raw_unread [OF this assms(2), of n] assms(3) show ?thesis by auto
qed

lemma ser_get_u8_short:
  assumes "serializer_laws N e64 e32" "ser_unread N s []"
  shows "bs_get_u8 N s = Inl Overflow_error"
proof -
  have "short_law (\<lambda>s. data_begin N (bs_buffer N s)) (bs_pos N) 1 (bs_get_u8 N)"
    using assms(1) by (simp add: serializer_laws_def)
  from short_unread [OF this assms(2)] show ?thesis by simp
qed

lemma ser_get_u64_short:
  assumes "serializer_laws N e64 e32" "ser_unread N s r" "length r < 8"
  shows "bs_get_u64 N s = Inl Overflow_error"
proof -
  have "short_law (\<lambda>s. data_begin N (bs_buffer N s)) (bs_pos N) 8 (bs_get_u64 N)"
    using assms(1) by (simp add: serializer_laws_def)
  from short_unread [OF this assms(2,3)] show ?thesis .
qed

lemma ser_get_raw_short:
  assumes "serializer_laws N e64 e32" "ser_unread N s r" "length r < unat n"
  shows "bs_get_raw N s n = Inl Overflow_error"
proof -
  have "raw_law (\<lambda>s. data_begin N (bs_buffer N s)) (bs_pos N) (bs_get_raw N)"
    using assms(1) by (simp add: serializer_laws_def)
  from raw_short_unread [OF this assms(2,3)] show ?thesis .
qed

lemma buf_put_int:
  assumes "buffer_laws N e64 e32" "buf_wrote N b xs (4 + n)"
  shows "\<exists>b'. put_int N b v = Inr b' \<and> buf_wrote N b' (xs @ e32 v) n"
proof -
  have "put_law (data_begin N) (buffer_pos N) (put_int N) e32" "length (e32 v) = 4"
    using assms(1) by (simp_all add: buffer_laws_def)
  with put_wrote [OF this(1), of b xs v n] assms(2) show ?thesis by simp
qed

lemma buf_put_buffer:
  assumes "buffer_laws N e64 e32" "buf_wrote N b xs (length (data_begin N v) + n)"
  shows "\<exists>b'. put_buffer N b v = Inr b' \<and> buf_wrote N b' (xs @ data_begin N v) n"
proof -
  have "put_law (data_begin N) (buffer_pos N) (put_buffer N) (data_begin N)"
    using assms(1) by (simp add: buffer_laws_def)
  from put_wrote [OF this, of b xs v n] assms(2) show ?thesis by simp
qed

lemma buf_put_raw:
  assumes "buffer_laws N e64 e32" "buf_wrote N b xs (length v + n)"
  shows "\<exists>b'. put_raw N b v = Inr b' \<and> buf_wrote N b' (xs @ v) n"
proof -
  have "put_law (data_begin N) (buffer_pos N) (put_raw N) id"
    using assms(1) by (simp add: buffer_laws_def)
  from put_wrote [OF this, of b xs v n] assms(2) show ?thesis by simp
qed

lemma buf_get_int:
  assumes "buffer_laws N e64 e32" "buf_unread N b (e32 v @ r)"
  shows "\<exists>b'. get_int N b = Inr (v, b') \<and> buf_unread N b' r"
proof -
  have "get_law (data_begin N) (buffer_pos N) (get_int N) e32"
    using assms(1) by (simp add: buffer_laws_def)
  from get_unread [OF this, of b v r] assms(2) show ?thesis by auto
qed

lemma buf_get_buffer:
  assumes laws: "buffer_laws N e64 e32" and "buf_unread N b (v @ r)" "unat n = length v"
  shows "\<exists>d' b'. get_buffer N b (buffer_alloc N n) = Inr (d', b') \<and> data_begin N d' = v \<and>
    buffer_pos N d' = 0 \<and> buf_unread N b' r"
proof -
  let ?d = "buffer_alloc N n"
  have d: "length (data_begin N ?d) = length v" "buffer_pos N ?d = 0"
    using laws assms(3) by (simp_all add: buffer_laws_def)
  have u: "drop (buffer_pos N b) (data_begin N b) = v @ r" using assms(2) by (simp add: unread_def)
  then have "length (data_begin N ?d) \<le> length (drop (buffer_pos N b) (data_begin N b)) \<and> buffer_pos N ?d = 0"
    using d by (metis le_add1 length_append)
  then obtain d' b' where g: "get_buffer N b ?d = Inr (d', b')"
    "data_begin N d' = take (length (data_begin N ?d)) (drop (buffer_pos N b) (data_begin N b))" "buffer_pos N d' = 0"
    "data_begin N b' = data_begin N b" "buffer_pos N b' = buffer_pos N b + length (data_begin N ?d)"
    using laws unfolding buffer_laws_def by metis
  have "drop (buffer_pos N b') (data_begin N b') = drop (length v) (drop (buffer_pos N b) (data_begin N b))"
    using g(4,5) d(1) by (simp add: add.commute)
  then show ?thesis using g d u by (simp add: unread_def)
qed

lemma alloc_wrote:
  "buffer_laws N e64 e32 \<Longrightarrow> buf_wrote N (buffer_alloc N n) [] (unat n)"
  by (simp add: buffer_laws_def wrote_def)

lemma serializer_alloc_wrote:
  "buffer_laws N e64 e32 \<Longrightarrow> serializer_laws N e64 e32 \<Longrightarrow>
   ser_wrote N (serializer N (buffer_alloc N n)) [] (unat n)"
  by (simp add: buffer_laws_def serializer_laws_def wrote_def)

lemma serializer_unread:
  "serializer_laws N e64 e32 \<Longrightarrow> ser_unread N (serializer N b) (data_begin N b)"
  by (simp add: serializer_laws_def unread_def)

lemma pos0_unread: "buffer_laws N e64 e32 \<Longrightarrow> buf_unread N (set_pos0 N b) (data_begin N b)"
  by (simp add: buffer_laws_def unread_def)

lemma length_e64: "buffer_laws N e64 e32 \<Longrightarrow> length (e64 w) = 8"
  and length_e32: "buffer_laws N e64 e32 \<Longrightarrow> length (e32 v) = 4"
  by (simp_all add: buffer_laws_def)

lemma data_begin_clone: "buffer_laws N e64 e32 \<Longrightarrow> data_begin N (buffer_clone N b) = data_begin N b"
  and buffer_size_data: "buffer_laws N e64 e32 \<Longrightarrow> buffer_size N b = word_of_nat (length (data_begin N b))"
  by (simp_all add: buffer_laws_def)

subsection \<open>A concrete instance\<close>

text \<open>
  Buffers as bytes with a cursor, integers least significant byte first. The instance serves the
  witnesses: the laws above hold together.
\<close>

type_synonym rbuf = "byte list \<times> nat"
type_synonym rser = "rbuf \<times> nat"
type_synonym rentry = "u64 \<times> rbuf \<times> byte \<times> u64 \<times> bool \<times> u32"

definition i32_bytes :: "i32 \<Rightarrow> byte list" where
  "i32_bytes w = map (\<lambda>i. ucast (drop_bit (8 * i) w)) [0 ..< 4]"

definition i32_of_bytes :: "byte list \<Rightarrow> i32" where
  "i32_of_bytes bs = foldr (\<lambda>b acc. push_bit 8 acc + ucast b) (take 4 bs) 0"

lemma length_i32_bytes [simp]: "length (i32_bytes w) = 4"
  by (simp add: i32_bytes_def)

lemma i32_of_bytes_i32_bytes [simp]: "i32_of_bytes (i32_bytes w @ r) = w"
proof -
  have low: "push_bit 8 (drop_bit 8 v) + ucast (ucast v :: byte) = v" for v :: i32
  proof -
    have "ucast (ucast v :: byte) = take_bit 8 v"
      by (rule bit_word_eqI) (auto simp: bit_simps)
    then show ?thesis by (simp add: bits_ident)
  qed
  have step: "push_bit 8 (drop_bit (n + 8) w) + ucast (ucast (drop_bit n w) :: byte) = drop_bit n w" for n
    using low [of "drop_bit n w"] by (simp add: add.commute)
  have top: "drop_bit 32 w = 0"
    by (rule bit_word_eqI) (auto simp: bit_simps dest: bit_imp_le_length)
  show ?thesis
    using step [of 0] step [of 8] step [of 16] step [of 24] top
    by (simp add: i32_of_bytes_def i32_bytes_def upt_rec)
qed

definition ref_put :: "rbuf \<Rightarrow> byte list \<Rightarrow> rbuf res" where
  "ref_put b xs = (case b of (d, p) \<Rightarrow>
     if p + length xs \<le> length d then Inr (splice d p xs, p + length xs) else Inl Overflow_error)"

definition ref_get :: "rbuf \<Rightarrow> nat \<Rightarrow> (byte list \<times> rbuf) res" where
  "ref_get b n = (case b of (d, p) \<Rightarrow>
     if n \<le> length (drop p d) then Inr (take n (drop p d), (d, p + n)) else Inl Overflow_error)"

definition ser_put :: "rser \<Rightarrow> byte list \<Rightarrow> rser res" where
  "ser_put s xs = rbind (ref_put (fst (fst s), snd s) xs) (\<lambda>b. Inr ((fst b, snd (fst s)), snd b))"

definition ser_get :: "rser \<Rightarrow> nat \<Rightarrow> (byte list \<times> rser) res" where
  "ser_get s n = rbind (ref_get (fst (fst s), snd s) n) (\<lambda>(xs, b). Inr (xs, (fst s, snd b)))"

definition ref_le_bytes :: "rentry \<Rightarrow> byte list" where
  "ref_le_bytes e = (case e of (t, b, vt, _) \<Rightarrow> u64_bytes t @ vt # fst b)"

definition ref_nuraft :: "(rbuf, rser, rentry, bool) nuraft" where
  "ref_nuraft = \<lparr>
     buffer_alloc = (\<lambda>n. (replicate (unat n) 0, 0)),
     buffer_clone = (\<lambda>b. (fst b, 0)),
     buffer_size = (\<lambda>b. word_of_nat (length (fst b))),
     data_begin = fst,
     buffer_pos = snd,
     set_pos0 = (\<lambda>b. (fst b, 0)),
     put_int = (\<lambda>b v. ref_put b (i32_bytes v)),
     put_buffer = (\<lambda>b x. ref_put b (fst x)),
     put_raw = ref_put,
     get_int = (\<lambda>b. rbind (ref_get b 4) (\<lambda>(xs, b'). Inr (i32_of_bytes xs, b'))),
     get_buffer = (\<lambda>b d. rbind (ref_get b (length (fst d))) (\<lambda>(xs, b'). Inr ((xs, 0), b'))),
     serializer = (\<lambda>b. (b, 0)),
     bs_buffer = fst,
     bs_pos = snd,
     bs_put_u8 = (\<lambda>s v. ser_put s [v]),
     bs_put_u64 = (\<lambda>s v. ser_put s (u64_bytes v)),
     bs_put_i32 = (\<lambda>s v. ser_put s (i32_bytes v)),
     bs_put_raw = ser_put,
     bs_get_u8 = (\<lambda>s. rbind (ser_get s 1) (\<lambda>(xs, s'). Inr (hd xs, s'))),
     bs_get_u64 = (\<lambda>s. rbind (ser_get s 8) (\<lambda>(xs, s'). Inr (u64_of_bytes xs, s'))),
     bs_get_raw = (\<lambda>s n. ser_get s (unat n)),
     log_entry_new = (\<lambda>t b. (t, (case b of None \<Rightarrow> ([], 0) | Some x \<Rightarrow> x), 1, 0, False, 0)),
     log_entry_make = (\<lambda>t b vt ts hc c _. (t, (case b of None \<Rightarrow> ([], 0) | Some x \<Rightarrow> x), vt, ts, hc, c)),
     get_term = (\<lambda>e. fst e),
     get_buf = (\<lambda>e. fst (snd e)),
     get_val_type = (\<lambda>(t, b, vt, ts, hc, c). vt),
     get_timestamp = (\<lambda>(t, b, vt, ts, hc, c). ts),
     has_crc32 = (\<lambda>(t, b, vt, ts, hc, c). hc),
     get_crc32 = (\<lambda>(t, b, vt, ts, hc, c). c),
     le_serialize = (\<lambda>e. (ref_le_bytes e, 0)),
     le_deserialize = (\<lambda>b. if 9 \<le> length (fst b)
        then Inr (u64_of_bytes (fst b), (drop 9 (fst b), 0), fst b ! 8, 0, False, 0) else Inl Overflow_error),
     ea_invoke = (\<lambda>_. True),
     ea_reset = (\<lambda>_. False)\<rparr>"

lemma codec_at_end [simp]: "u64_of_bytes (u64_bytes v) = v" "i32_of_bytes (i32_bytes w) = w"
  using u64_of_bytes_u64_bytes [of v "[]"] i32_of_bytes_i32_bytes [of w "[]"] by simp_all

lemma drop_enough: "drop p d = xs @ r \<Longrightarrow> length xs \<le> length d - p"
  by (metis le_add1 length_append length_drop)

lemma length_splice [simp]: "p + length xs \<le> length d \<Longrightarrow> length (splice d p xs) = length d"
  by (simp add: splice_def)

lemma ref_buffer_laws: "buffer_laws ref_nuraft u64_bytes i32_bytes"
  unfolding buffer_laws_def
proof (intro conjI)
  show "get_law (data_begin ref_nuraft) (buffer_pos ref_nuraft) (get_int ref_nuraft) i32_bytes"
    by (auto simp: get_law_def ref_nuraft_def ref_get_def dest: drop_enough)
qed (auto simp: ref_nuraft_def put_law_def ref_put_def ref_get_def)

lemma ref_serializer_laws: "serializer_laws ref_nuraft u64_bytes i32_bytes"
  unfolding serializer_laws_def
proof (intro conjI)
  show "get_law (\<lambda>s. data_begin ref_nuraft (bs_buffer ref_nuraft s)) (bs_pos ref_nuraft) (bs_get_u8 ref_nuraft) (\<lambda>v. [v])"
    by (auto simp: get_law_def ref_nuraft_def ser_get_def ref_get_def)
  show "get_law (\<lambda>s. data_begin ref_nuraft (bs_buffer ref_nuraft s)) (bs_pos ref_nuraft) (bs_get_u64 ref_nuraft) u64_bytes"
    by (auto simp: get_law_def ref_nuraft_def ser_get_def ref_get_def dest: drop_enough)
qed (auto simp: ref_nuraft_def put_law_def short_law_def raw_law_def ser_put_def ser_get_def ref_put_def ref_get_def
      rbind_eq_Inr)

lemma ref_log_entry_laws: "log_entry_laws ref_nuraft"
  by (auto simp: log_entry_laws_def ref_nuraft_def ref_le_bytes_def le_core_def le_view_def nth_append)

end
