(* ===== verification/Owned_Slice.thy ===== *)
theory Owned_Slice
  imports Nuraft_Api "HOL-Library.Sublist"
begin

section \<open>\<open>owned_slice\<close>: byte strings and their wire form\<close>

text \<open>
  \<open>src/server/owned_slice.cpp\<close>: a vector of bytes with conversions from and to the other byte
  string types, and a length-prefixed wire form.

  The locale \<open>stream_codec\<close> is the contract between a value that writes itself to a
  \<open>buffer_serializer\<close> and the code that reads it back: writing appends exactly the value's
  bytes, reading them gives the value and leaves the cursor behind them, and reading a proper
  prefix of them throws. A value that is made of others (\<open>splinterdb_operation\<close>) proves the
  contract from the contract of its parts.
\<close>

lemma strict_prefix_append_cases:
  assumes "strict_prefix r (xs @ ys)"
  obtains "strict_prefix r xs" | r' where "r = xs @ r'" "strict_prefix r' ys"
proof (cases "strict_prefix r xs")
  case False
  with assms obtain r' where "r = xs @ r'" "prefix r' ys"
    by (auto simp: strict_prefix_def prefix_append)
  with assms show ?thesis using that(2) by (auto simp: strict_prefix_def)
qed (rule that(1))

locale stream_codec =
  fixes N :: "('b, 's, 'z) buffer_api_scheme"
    and e64 :: "u64 \<Rightarrow> byte list"
    and e32 :: "i32 \<Rightarrow> byte list"
    and ser :: "'v \<Rightarrow> 's \<Rightarrow> 's res"
    and des :: "'s \<Rightarrow> ('v \<times> 's) res"
    and wire :: "'v \<Rightarrow> byte list"
    and ok :: "'v \<Rightarrow> bool"
  assumes ser_wire: "buffer_laws N e64 e32 \<Longrightarrow> serializer_laws N e64 e32 \<Longrightarrow> ok v \<Longrightarrow>
      ser_wrote N s xs (length (wire v) + n) \<Longrightarrow>
      \<exists>s'. ser v s = Inr s' \<and> ser_wrote N s' (xs @ wire v) n"
    and des_wire: "buffer_laws N e64 e32 \<Longrightarrow> serializer_laws N e64 e32 \<Longrightarrow> ok v \<Longrightarrow>
      ser_unread N s (wire v @ r) \<Longrightarrow>
      \<exists>s'. des s = Inr (v, s') \<and> ser_unread N s' r"
    and des_short: "buffer_laws N e64 e32 \<Longrightarrow> serializer_laws N e64 e32 \<Longrightarrow> ok v \<Longrightarrow>
      ser_unread N s r \<Longrightarrow> strict_prefix r (wire v) \<Longrightarrow> des s = Inl Overflow_error"
begin

text \<open>Writing a value to a freshly allocated buffer of its size fills the buffer with its bytes.\<close>

lemma fresh_buffer:
  assumes laws: "buffer_laws N e64 e32" "serializer_laws N e64 e32"
    and "ok v" "length (wire v) < 18446744073709551616"
  shows "\<exists>s'. ser v (serializer N (buffer_alloc N (word_of_nat (length (wire v))))) = Inr s' \<and>
    data_begin N (bs_buffer N s') = wire v"
proof -
  let ?b = "buffer_alloc N (word_of_nat (length (wire v)))"
  have "ser_wrote N (serializer N ?b) [] (length (wire v) + 0)"
    using serializer_alloc_wrote [OF laws, of "word_of_nat (length (wire v))"] assms(4)
    by (simp add: unat_of_nat_64)
  from ser_wire [OF laws \<open>ok v\<close> this] show ?thesis by (auto dest: wrote_full)
qed

text \<open>Reading a buffer that holds a value's bytes gives the value.\<close>

lemma read_back:
  assumes laws: "buffer_laws N e64 e32" "serializer_laws N e64 e32"
    and "ok v" "data_begin N b = wire v"
  shows "\<exists>s'. des (serializer N b) = Inr (v, s')"
proof -
  have "ser_unread N (serializer N b) (wire v @ [])"
    using serializer_unread [OF laws(2), of b] assms(4) by simp
  from des_wire [OF laws \<open>ok v\<close> this] show ?thesis by blast
qed

text \<open>Reading a buffer that holds only a proper prefix of a value's bytes throws.\<close>

lemma read_truncated:
  assumes laws: "buffer_laws N e64 e32" "serializer_laws N e64 e32"
    and "ok v" "strict_prefix (data_begin N b) (wire v)"
  shows "des (serializer N b) = Inl Overflow_error"
proof -
  have "ser_unread N (serializer N b) (data_begin N b)"
    by (rule serializer_unread [OF laws(2)])
  from des_short [OF laws \<open>ok v\<close> this assms(4)] show ?thesis .
qed

end

subsection \<open>The class\<close>

record owned_slice =
  os_data :: "byte list"

text \<open>The constructors: from a vector, a length, a memory range, a slice, a string, a C string.\<close>

definition owned_slice_vector :: "byte list \<Rightarrow> owned_slice" where
  "owned_slice_vector d = \<lparr>os_data = d\<rparr>"

definition owned_slice_length :: "nat \<Rightarrow> owned_slice" where
  "owned_slice_length n = \<lparr>os_data = replicate n 0\<rparr>"

text \<open>\<open>mem\<close> is the memory from the pointer on; the range must lie inside it.\<close>

definition owned_slice_range :: "byte list \<Rightarrow> nat \<Rightarrow> owned_slice" where
  "owned_slice_range mem n = \<lparr>os_data = take n mem\<rparr>"

text \<open>A SplinterDB \<open>slice\<close> is the byte string it points to.\<close>

definition owned_slice_slice :: "byte list \<Rightarrow> owned_slice" where
  "owned_slice_slice s = owned_slice_range s (length s)"

definition owned_slice_string :: "string \<Rightarrow> owned_slice" where
  "owned_slice_string s = \<lparr>os_data = map of_char s\<rparr>"

definition owned_slice_cstring :: "string \<Rightarrow> owned_slice" where
  "owned_slice_cstring mem =
     owned_slice_range (map of_char mem) (length (takeWhile (\<lambda>c. c \<noteq> CHR 0x00) mem))"

definition os_serialize :: "('b, 's, 'z) buffer_api_scheme \<Rightarrow> owned_slice \<Rightarrow> 's \<Rightarrow> 's res" where
  "os_serialize N sl bs =
     rbind (bs_put_u64 N bs (word_of_nat (length (os_data sl))))
       (\<lambda>bs. bs_put_raw N bs (os_data sl))"

definition os_deserialize :: "('b, 's, 'z) buffer_api_scheme \<Rightarrow> 's \<Rightarrow> (owned_slice \<times> 's) res" where
  "os_deserialize N bs =
     rbind (bs_get_u64 N bs) (\<lambda>(len, bs).
     rbind (bs_get_raw N bs len) (\<lambda>(bytes, bs).
     Inr (\<lparr>os_data = bytes\<rparr>, bs)))"

text \<open>\<open>sizeof(uint64_t) + os_data.size()\<close>, in \<open>size_t\<close>.\<close>

definition serialized_size :: "owned_slice \<Rightarrow> u64" where
  "serialized_size sl = 8 + word_of_nat (length (os_data sl))"

definition os_size :: "owned_slice \<Rightarrow> u64" where
  "os_size sl = word_of_nat (length (os_data sl))"

definition fill_slice :: "owned_slice \<Rightarrow> byte list" where
  "fill_slice sl = os_data sl"

definition os_to_string :: "owned_slice \<Rightarrow> string" where
  "os_to_string sl = map (\<lambda>b. char_of (unat b)) (os_data sl)"

text \<open>\<open>take_data\<close> moves the vector out of the slice: the bytes, and the slice it leaves.\<close>

definition take_data :: "owned_slice \<Rightarrow> byte list \<times> owned_slice" where
  "take_data sl = (os_data sl, \<lparr>os_data = []\<rparr>)"

subsection \<open>The wire form\<close>

definition os_wire :: "(u64 \<Rightarrow> byte list) \<Rightarrow> owned_slice \<Rightarrow> byte list" where
  "os_wire e64 sl = e64 (word_of_nat (length (os_data sl))) @ os_data sl"

text \<open>A vector's size is a \<open>size_t\<close>.\<close>

definition os_ok :: "owned_slice \<Rightarrow> bool" where
  "os_ok sl \<longleftrightarrow> length (os_data sl) < 18446744073709551616"

lemma os_serialize_wire:
  assumes "serializer_laws N e64 e32" "ser_wrote N s xs (length (os_wire e64 v) + n)"
  shows "\<exists>s'. os_serialize N v s = Inr s' \<and> ser_wrote N s' (xs @ os_wire e64 v) n"
proof -
  let ?len = "word_of_nat (length (os_data v)) :: u64"
  have "ser_wrote N s xs (length (e64 ?len) + (length (os_data v) + n))"
    using assms(2) by (simp add: os_wire_def add.assoc)
  with ser_put_u64 [OF assms(1)] obtain s1
    where s1: "bs_put_u64 N s ?len = Inr s1" "ser_wrote N s1 (xs @ e64 ?len) (length (os_data v) + n)"
    by blast
  with ser_put_raw [OF assms(1)] obtain s2
    where "bs_put_raw N s1 (os_data v) = Inr s2" "ser_wrote N s2 ((xs @ e64 ?len) @ os_data v) n"
    by blast
  then show ?thesis using s1 by (auto simp: os_serialize_def os_wire_def)
qed

lemma os_deserialize_wire:
  assumes "serializer_laws N e64 e32" "os_ok v" "ser_unread N s (os_wire e64 v @ r)"
  shows "\<exists>s'. os_deserialize N s = Inr (v, s') \<and> ser_unread N s' r"
proof -
  let ?len = "word_of_nat (length (os_data v)) :: u64"
  have "ser_unread N s (e64 ?len @ (os_data v @ r))" using assms(3) by (simp add: os_wire_def)
  with ser_get_u64 [OF assms(1)] obtain s1
    where s1: "bs_get_u64 N s = Inr (?len, s1)" "ser_unread N s1 (os_data v @ r)"
    by blast
  have "unat ?len = length (os_data v)" using assms(2) by (simp add: os_ok_def unat_of_nat_64)
  with ser_get_raw [OF assms(1) s1(2)] obtain s2
    where "bs_get_raw N s1 ?len = Inr (os_data v, s2)" "ser_unread N s2 r"
    by blast
  then show ?thesis using s1 by (auto simp: os_deserialize_def)
qed

lemma os_deserialize_short:
  assumes "buffer_laws N e64 e32" "serializer_laws N e64 e32" "os_ok v" "ser_unread N s r"
    and "strict_prefix r (os_wire e64 v)"
  shows "os_deserialize N s = Inl Overflow_error"
proof -
  let ?len = "word_of_nat (length (os_data v)) :: u64"
  from assms(5) consider "strict_prefix r (e64 ?len)"
    | r' where "r = e64 ?len @ r'" "strict_prefix r' (os_data v)"
    unfolding os_wire_def by (rule strict_prefix_append_cases)
  then show ?thesis
  proof cases
    case 1
    then have "length r < 8" using prefix_length_less length_e64 [OF assms(1), of ?len] by fastforce
    then show ?thesis by (simp add: os_deserialize_def ser_get_u64_short [OF assms(2,4)])
  next
    case 2
    with ser_get_u64 [OF assms(2)] assms(4) obtain s1
      where s1: "bs_get_u64 N s = Inr (?len, s1)" "ser_unread N s1 r'"
      by blast
    have "length r' < unat ?len"
      using prefix_length_less [OF 2(2)] assms(3) by (simp add: os_ok_def unat_of_nat_64)
    then show ?thesis using s1 by (simp add: os_deserialize_def ser_get_raw_short [OF assms(2) s1(2)])
  qed
qed

interpretation slice_codec: stream_codec N e64 e32 "os_serialize N" "os_deserialize N" "os_wire e64" os_ok
  for N :: "('b, 's, 'z) buffer_api_scheme" and e64 e32
  by unfold_locales (simp_all add: os_serialize_wire os_deserialize_wire os_deserialize_short)

lemma serialized_size_wire:
  "buffer_laws N e64 e32 \<Longrightarrow> serialized_size sl = word_of_nat (length (os_wire e64 sl))"
  by (simp add: serialized_size_def os_wire_def buffer_laws_def)

subsection \<open>Conversions\<close>

lemma os_to_string_of_string: "os_to_string (owned_slice_string s) = s"
  by (simp add: os_to_string_def owned_slice_string_def comp_def unat_of_char_byte)

end
