(* ===== verification/Operation.thy ===== *)
theory Operation
  imports Owned_Slice
begin

section \<open>\<open>splinterdb_operation\<close>: the commands of the replicated log\<close>

text \<open>
  \<open>src/server/splinterdb_operation.cpp\<close>: a key, an optional value and a one-byte type. An
  operation is the payload of a log entry; the state machine reads it back when the entry is
  committed. The enumeration has the underlying type \<open>uint8_t\<close>, so \<open>deserialize\<close> can produce a
  type that is none of the three.
\<close>

definition PUT :: byte where "PUT = 0"
definition UPDATE :: byte where "UPDATE = 1"
definition DELETE :: byte where "DELETE = 2"

record splinterdb_operation =
  op_key :: owned_slice
  op_value :: "owned_slice option"
  op_type :: byte

definition make_put :: "owned_slice \<Rightarrow> owned_slice \<Rightarrow> splinterdb_operation" where
  "make_put k v = \<lparr>op_key = k, op_value = Some v, op_type = PUT\<rparr>"

definition make_update :: "owned_slice \<Rightarrow> owned_slice \<Rightarrow> splinterdb_operation" where
  "make_update k v = \<lparr>op_key = k, op_value = Some v, op_type = UPDATE\<rparr>"

definition make_delete :: "owned_slice \<Rightarrow> splinterdb_operation" where
  "make_delete k = \<lparr>op_key = k, op_value = None, op_type = DELETE\<rparr>"

text \<open>The size computation at the head of \<open>serialize\<close>, in \<open>size_t\<close>.\<close>

definition op_buffer_size :: "splinterdb_operation \<Rightarrow> u64" where
  "op_buffer_size op =
     (let n = 1 + serialized_size (op_key op)
      in case op_value op of None \<Rightarrow> n | Some v \<Rightarrow> n + serialized_size v)"

text \<open>The writes of \<open>serialize\<close> to its serializer.\<close>

definition op_write :: "('b, 's, 'z) buffer_api_scheme \<Rightarrow> splinterdb_operation \<Rightarrow> 's \<Rightarrow> 's res" where
  "op_write N op bs =
     rbind (bs_put_u8 N bs (op_type op)) (\<lambda>bs.
     rbind (os_serialize N (op_key op) bs) (\<lambda>bs.
     case op_value op of
       None \<Rightarrow> Inr bs
     | Some v \<Rightarrow> os_serialize N v bs))"

definition op_serialize :: "('b, 's, 'z) buffer_api_scheme \<Rightarrow> splinterdb_operation \<Rightarrow> 'b res" where
  "op_serialize N op =
     rbind (op_write N op (serializer N (buffer_alloc N (op_buffer_size op)))) (\<lambda>bs.
     Inr (bs_buffer N bs))"

text \<open>The reads of \<open>deserialize\<close> from its serializer.\<close>

definition op_read :: "('b, 's, 'z) buffer_api_scheme \<Rightarrow> 's \<Rightarrow> (splinterdb_operation \<times> 's) res" where
  "op_read N bs =
     rbind (bs_get_u8 N bs) (\<lambda>(opty, bs).
     rbind (os_deserialize N bs) (\<lambda>(key, bs).
     if opty = PUT \<or> opty = UPDATE
     then rbind (os_deserialize N bs) (\<lambda>(v, bs).
            Inr (\<lparr>op_key = key, op_value = Some v, op_type = opty\<rparr>, bs))
     else Inr (\<lparr>op_key = key, op_value = None, op_type = opty\<rparr>, bs)))"

definition op_deserialize :: "('b, 's, 'z) buffer_api_scheme \<Rightarrow> 'b \<Rightarrow> splinterdb_operation res" where
  "op_deserialize N payload_in =
     rbind (op_read N (serializer N payload_in)) (\<lambda>(op, bs). Inr op)"

subsection \<open>The wire form of an operation\<close>

definition op_wire :: "(u64 \<Rightarrow> byte list) \<Rightarrow> splinterdb_operation \<Rightarrow> byte list" where
  "op_wire e64 op = op_type op # os_wire e64 (op_key op) @
     (case op_value op of None \<Rightarrow> [] | Some v \<Rightarrow> os_wire e64 v)"

text \<open>
  What the three \<open>make_\<close> functions build: a value exactly for the two types that carry one, and
  sizes that a \<open>size_t\<close> can hold together.
\<close>

definition op_ok :: "splinterdb_operation \<Rightarrow> bool" where
  "op_ok op \<longleftrightarrow>
     (op_value op \<noteq> None \<longleftrightarrow> op_type op = PUT \<or> op_type op = UPDATE) \<and>
     length (os_data (op_key op)) + (case op_value op of None \<Rightarrow> 0 | Some v \<Rightarrow> length (os_data v))
       < 18446744073709551616 - 17"

lemma op_ok_parts:
  assumes "op_ok op"
  shows "os_ok (op_key op)" "op_value op = Some v \<Longrightarrow> os_ok v"
  using assms by (auto simp: op_ok_def os_ok_def)

lemma op_ok_make:
  assumes "length (os_data k) + length (os_data v) < 18446744073709551616 - 17"
  shows "op_ok (make_put k v)" "op_ok (make_update k v)"
  using assms by (auto simp: op_ok_def make_put_def make_update_def PUT_def UPDATE_def)

lemma op_ok_make_delete: "length (os_data k) < 18446744073709551616 - 17 \<Longrightarrow> op_ok (make_delete k)"
  by (simp add: op_ok_def make_delete_def PUT_def UPDATE_def DELETE_def)

lemma op_write_wire:
  assumes laws: "serializer_laws N e64 e32" and "ser_wrote N s xs (length (op_wire e64 op) + n)"
  shows "\<exists>s'. op_write N op s = Inr s' \<and> ser_wrote N s' (xs @ op_wire e64 op) n"
proof -
  define m where "m = (case op_value op of None \<Rightarrow> 0 | Some v \<Rightarrow> length (os_wire e64 v))"
  have "ser_wrote N s xs (1 + (length (os_wire e64 (op_key op)) + (m + n)))"
    using assms(2) by (simp add: op_wire_def m_def add.assoc split: option.splits)
  with ser_put_u8 [OF laws] obtain s1 where s1: "bs_put_u8 N s (op_type op) = Inr s1"
    "ser_wrote N s1 (xs @ [op_type op]) (length (os_wire e64 (op_key op)) + (m + n))" by blast
  with os_serialize_wire [OF laws] obtain s2 where s2: "os_serialize N (op_key op) s1 = Inr s2"
    "ser_wrote N s2 ((xs @ [op_type op]) @ os_wire e64 (op_key op)) (m + n)" by blast
  show ?thesis
  proof (cases "op_value op")
    case None
    then show ?thesis using s1 s2 by (simp add: op_write_def op_wire_def m_def)
  next
    case (Some v)
    then have "ser_wrote N s2 ((xs @ [op_type op]) @ os_wire e64 (op_key op)) (length (os_wire e64 v) + n)"
      using s2(2) by (simp add: m_def)
    with os_serialize_wire [OF laws] obtain s3 where "os_serialize N v s2 = Inr s3"
      "ser_wrote N s3 (((xs @ [op_type op]) @ os_wire e64 (op_key op)) @ os_wire e64 v) n"
      by blast
    then show ?thesis using s1 s2 Some by (simp add: op_write_def op_wire_def)
  qed
qed

lemma op_read_wire:
  assumes laws: "serializer_laws N e64 e32" and ok: "op_ok op" and "ser_unread N s (op_wire e64 op @ r)"
  shows "\<exists>s'. op_read N s = Inr (op, s') \<and> ser_unread N s' r"
proof -
  define vs where "vs = (case op_value op of None \<Rightarrow> [] | Some v \<Rightarrow> os_wire e64 v)"
  have "ser_unread N s (op_type op # (os_wire e64 (op_key op) @ (vs @ r)))"
    using assms(3) by (simp add: op_wire_def vs_def)
  with ser_get_u8 [OF laws] obtain s1 where s1: "bs_get_u8 N s = Inr (op_type op, s1)"
    "ser_unread N s1 (os_wire e64 (op_key op) @ (vs @ r))" by blast
  with os_deserialize_wire [OF laws op_ok_parts(1) [OF ok]] obtain s2
    where s2: "os_deserialize N s1 = Inr (op_key op, s2)" "ser_unread N s2 (vs @ r)" by blast
  show ?thesis
  proof (cases "op_value op")
    case None
    then have "\<not> (op_type op = PUT \<or> op_type op = UPDATE)" using ok by (simp add: op_ok_def)
    then show ?thesis using s1 s2 None by (simp add: op_read_def vs_def)
  next
    case (Some v)
    with os_deserialize_wire [OF laws op_ok_parts(2) [OF ok Some]] s2(2) obtain s3
      where s3: "os_deserialize N s2 = Inr (v, s3)" "ser_unread N s3 r" by (auto simp: vs_def)
    have "op_type op = PUT \<or> op_type op = UPDATE" using ok Some by (simp add: op_ok_def)
    then show ?thesis using s1 s2 s3 by (simp add: op_read_def flip: Some)
  qed
qed

lemma op_read_short:
  assumes laws: "buffer_laws N e64 e32" "serializer_laws N e64 e32" and ok: "op_ok op"
    and "ser_unread N s r" "strict_prefix r (op_wire e64 op)"
  shows "op_read N s = Inl Overflow_error"
proof (cases r)
  case Nil
  then show ?thesis using assms(4) by (simp add: op_read_def ser_get_u8_short [OF laws(2)])
next
  case (Cons t r1)
  define vs where "vs = (case op_value op of None \<Rightarrow> [] | Some v \<Rightarrow> os_wire e64 v)"
  have t: "t = op_type op" and r1: "strict_prefix r1 (os_wire e64 (op_key op) @ vs)"
    using assms(5) Cons by (auto simp: op_wire_def vs_def)
  obtain s1 where s1: "bs_get_u8 N s = Inr (op_type op, s1)" "ser_unread N s1 r1"
    using ser_get_u8 [OF laws(2)] assms(4) Cons t by blast
  from r1 show ?thesis
  proof (rule strict_prefix_append_cases)
    assume "strict_prefix r1 (os_wire e64 (op_key op))"
    then have "os_deserialize N s1 = Inl Overflow_error"
      using os_deserialize_short [OF laws op_ok_parts(1) [OF ok] s1(2)] by simp
    then show ?thesis using s1 by (simp add: op_read_def)
  next
    fix r2 assume r2: "r1 = os_wire e64 (op_key op) @ r2" "strict_prefix r2 vs"
    then obtain v where v: "op_value op = Some v" by (cases "op_value op") (auto simp: vs_def)
    obtain s2 where s2: "os_deserialize N s1 = Inr (op_key op, s2)" "ser_unread N s2 r2"
      using os_deserialize_wire [OF laws(2) op_ok_parts(1) [OF ok]] s1(2) r2(1) by blast
    have "strict_prefix r2 (os_wire e64 v)" using r2(2) v by (simp add: vs_def)
    then have "os_deserialize N s2 = Inl Overflow_error"
      using os_deserialize_short [OF laws op_ok_parts(2) [OF ok v] s2(2)] by simp
    moreover have "op_type op = PUT \<or> op_type op = UPDATE" using ok v by (simp add: op_ok_def)
    ultimately show ?thesis using s1 s2 by (simp add: op_read_def)
  qed
qed

interpretation operation_codec: stream_codec N e64 e32 "op_write N" "op_read N" "op_wire e64" op_ok
  for N :: "('b, 's, 'z) buffer_api_scheme" and e64 e32
  by unfold_locales (simp_all add: op_write_wire op_read_wire op_read_short)

subsection \<open>Sizes and round trips\<close>

lemma length_op_wire:
  assumes "buffer_laws N e64 e32" "op_ok op"
  shows "length (op_wire e64 op) < 18446744073709551616"
  using assms(2) length_e64 [OF assms(1)]
  by (auto simp: op_wire_def os_wire_def op_ok_def split: option.splits)

lemma op_buffer_size_wire:
  assumes "buffer_laws N e64 e32"
  shows "op_buffer_size op = word_of_nat (length (op_wire e64 op))"
  using length_e64 [OF assms]
  by (auto simp: op_buffer_size_def op_wire_def os_wire_def serialized_size_def Let_def split: option.splits)

lemma op_serialize_wire:
  assumes "buffer_laws N e64 e32" "serializer_laws N e64 e32" "op_ok op"
  shows "\<exists>b. op_serialize N op = Inr b \<and> data_begin N b = op_wire e64 op"
  using operation_codec.fresh_buffer [OF assms length_op_wire [OF assms(1,3)]]
  by (auto simp: op_serialize_def op_buffer_size_wire [OF assms(1)])

lemma op_deserialize_wire:
  assumes "buffer_laws N e64 e32" "serializer_laws N e64 e32" "op_ok op" "data_begin N b = op_wire e64 op"
  shows "op_deserialize N b = Inr op"
  using operation_codec.read_back [OF assms] by (auto simp: op_deserialize_def)

text \<open>
  C9. Serializing an operation that \<open>make_put\<close>, \<open>make_update\<close> or \<open>make_delete\<close> can build
  succeeds: the buffer allocated from the computed size is filled exactly by the wire form
  (no byte is left over and no write overflows), and deserializing any buffer with these bytes
  gives the operation back.
\<close>

theorem operation_roundtrip:
  assumes "buffer_laws N e64 e32" "serializer_laws N e64 e32" "op_ok op"
  shows "\<exists>b. op_serialize N op = Inr b \<and> data_begin N b = op_wire e64 op \<and>
    length (data_begin N b) = unat (op_buffer_size op) \<and>
    (\<forall>b'. data_begin N b' = data_begin N b \<longrightarrow> op_deserialize N b' = Inr op)"
proof -
  obtain b where b: "op_serialize N op = Inr b" "data_begin N b = op_wire e64 op"
    using op_serialize_wire [OF assms] by blast
  moreover have "length (op_wire e64 op) = unat (op_buffer_size op)"
    using length_op_wire [OF assms(1,3)] by (simp add: op_buffer_size_wire [OF assms(1)] unat_of_nat_64)
  ultimately show ?thesis using op_deserialize_wire [OF assms] by auto
qed

theorem operation_roundtrip_witness:
  "\<exists>b. op_serialize ref_nuraft (make_put (owned_slice_vector [7, 8]) (owned_slice_vector [9])) = Inr b \<and>
     op_deserialize ref_nuraft b = Inr (make_put (owned_slice_vector [7, 8]) (owned_slice_vector [9]))"
proof -
  have "op_ok (make_put (owned_slice_vector [7, 8]) (owned_slice_vector [9]))"
    by (rule op_ok_make) (simp add: owned_slice_vector_def)
  from operation_roundtrip [OF ref_buffer_laws ref_serializer_laws this] show ?thesis by blast
qed

text \<open>
  C32. A payload that is cut short is never mistaken for an operation: deserializing any proper
  prefix of the wire form of an operation throws \<open>overflow_error\<close>.
\<close>

theorem operation_truncated:
  assumes "buffer_laws N e64 e32" "serializer_laws N e64 e32" "op_ok op"
    and "strict_prefix (data_begin N b) (op_wire e64 op)"
  shows "op_deserialize N b = Inl Overflow_error"
  using operation_codec.read_truncated [OF assms] by (simp add: op_deserialize_def)

theorem operation_truncated_witness:
  "op_deserialize ref_nuraft ([2, 1, 0, 0, 0, 0, 0, 0, 0], 0) = Inl Overflow_error"
proof -
  have ok: "op_ok (make_delete (owned_slice_vector [5]))"
    by (rule op_ok_make_delete) (simp add: owned_slice_vector_def)
  have "op_wire u64_bytes (make_delete (owned_slice_vector [5])) = [2, 1, 0, 0, 0, 0, 0, 0, 0, 5]"
    by (simp add: op_wire_def os_wire_def make_delete_def owned_slice_vector_def DELETE_def u64_bytes_def upt_rec)
  then have "strict_prefix (data_begin ref_nuraft ([2, 1, 0, 0, 0, 0, 0, 0, 0], 0))
      (op_wire u64_bytes (make_delete (owned_slice_vector [5])))"
    by (simp add: ref_nuraft_def)
  from operation_truncated [OF ref_buffer_laws ref_serializer_laws ok this] show ?thesis .
qed

end
