(* ===== verification/Splinterdb_Api.thy ===== *)
theory Splinterdb_Api
  imports Prelude
begin

section \<open>The SplinterDB calls the code makes\<close>

text \<open>
  SplinterDB is a git submodule and not part of this repository: its C functions are a record of
  parameters over an opaque handle \<open>'db\<close>, lookup result \<open>'r\<close> and configuration \<open>'cfg\<close>. A slice
  is the byte string it denotes. Each call returns its return code first; \<open>splinterdb_lookup\<close>
  takes the handle \<open>const\<close>, so it returns no new one. A lookup succeeds also when the key is
  absent: it is \<open>splinterdb_lookup_result_value\<close> that then returns a code other than 0.

  \<open>kv_laws D kv merge\<close> states that the store is a key-value map (\<open>kv\<close> reads the map off a
  handle, \<open>merge\<close> is what an update makes of the old value) and that a failed call changes
  nothing.
\<close>

record ('db, 'r, 'cfg) splinterdb_api =
  splinterdb_create :: "'cfg \<Rightarrow> i32 \<times> 'db"
  splinterdb_insert :: "'db \<Rightarrow> byte list \<Rightarrow> byte list \<Rightarrow> i32 \<times> 'db"
  splinterdb_update :: "'db \<Rightarrow> byte list \<Rightarrow> byte list \<Rightarrow> i32 \<times> 'db"
  splinterdb_delete :: "'db \<Rightarrow> byte list \<Rightarrow> i32 \<times> 'db"
  splinterdb_lookup :: "'db \<Rightarrow> byte list \<Rightarrow> i32 \<times> 'r"
  splinterdb_lookup_result_value :: "'r \<Rightarrow> i32 \<times> byte list"
  splinterdb_register_thread :: "'db \<Rightarrow> 'db"
  splinterdb_print_cache :: "'db \<Rightarrow> 'db"
  splinterdb_clear_cache :: "'db \<Rightarrow> 'db"

type_synonym kvmap = "byte list \<rightharpoonup> byte list"

definition kv_laws :: "('db, 'r, 'cfg) splinterdb_api \<Rightarrow> ('db \<Rightarrow> kvmap) \<Rightarrow>
    (byte list option \<Rightarrow> byte list \<Rightarrow> byte list option) \<Rightarrow> bool" where
  "kv_laws D kv merge \<longleftrightarrow>
     (\<forall>cfg db. splinterdb_create D cfg = (0, db) \<longrightarrow> kv db = Map.empty) \<and>
     (\<forall>db k v rc db'. splinterdb_insert D db k v = (rc, db') \<longrightarrow>
        kv db' = (if rc = 0 then (kv db)(k \<mapsto> v) else kv db)) \<and>
     (\<forall>db k v rc db'. splinterdb_update D db k v = (rc, db') \<longrightarrow>
        kv db' = (if rc = 0 then (kv db)(k := merge (kv db k) v) else kv db)) \<and>
     (\<forall>db k rc db'. splinterdb_delete D db k = (rc, db') \<longrightarrow>
        kv db' = (if rc = 0 then (kv db)(k := None) else kv db)) \<and>
     (\<forall>db k r. splinterdb_lookup D db k = (0, r) \<longrightarrow>
        (case kv db k of
           None \<Rightarrow> fst (splinterdb_lookup_result_value D r) \<noteq> 0
         | Some v \<Rightarrow> splinterdb_lookup_result_value D r = (0, v))) \<and>
     (\<forall>db. kv (splinterdb_register_thread D db) = kv db) \<and>
     (\<forall>db. kv (splinterdb_print_cache D db) = kv db) \<and>
     (\<forall>db. kv (splinterdb_clear_cache D db) = kv db)"

text \<open>A store none of whose calls fails: no I/O error, no space exhausted.\<close>

definition never_fails :: "('db, 'r, 'cfg) splinterdb_api \<Rightarrow> bool" where
  "never_fails D \<longleftrightarrow>
     (\<forall>db k v. fst (splinterdb_insert D db k v) = 0 \<and> fst (splinterdb_update D db k v) = 0 \<and>
        fst (splinterdb_delete D db k) = 0 \<and> fst (splinterdb_lookup D db k) = 0)"

lemma kv_insert: "kv_laws D kv mg \<Longrightarrow> splinterdb_insert D db k v = (rc, db') \<Longrightarrow>
    kv db' = (if rc = 0 then (kv db)(k \<mapsto> v) else kv db)"
  and kv_update: "kv_laws D kv mg \<Longrightarrow> splinterdb_update D db k v = (rc, db') \<Longrightarrow>
    kv db' = (if rc = 0 then (kv db)(k := mg (kv db k) v) else kv db)"
  and kv_delete: "kv_laws D kv mg \<Longrightarrow> splinterdb_delete D db k = (rc, db') \<Longrightarrow>
    kv db' = (if rc = 0 then (kv db)(k := None) else kv db)"
  unfolding kv_laws_def by blast+

lemma kv_lookup_Some: "kv_laws D kv mg \<Longrightarrow> splinterdb_lookup D db k = (0, r) \<Longrightarrow> kv db k = Some v \<Longrightarrow>
    splinterdb_lookup_result_value D r = (0, v)"
  unfolding kv_laws_def by fastforce

lemma kv_lookup_None: "kv_laws D kv mg \<Longrightarrow> splinterdb_lookup D db k = (0, r) \<Longrightarrow> kv db k = None \<Longrightarrow>
    fst (splinterdb_lookup_result_value D r) \<noteq> 0"
  unfolding kv_laws_def by fastforce

lemma kv_cache: "kv_laws D kv mg \<Longrightarrow> kv (splinterdb_register_thread D db) = kv db"
    "kv_laws D kv mg \<Longrightarrow> kv (splinterdb_print_cache D db) = kv db"
    "kv_laws D kv mg \<Longrightarrow> kv (splinterdb_clear_cache D db) = kv db"
  by (simp_all add: kv_laws_def)

lemma kv_create: "kv_laws D kv mg \<Longrightarrow> splinterdb_create D cfg = (0, db) \<Longrightarrow> kv db = Map.empty"
  by (simp add: kv_laws_def)

lemma never_fails_rc:
  "never_fails D \<Longrightarrow> splinterdb_insert D db k v = (rc, db') \<Longrightarrow> rc = 0"
  "never_fails D \<Longrightarrow> splinterdb_update D db k v = (rc, db') \<Longrightarrow> rc = 0"
  "never_fails D \<Longrightarrow> splinterdb_delete D db k = (rc, db') \<Longrightarrow> rc = 0"
  "never_fails D \<Longrightarrow> splinterdb_lookup D db k = (rc, r) \<Longrightarrow> rc = 0"
  unfolding never_fails_def by (metis fst_conv)+

subsection \<open>A concrete instance\<close>

text \<open>An association list, the newest binding first; an update replaces the value.\<close>

type_synonym rdb = "(byte list \<times> byte list) list"

definition ref_splinterdb :: "(rdb, byte list option, unit) splinterdb_api" where
  "ref_splinterdb = \<lparr>
     splinterdb_create = (\<lambda>_. (0, [])),
     splinterdb_insert = (\<lambda>db k v. (0, (k, v) # db)),
     splinterdb_update = (\<lambda>db k v. (0, (k, v) # db)),
     splinterdb_delete = (\<lambda>db k. (0, filter (\<lambda>p. fst p \<noteq> k) db)),
     splinterdb_lookup = (\<lambda>db k. (0, map_of db k)),
     splinterdb_lookup_result_value = (\<lambda>r. case r of None \<Rightarrow> (22, []) | Some v \<Rightarrow> (0, v)),
     splinterdb_register_thread = (\<lambda>db. db),
     splinterdb_print_cache = (\<lambda>db. db),
     splinterdb_clear_cache = (\<lambda>db. db)\<rparr>"

lemma map_of_filter_neq: "map_of (filter (\<lambda>p. fst p \<noteq> k) db) = (map_of db)(k := None)"
  by (induction db) (auto simp: fun_eq_iff)

lemma ref_kv_laws: "kv_laws ref_splinterdb map_of (\<lambda>_ v. Some v)"
  by (auto simp: kv_laws_def ref_splinterdb_def map_of_filter_neq split: option.splits)

lemma ref_never_fails: "never_fails ref_splinterdb"
  by (simp add: never_fails_def ref_splinterdb_def)

end
