(* ===== verification/Std_Map.thy ===== *)
theory Std_Map
  imports Prelude
begin

section \<open>\<open>std::map\<close> as a sorted association list\<close>

text \<open>
  The code keeps its tables in \<open>std::map\<close> (the log entries by index, the writes in flight by
  time stamp, the snapshots by index, the connections by server id) and relies on the order of
  the keys: \<open>lower_bound\<close>, \<open>upper_bound\<close>, \<open>begin\<close>, \<open>rbegin\<close> and iteration. A map is the
  list of its pairs in increasing key order; \<open>sm_ok\<close> is that order.

  The locale \<open>ordered_map\<close> is the contract of the container as its clients use it: what a
  lookup gives after an assignment and after an erase, and that both keep the container well
  formed. What loops of assignments and of erases do is proved once, inside the locale.
\<close>

type_synonym ('k, 'v) smap = "('k \<times> 'v) list"

definition sm_ok :: "('k :: linorder, 'v) smap \<Rightarrow> bool" where
  "sm_ok m \<longleftrightarrow> sorted_wrt (<) (map fst m)"

text \<open>\<open>m.find(k)\<close>: \<open>None\<close> is \<open>m.end()\<close>.\<close>

definition sm_find :: "('k, 'v) smap \<Rightarrow> 'k \<Rightarrow> 'v option" where
  "sm_find m k = map_of m k"

text \<open>\<open>m[k] = v\<close>.\<close>

fun sm_put :: "'k :: linorder \<Rightarrow> 'v \<Rightarrow> ('k, 'v) smap \<Rightarrow> ('k, 'v) smap" where
  "sm_put k v [] = [(k, v)]"
| "sm_put k v ((k', v') # m) =
     (if k < k' then (k, v) # (k', v') # m
      else if k = k' then (k, v) # m
      else (k', v') # sm_put k v m)"

text \<open>\<open>m.erase(k)\<close>.\<close>

definition sm_erase :: "'k \<Rightarrow> ('k, 'v) smap \<Rightarrow> ('k, 'v) smap" where
  "sm_erase k m = filter (\<lambda>p. fst p \<noteq> k) m"

text \<open>Erasing from \<open>lower_bound(k)\<close> to the end.\<close>

definition sm_cut :: "'k :: linorder \<Rightarrow> ('k, 'v) smap \<Rightarrow> ('k, 'v) smap" where
  "sm_cut k m = takeWhile (\<lambda>p. fst p < k) m"

text \<open>\<open>m.upper_bound(k)\<close>: the first pair with a larger key.\<close>

definition sm_upper_bound :: "'k :: linorder \<Rightarrow> ('k, 'v) smap \<Rightarrow> ('k \<times> 'v) option" where
  "sm_upper_bound k m = find (\<lambda>p. k < fst p) m"

locale ordered_map =
  fixes look :: "'m \<Rightarrow> 'k \<Rightarrow> 'v option"
    and put :: "'k \<Rightarrow> 'v \<Rightarrow> 'm \<Rightarrow> 'm"
    and erase :: "'k \<Rightarrow> 'm \<Rightarrow> 'm"
    and ok :: "'m \<Rightarrow> bool"
  assumes look_put: "ok m \<Longrightarrow> look (put k v m) = (look m)(k \<mapsto> v)"
    and look_erase: "ok m \<Longrightarrow> look (erase k m) = (look m)(k := None)"
    and ok_put: "ok m \<Longrightarrow> ok (put k v m)"
    and ok_erase: "ok m \<Longrightarrow> ok (erase k m)"
begin

lemma ok_puts: "ok m \<Longrightarrow> ok (fold (\<lambda>(k, v). put k v) kvs m)"
  by (induction kvs arbitrary: m) (auto simp: ok_put)

lemma look_puts: "ok m \<Longrightarrow> look (fold (\<lambda>(k, v). put k v) kvs m) = look m ++ map_of (rev kvs)"
proof (induction kvs arbitrary: m)
  case Nil
  then show ?case by simp
next
  case (Cons p kvs)
  obtain k v where p: "p = (k, v)" by force
  from Cons.prems have "ok (put k v m)" by (rule ok_put)
  then have "look (fold (\<lambda>(k, v). put k v) kvs (put k v m)) = (look m)(k \<mapsto> v) ++ map_of (rev kvs)"
    by (simp only: Cons.IH look_put [OF Cons.prems])
  then show ?case by (simp add: p)
qed

lemma ok_erases: "ok m \<Longrightarrow> ok (fold erase ks m)"
  by (induction ks arbitrary: m) (auto simp: ok_erase)

lemma look_erases: "ok m \<Longrightarrow> look (fold erase ks m) = look m |` (- set ks)"
proof (induction ks arbitrary: m)
  case Nil
  then show ?case by simp
next
  case (Cons k ks)
  from Cons.prems have "ok (erase k m)" by (rule ok_erase)
  then have "look (fold erase ks (erase k m)) = (look m)(k := None) |` (- set ks)"
    by (simp only: Cons.IH look_erase [OF Cons.prems])
  also have "\<dots> = look m |` (- set (k # ks))"
    by (auto simp: restrict_map_def fun_eq_iff)
  finally show ?case by simp
qed

end

subsection \<open>The sorted list implements the contract\<close>

lemma sm_ok_Nil [simp]: "sm_ok []"
  by (simp add: sm_ok_def)

lemma sm_ok_Cons: "sm_ok ((k, v) # m) \<longleftrightarrow> (\<forall>k' \<in> fst ` set m. k < k') \<and> sm_ok m"
  by (auto simp: sm_ok_def)

lemma sm_find_simps [simp]:
  "sm_find [] = Map.empty" "sm_find ((k, v) # m) = (sm_find m)(k \<mapsto> v)"
  by (auto simp: sm_find_def fun_eq_iff)

lemma keys_sm_put: "fst ` set (sm_put k v m) = insert k (fst ` set m)"
  by (induction k v m rule: sm_put.induct) auto

lemma sm_find_put [simp]: "sm_find (sm_put k v m) = (sm_find m)(k \<mapsto> v)"
  by (induction k v m rule: sm_put.induct) (auto simp: sm_find_def fun_eq_iff)

lemma sm_ok_put [simp]: "sm_ok m \<Longrightarrow> sm_ok (sm_put k v m)"
  by (induction k v m rule: sm_put.induct) (auto simp: sm_ok_Cons keys_sm_put)

lemma sm_find_erase [simp]: "sm_find (sm_erase k m) = (sm_find m)(k := None)"
  unfolding sm_find_def sm_erase_def by (induction m) (auto simp: fun_eq_iff)

lemma sm_ok_filter: "sm_ok m \<Longrightarrow> sm_ok (filter P m)"
  unfolding sm_ok_def by (induction m) auto

lemma sm_ok_erase [simp]: "sm_ok m \<Longrightarrow> sm_ok (sm_erase k m)"
  by (simp add: sm_erase_def sm_ok_filter)

interpretation std_map: ordered_map sm_find sm_put sm_erase sm_ok
  by unfold_locales simp_all

subsection \<open>Sizes, cuts and bounds\<close>

lemma sm_ok_distinct: "sm_ok m \<Longrightarrow> distinct (map fst m)"
  by (auto simp: sm_ok_def strict_sorted_iff)

lemma dom_sm_find: "dom (sm_find m) = fst ` set m"
  by (simp add: sm_find_def [abs_def] dom_map_of_conv_image_fst)

lemma sm_size: "sm_ok m \<Longrightarrow> length m = card (dom (sm_find m))"
  using distinct_card [OF sm_ok_distinct, of m] by (simp add: dom_sm_find)

lemma sm_cut_filter: "sm_ok m \<Longrightarrow> sm_cut k m = filter (\<lambda>p. fst p < k) m"
proof (induction m)
  case (Cons p m)
  obtain a v where p: "p = (a, v)" by force
  have "filter (\<lambda>p. fst p < k) m = []" if "\<not> a < k"
    using Cons.prems that by (force simp: p sm_ok_Cons filter_empty_conv)
  then show ?case using Cons by (simp add: p sm_cut_def sm_ok_Cons)
qed (simp add: sm_cut_def)

lemma sm_ok_cut [simp]: "sm_ok m \<Longrightarrow> sm_ok (sm_cut k m)"
  by (simp add: sm_cut_filter sm_ok_filter)

lemma sm_find_cut [simp]: "sm_ok m \<Longrightarrow> sm_find (sm_cut k m) = sm_find m |` {..< k}"
  unfolding sm_cut_filter sm_find_def
  by (induction m) (auto simp: sm_ok_Cons fun_eq_iff restrict_map_def)

lemma sm_upper_bound_None: "sm_upper_bound k m = None \<longleftrightarrow> (\<forall>k' \<in> dom (sm_find m). k' \<le> k)"
  by (force simp: sm_upper_bound_def find_None_iff dom_sm_find not_less)

lemma sm_upper_bound_Some:
  assumes "sm_ok m" "sm_upper_bound k m = Some (a, v)"
  shows "sm_find m a = Some v \<and> k < a \<and> (\<forall>b \<in> dom (sm_find m). k < b \<longrightarrow> a \<le> b)"
  using assms
proof (induction m)
  case (Cons p m)
  obtain b w where p: "p = (b, w)" by force
  show ?case
  proof (cases "k < b")
    case True
    then have "a = b" "v = w" using Cons.prems(2) by (auto simp: p sm_upper_bound_def)
    moreover have "\<forall>c \<in> dom (sm_find (p # m)). b \<le> c"
      using Cons.prems(1) by (simp add: p dom_sm_find sm_ok_Cons less_imp_le)
    ultimately show ?thesis using True by (auto simp: p split: if_splits)
  next
    case False
    with Cons.prems have "sm_ok m" "sm_upper_bound k m = Some (a, v)"
      by (auto simp: p sm_ok_Cons sm_upper_bound_def)
    then have ih: "sm_find m a = Some v" "k < a" "\<forall>b \<in> dom (sm_find m). k < b \<longrightarrow> a \<le> b"
      using Cons.IH by auto
    then show ?thesis using False by (auto simp: p split: if_splits)
  qed
qed (simp add: sm_upper_bound_def)

text \<open>Two well-formed maps with the same lookups are the same list.\<close>

lemma sm_ext:
  assumes "sm_ok m" "sm_ok m'" "sm_find m = sm_find m'"
  shows "m = m'"
proof -
  have keys: "map fst m = map fst m'"
    using assms sm_ok_distinct [of m] sm_ok_distinct [of m'] dom_sm_find [of m] dom_sm_find [of m']
    by (intro sorted_distinct_set_unique) (auto simp: sm_ok_def strict_sorted_iff)
  have "map snd m = map snd m'"
  proof (rule nth_equalityI)
    show "length (map snd m) = length (map snd m')" using keys by (metis length_map)
    fix i assume i: "i < length (map snd m)"
    then have i': "i < length m" "i < length m'" using keys by (metis length_map)+
    have "sm_find m (fst (m ! i)) = Some (snd (m ! i))"
      using i' sm_ok_distinct [OF assms(1)] by (simp add: sm_find_def map_of_eq_Some_iff)
    moreover have "sm_find m' (fst (m' ! i)) = Some (snd (m' ! i))"
      using i' sm_ok_distinct [OF assms(2)] by (simp add: sm_find_def map_of_eq_Some_iff)
    moreover have "fst (m ! i) = fst (m' ! i)" using keys i' by (metis nth_map)
    ultimately show "map snd m ! i = map snd m' ! i" using assms(3) i' by simp
  qed
  with keys show ?thesis by (metis zip_map_fst_snd)
qed

end
