(* ===== verification/State_Machine.thy ===== *)
theory State_Machine
  imports Operation Splinterdb_Api Std_Map
begin

section \<open>\<open>splinterdb_state_machine\<close>: committing log entries to SplinterDB\<close>

text \<open>
  \<open>src/server/splinterdb_state_machine.cpp\<close>. The Raft core calls \<open>commit\<close> once for every
  committed log entry, in log order, on every replica. The abstract state of a replica is the
  key-value map of its store and the index of the last commit; \<open>kv_apply\<close> is what an operation
  does to the map.
\<close>

record 'snp splinterdb_snapshot =
  snapshot :: "'snp ptr"

record ('db, 'snp) splinterdb_state_machine =
  spl_handle :: 'db
  last_committed_idx :: u64
  commit_thread_initialized :: bool
  snapshots :: "(u64, 'snp splinterdb_snapshot ptr) smap"
  disable_snapshots :: bool

definition state_machine_new ::
    "('db, 'r, 'cfg) splinterdb_api \<Rightarrow> 'cfg \<Rightarrow> bool \<Rightarrow> ('db, 'snp) splinterdb_state_machine res" where
  "state_machine_new D cfg disable =
     (case splinterdb_create D cfg of (rc, db) \<Rightarrow>
        if rc \<noteq> 0 then Inl (Runtime_error ''Failed to create SplinterDB instance.'')
        else Inr \<lparr>spl_handle = db, last_committed_idx = 0, commit_thread_initialized = False,
                  snapshots = [], disable_snapshots = disable\<rparr>)"

text \<open>The \<open>switch\<close> of \<open>commit\<close> on the operation type: the return code of the store's call.\<close>

definition commit_switch ::
    "('db, 'r, 'cfg) splinterdb_api \<Rightarrow> splinterdb_operation \<Rightarrow> ('db, i32) act" where
  "commit_switch D operation db =
     (let key_slice = fill_slice (op_key operation) in
      if op_type operation = PUT then
        (case deref (op_value operation) of
           Inl e \<Rightarrow> (Inl e, db)
         | Inr v \<Rightarrow> (case splinterdb_insert D db key_slice (fill_slice v) of (rc, db) \<Rightarrow> (Inr rc, db)))
      else if op_type operation = UPDATE then
        (case deref (op_value operation) of
           Inl e \<Rightarrow> (Inl e, db)
         | Inr v \<Rightarrow> (case splinterdb_update D db key_slice (fill_slice v) of (rc, db) \<Rightarrow> (Inr rc, db)))
      else if op_type operation = DELETE then
        (case splinterdb_delete D db key_slice of (rc, db) \<Rightarrow> (Inr rc, db))
      else (Inl (Runtime_error ''Unknown operation type.''), db))"

text \<open>The result buffer: the return code as an \<open>int32_t\<close>.\<close>

definition commit_result :: "('b, 's, 'z) buffer_api_scheme \<Rightarrow> i32 \<Rightarrow> 'b res" where
  "commit_result N rc =
     rbind (bs_put_i32 N (serializer N (buffer_alloc N 4)) rc) (\<lambda>bs. Inr (bs_buffer N bs))"

definition sm_commit :: "('b, 's, 'z) buffer_api_scheme \<Rightarrow> ('db, 'r, 'cfg) splinterdb_api \<Rightarrow>
    u64 \<Rightarrow> 'b \<Rightarrow> (('db, 'snp) splinterdb_state_machine, 'b) act" where
  "sm_commit N D log_idx buf sm =
     (let sm = (if commit_thread_initialized sm then sm
                else sm\<lparr>commit_thread_initialized := True,
                        spl_handle := splinterdb_register_thread D (spl_handle sm)\<rparr>) in
      case op_deserialize N buf of
        Inl e \<Rightarrow> (Inl e, sm)
      | Inr operation \<Rightarrow>
          (case commit_switch D operation (spl_handle sm) of
             (Inl e, db) \<Rightarrow> (Inl e, sm\<lparr>spl_handle := db\<rparr>)
           | (Inr rc, db) \<Rightarrow>
               (commit_result N rc, sm\<lparr>spl_handle := db, last_committed_idx := log_idx\<rparr>)))"

definition sm_commit_config :: "u64 \<Rightarrow> 'conf \<Rightarrow> (('db, 'snp) splinterdb_state_machine, unit) act" where
  "sm_commit_config log_idx new_conf sm = (Inr (), sm\<lparr>last_committed_idx := log_idx\<rparr>)"

text \<open>The snapshot operations are not implemented by the code: they throw.\<close>

definition save_logical_snp_obj ::
    "'snp \<Rightarrow> u64 \<Rightarrow> 'b \<Rightarrow> bool \<Rightarrow> bool \<Rightarrow> (('db, 'snp) splinterdb_state_machine, unit) act" where
  "save_logical_snp_obj s obj_id dat is_first_obj is_last_obj sm = (Inl (Runtime_error ''Not implemented.''), sm)"

definition apply_snapshot :: "'snp \<Rightarrow> (('db, 'snp) splinterdb_state_machine, bool) act" where
  "apply_snapshot s sm = (Inl (Runtime_error ''Not implemented.''), sm)"

definition read_logical_snp_obj ::
    "'snp \<Rightarrow> 'ctx \<Rightarrow> u64 \<Rightarrow> (('db, 'snp) splinterdb_state_machine, i32 \<times> 'ctx \<times> 'b ptr \<times> bool) act" where
  "read_logical_snp_obj s user_snp_ctx obj_id sm = (Inl (Runtime_error ''Not implemented.''), sm)"

definition free_user_snp_ctx :: "'ctx \<Rightarrow> (('db, 'snp) splinterdb_state_machine, unit) act" where
  "free_user_snp_ctx user_snp_ctx sm = (Inl (Runtime_error ''Not implemented.''), sm)"

definition create_snapshot :: "'snp \<Rightarrow> 'handler \<Rightarrow> (('db, 'snp) splinterdb_state_machine, unit) act" where
  "create_snapshot s when_done sm = (Inl (Runtime_error ''Not implemented.''), sm)"

definition last_snapshot :: "('db, 'snp) splinterdb_state_machine \<Rightarrow> 'snp ptr res" where
  "last_snapshot sm =
     (if snapshots sm = [] then Inr None
      else rbind (deref (snd (last (snapshots sm)))) (\<lambda>ctx. Inr (snapshot ctx)))"

definition last_commit_index :: "('db, 'snp) splinterdb_state_machine \<Rightarrow> u64" where
  "last_commit_index sm = last_committed_idx sm"

definition chk_create_snapshot :: "('db, 'snp) splinterdb_state_machine \<Rightarrow> bool" where
  "chk_create_snapshot sm \<longleftrightarrow> \<not> disable_snapshots sm"

subsection \<open>What an operation does to the key-value map\<close>

definition kv_apply :: "(byte list option \<Rightarrow> byte list \<Rightarrow> byte list option) \<Rightarrow>
    splinterdb_operation \<Rightarrow> kvmap \<Rightarrow> kvmap" where
  "kv_apply merge op m =
     (let k = os_data (op_key op); v = (case op_value op of None \<Rightarrow> [] | Some v \<Rightarrow> os_data v) in
      if op_type op = PUT then m(k \<mapsto> v)
      else if op_type op = UPDATE then m(k := merge (m k) v)
      else m(k := None))"

text \<open>The operations that the three \<open>make_\<close> functions build have one of the three types.\<close>

definition op_known :: "splinterdb_operation \<Rightarrow> bool" where
  "op_known op \<longleftrightarrow> op_type op = PUT \<or> op_type op = UPDATE \<or> op_type op = DELETE"

lemma op_types_distinct [simp]:
  "PUT \<noteq> UPDATE" "PUT \<noteq> DELETE" "UPDATE \<noteq> DELETE" "UPDATE \<noteq> PUT" "DELETE \<noteq> PUT" "DELETE \<noteq> UPDATE"
  by (simp_all add: PUT_def UPDATE_def DELETE_def)

lemma op_read_value: "op_read N bs = Inr (op, bs') \<Longrightarrow> op_value op \<noteq> None \<longleftrightarrow> op_type op = PUT \<or> op_type op = UPDATE"
  by (auto simp: op_read_def rbind_eq_Inr split: prod.splits if_splits)

lemma op_deserialize_value:
  "op_deserialize N b = Inr op \<Longrightarrow> op_value op \<noteq> None \<longleftrightarrow> op_type op = PUT \<or> op_type op = UPDATE"
  by (auto simp: op_deserialize_def rbind_eq_Inr dest: op_read_value)

text \<open>The switch refines \<open>kv_apply\<close>: on success by it, on failure by no change.\<close>

lemma commit_switch_kv:
  assumes "kv_laws D kv mg" "op_known op" "op_value op \<noteq> None \<longleftrightarrow> op_type op = PUT \<or> op_type op = UPDATE"
  shows "\<exists>rc db'. commit_switch D op db = (Inr rc, db') \<and>
    kv db' = (if rc = 0 then kv_apply mg op (kv db) else kv db) \<and> (never_fails D \<longrightarrow> rc = 0)"
proof -
  consider "op_type op = PUT" | "op_type op = UPDATE" | "op_type op = DELETE"
    using assms(2) by (auto simp: op_known_def)
  then show ?thesis
  proof cases
    case 1
    then obtain v where v: "op_value op = Some v" using assms(3) by auto
    obtain rc db' where i: "splinterdb_insert D db (os_data (op_key op)) (os_data v) = (rc, db')"
      by force
    have "commit_switch D op db = (Inr rc, db')" using 1 v i by (simp add: commit_switch_def fill_slice_def)
    moreover have "kv_apply mg op (kv db) = (kv db)(os_data (op_key op) \<mapsto> os_data v)"
      using 1 v by (simp add: kv_apply_def)
    ultimately show ?thesis using kv_insert [OF assms(1) i] never_fails_rc(1) [OF _ i] by auto
  next
    case 2
    then obtain v where v: "op_value op = Some v" using assms(3) by auto
    obtain rc db' where i: "splinterdb_update D db (os_data (op_key op)) (os_data v) = (rc, db')"
      by force
    have "commit_switch D op db = (Inr rc, db')" using 2 v i by (simp add: commit_switch_def fill_slice_def)
    moreover have "kv_apply mg op (kv db) = (kv db)(os_data (op_key op) := mg (kv db (os_data (op_key op))) (os_data v))"
      using 2 v by (simp add: kv_apply_def Let_def)
    ultimately show ?thesis using kv_update [OF assms(1) i] never_fails_rc(2) [OF _ i] by auto
  next
    case 3
    obtain rc db' where i: "splinterdb_delete D db (os_data (op_key op)) = (rc, db')" by force
    have "commit_switch D op db = (Inr rc, db')" using 3 i by (simp add: commit_switch_def fill_slice_def)
    moreover have "kv_apply mg op (kv db) = (kv db)(os_data (op_key op) := None)"
      using 3 by (simp add: kv_apply_def)
    ultimately show ?thesis using kv_delete [OF assms(1) i] never_fails_rc(3) [OF _ i] by auto
  qed
qed

lemma commit_result_reads:
  assumes "buffer_laws N e64 e32" "serializer_laws N e64 e32"
  shows "\<exists>b. commit_result N rc = Inr b \<and> (\<exists>b'. get_int N b = Inr (rc, b'))"
proof -
  let ?s = "serializer N (buffer_alloc N 4)"
  have "ser_wrote N ?s [] (length (e32 rc) + 0)"
    using serializer_alloc_wrote [OF assms, of 4] length_e32 [OF assms(1)] by simp
  with ser_put_i32 [OF assms(2)] obtain s' where s': "bs_put_i32 N ?s rc = Inr s'"
    "ser_wrote N s' ([] @ e32 rc) 0" "buffer_pos N (bs_buffer N s') = buffer_pos N (bs_buffer N ?s)"
    by blast
  moreover have "buffer_pos N (bs_buffer N ?s) = 0"
    using assms by (simp add: serializer_laws_def buffer_laws_def)
  ultimately have "buf_unread N (bs_buffer N s') (e32 rc @ [])"
    using wrote_full [OF s'(2)] by (simp add: unread_def)
  from buf_get_int [OF assms(1) this] s'(1) show ?thesis by (auto simp: commit_result_def)
qed

lemma commit_ok:
  fixes sm :: "('db, 'snp) splinterdb_state_machine"
  assumes laws: "buffer_laws N e64 e32" "serializer_laws N e64 e32" "kv_laws D kv mg"
    and op: "op_ok op" "op_known op" "data_begin N buf = op_wire e64 op"
  shows "\<exists>rc out sm' b'. sm_commit N D log_idx buf sm = (Inr out, sm') \<and> get_int N out = Inr (rc, b') \<and>
    kv (spl_handle sm') = (if rc = 0 then kv_apply mg op (kv (spl_handle sm)) else kv (spl_handle sm)) \<and>
    last_committed_idx sm' = log_idx \<and> (never_fails D \<longrightarrow> rc = 0)"
proof -
  define sm1 where "sm1 = (if commit_thread_initialized sm then sm
    else sm\<lparr>commit_thread_initialized := True, spl_handle := splinterdb_register_thread D (spl_handle sm)\<rparr>)"
  have kv1: "kv (spl_handle sm1) = kv (spl_handle sm)" by (simp add: sm1_def kv_cache [OF laws(3)])
  have des: "op_deserialize N buf = Inr op" by (rule op_deserialize_wire [OF laws(1,2) op(1,3)])
  obtain rc db where sw: "commit_switch D op (spl_handle sm1) = (Inr rc, db)"
    "kv db = (if rc = 0 then kv_apply mg op (kv (spl_handle sm1)) else kv (spl_handle sm1))"
    "never_fails D \<longrightarrow> rc = 0"
    using commit_switch_kv [OF laws(3) op(2)] op_deserialize_value [OF des] by blast
  obtain out b' where "commit_result N rc = Inr out" "get_int N out = Inr (rc, b')"
    using commit_result_reads [OF laws(1,2)] by blast
  then have "sm_commit N D log_idx buf sm = (Inr out, sm1\<lparr>spl_handle := db, last_committed_idx := log_idx\<rparr>)"
    unfolding sm_commit_def Let_def des sm1_def [symmetric] by (simp add: sw(1))
  then show ?thesis using sw kv1 \<open>get_int N out = Inr (rc, b')\<close> by fastforce
qed

text \<open>
  C2. Committing the payload of an operation refines the abstract update: the commit returns a
  buffer from which \<open>get_int\<close> reads the store's return code; when that code is 0 the store's map
  is the old one with the operation applied, otherwise it is unchanged; in both cases the entry's
  index becomes the last committed index. With a store whose calls do not fail the code is 0.
\<close>

theorem commit_refines:
  fixes sm :: "('db, 'snp) splinterdb_state_machine"
  assumes laws: "buffer_laws N e64 e32" "serializer_laws N e64 e32" "kv_laws D kv mg"
    and op: "op_ok op" "op_known op" "data_begin N buf = op_wire e64 op"
  shows "\<exists>rc out sm' b'. sm_commit N D log_idx buf sm = (Inr out, sm') \<and> get_int N out = Inr (rc, b') \<and>
    kv (spl_handle sm') = (if rc = 0 then kv_apply mg op (kv (spl_handle sm)) else kv (spl_handle sm)) \<and>
    last_committed_idx sm' = log_idx \<and> (never_fails D \<longrightarrow> rc = 0)"
  by (rule commit_ok [OF assms])

theorem commit_refines_witness:
  "\<exists>sm0 rc out sm' b'. state_machine_new ref_splinterdb () False = Inr (sm0 :: (rdb, unit) splinterdb_state_machine) \<and>
     sm_commit ref_nuraft ref_splinterdb 5 (op_wire u64_bytes (make_put (owned_slice_vector [1]) (owned_slice_vector [2])), 0) sm0
       = (Inr out, sm') \<and>
     get_int ref_nuraft out = Inr (rc, b') \<and> rc = 0 \<and> map_of (spl_handle sm') [1] = Some [2] \<and>
     last_committed_idx sm' = 5"
proof -
  let ?op = "make_put (owned_slice_vector [1]) (owned_slice_vector [2])"
  obtain sm0 :: "(rdb, unit) splinterdb_state_machine"
    where sm0: "state_machine_new ref_splinterdb () False = Inr sm0"
    by (simp add: state_machine_new_def ref_splinterdb_def)
  have ok: "op_ok ?op" by (rule op_ok_make) (simp add: owned_slice_vector_def)
  have known: "op_known ?op" by (simp add: op_known_def make_put_def)
  have dat: "data_begin ref_nuraft (op_wire u64_bytes ?op, 0) = op_wire u64_bytes ?op"
    by (simp add: ref_nuraft_def)
  obtain rc out sm' b' where c: "sm_commit ref_nuraft ref_splinterdb 5 (op_wire u64_bytes ?op, 0) sm0 = (Inr out, sm')"
    "get_int ref_nuraft out = Inr (rc, b')"
    "map_of (spl_handle sm') = (if rc = 0 then kv_apply (\<lambda>_ v. Some v) ?op (map_of (spl_handle sm0)) else map_of (spl_handle sm0))"
    "last_committed_idx sm' = 5" "never_fails ref_splinterdb \<longrightarrow> rc = 0"
    using commit_refines [OF ref_buffer_laws ref_serializer_laws ref_kv_laws ok known dat, of 5 sm0] by blast
  then have "rc = 0" "map_of (spl_handle sm') [1] = Some [2]"
    using ref_never_fails by (simp_all add: kv_apply_def make_put_def owned_slice_vector_def)
  with sm0 c show ?thesis by blast
qed

text \<open>
  C13. Whatever bytes a payload holds, a commit that throws leaves no trace in the replicated
  state: the store's map and the last committed index are as before, and it throws only because
  the payload could not be read or its type byte is none of the three.
\<close>

theorem commit_throws_no_effect:
  assumes laws: "buffer_laws N e64 e32" "serializer_laws N e64 e32" "kv_laws D kv mg"
    and thrown: "sm_commit N D log_idx buf sm = (Inl e, sm')"
  shows "kv (spl_handle sm') = kv (spl_handle sm) \<and> last_committed_idx sm' = last_committed_idx sm \<and>
    (op_deserialize N buf = Inl e \<or> (\<exists>op. op_deserialize N buf = Inr op \<and> op_known op = False))"
proof (cases "op_deserialize N buf")
  case (Inl x)
  then show ?thesis using thrown by (auto simp: sm_commit_def Let_def kv_cache [OF laws(3)])
next
  case (Inr op)
  have "op_known op = False"
  proof (rule ccontr)
    assume "op_known op \<noteq> False"
    then obtain rc db where "commit_switch D op (spl_handle (if commit_thread_initialized sm then sm
      else sm\<lparr>commit_thread_initialized := True, spl_handle := splinterdb_register_thread D (spl_handle sm)\<rparr>)) = (Inr rc, db)"
      using commit_switch_kv [OF laws(3)] op_deserialize_value [OF Inr] by blast
    then show False using thrown Inr commit_result_reads [OF laws(1,2), of rc]
      by (auto simp: sm_commit_def Let_def)
  qed
  moreover from this have "commit_switch D op db = (Inl (Runtime_error ''Unknown operation type.''), db)" for db
    by (simp add: commit_switch_def op_known_def)
  ultimately show ?thesis using thrown Inr by (auto simp: sm_commit_def Let_def kv_cache [OF laws(3)])
qed

theorem commit_throws_no_effect_witness:
  "\<exists>e sm'. sm_commit ref_nuraft ref_splinterdb 9 ([7, 0, 0, 0, 0, 0, 0, 0, 0], 0)
       \<lparr>spl_handle = [([1], [2])], last_committed_idx = 3, commit_thread_initialized = False,
        snapshots = ([] :: (u64, unit splinterdb_snapshot ptr) smap), disable_snapshots = True\<rparr> = (Inl e, sm') \<and>
     map_of (spl_handle sm') = map_of [([1], [2])] \<and> last_committed_idx sm' = 3"
proof -
  let ?sm = "\<lparr>spl_handle = [([1], [2])], last_committed_idx = 3, commit_thread_initialized = False,
        snapshots = ([] :: (u64, unit splinterdb_snapshot ptr) smap), disable_snapshots = True\<rparr>"
  obtain e sm' where c: "sm_commit ref_nuraft ref_splinterdb 9 ([7, 0, 0, 0, 0, 0, 0, 0, 0], 0) ?sm = (Inl e, sm')"
    by (simp add: sm_commit_def Let_def op_deserialize_def op_read_def os_deserialize_def ref_nuraft_def
        ser_get_def ref_get_def u64_of_bytes_def commit_switch_def PUT_def UPDATE_def DELETE_def)
  from commit_throws_no_effect [OF ref_buffer_laws ref_serializer_laws ref_kv_laws c] c show ?thesis by auto
qed

subsection \<open>Replicas that commit the same log agree\<close>

text \<open>The Raft core's calls of \<open>commit\<close> for a run of log entries, up to the first exception.\<close>

fun commit_all :: "('b, 's, 'z) buffer_api_scheme \<Rightarrow> ('db, 'r, 'cfg) splinterdb_api \<Rightarrow> (u64 \<times> 'b) list \<Rightarrow>
    (('db, 'snp) splinterdb_state_machine, 'b list) act" where
  "commit_all N D [] sm = (Inr [], sm)"
| "commit_all N D ((i, b) # es) sm =
     abind (sm_commit N D i b) (\<lambda>out.
     abind (commit_all N D es) (\<lambda>outs sm. (Inr (out # outs), sm))) sm"

text \<open>The buffers of a run of entries carry these operations at these indexes.\<close>

definition carries :: "('b, 's, 'z) buffer_api_scheme \<Rightarrow> (u64 \<Rightarrow> byte list) \<Rightarrow>
    (u64 \<times> 'b) list \<Rightarrow> (u64 \<times> splinterdb_operation) list \<Rightarrow> bool" where
  "carries N e64 es ops \<longleftrightarrow>
     list_all2 (\<lambda>(i, b) (j, op). i = j \<and> op_ok op \<and> op_known op \<and> data_begin N b = op_wire e64 op) es ops"

lemma commit_all_kv:
  assumes laws: "buffer_laws N e64 e32" "serializer_laws N e64 e32" "kv_laws D kv mg" "never_fails D"
    and "carries N e64 es ops"
  shows "\<exists>outs sm'. commit_all N D es sm = (Inr outs, sm') \<and> length outs = length es \<and>
    kv (spl_handle sm') = fold (kv_apply mg) (map snd ops) (kv (spl_handle sm)) \<and>
    last_committed_idx sm' = last (last_committed_idx sm # map fst ops)"
  using assms(5)
proof (induction es arbitrary: ops sm)
  case Nil
  then show ?case by (simp add: carries_def)
next
  case (Cons e es)
  obtain i b where e: "e = (i, b)" by force
  obtain op ops' where ops: "ops = (i, op) # ops'" "op_ok op" "op_known op" "data_begin N b = op_wire e64 op"
    "carries N e64 es ops'"
    using Cons.prems by (auto simp: e carries_def list_all2_Cons1)
  obtain out sm1 where c: "sm_commit N D i b sm = (Inr out, sm1)"
    "kv (spl_handle sm1) = kv_apply mg op (kv (spl_handle sm))" "last_committed_idx sm1 = i"
    using commit_ok [OF laws(1-3) ops(2-4), of i sm] laws(4) by auto
  obtain outs sm2 where "commit_all N D es sm1 = (Inr outs, sm2)" "length outs = length es"
    "kv (spl_handle sm2) = fold (kv_apply mg) (map snd ops') (kv (spl_handle sm1))"
    "last_committed_idx sm2 = last (last_committed_idx sm1 # map fst ops')"
    using Cons.IH [OF ops(5), of sm1] by blast
  then show ?case using c by (simp add: e ops(1))
qed

text \<open>
  C3. Two replicas with their own stores, that start from the same map and the same last index
  and commit the same operations at the same indexes, commit them all without an exception and
  end with the same map, the one the operations describe, and the same last committed index.
\<close>

theorem replicas_agree:
  assumes "buffer_laws N e64 e32" "serializer_laws N e64 e32"
    and "kv_laws D1 kv1 mg" "never_fails D1" "kv_laws D2 kv2 mg" "never_fails D2"
    and "carries N e64 es1 ops" "carries N e64 es2 ops"
    and "kv1 (spl_handle smA) = kv2 (spl_handle smB)" "last_committed_idx smA = last_committed_idx smB"
  shows "\<exists>outs1 smA' outs2 smB'.
    commit_all N D1 es1 smA = (Inr outs1, smA') \<and> commit_all N D2 es2 smB = (Inr outs2, smB') \<and>
    kv1 (spl_handle smA') = kv2 (spl_handle smB') \<and>
    kv1 (spl_handle smA') = fold (kv_apply mg) (map snd ops) (kv1 (spl_handle smA)) \<and>
    last_committed_idx smA' = last_committed_idx smB'"
  using commit_all_kv [OF assms(1-4,7), of smA] commit_all_kv [OF assms(1,2,5,6,8), of smB] assms(9,10)
  by auto

theorem replicas_agree_witness:
  "\<exists>outs1 smA' outs2 smB'.
    commit_all ref_nuraft ref_splinterdb
      [(1, (op_wire u64_bytes (make_put (owned_slice_vector [1]) (owned_slice_vector [2])), 0)),
       (2, (op_wire u64_bytes (make_delete (owned_slice_vector [1])), 0))]
      \<lparr>spl_handle = [([1], [3]), ([1], [4])], last_committed_idx = 0, commit_thread_initialized = False,
       snapshots = ([] :: (u64, unit splinterdb_snapshot ptr) smap), disable_snapshots = True\<rparr> = (Inr outs1, smA') \<and>
    commit_all ref_nuraft ref_splinterdb
      [(1, (op_wire u64_bytes (make_put (owned_slice_vector [1]) (owned_slice_vector [2])), 7)),
       (2, (op_wire u64_bytes (make_delete (owned_slice_vector [1])), 0))]
      \<lparr>spl_handle = [([1], [3])], last_committed_idx = 0, commit_thread_initialized = True,
       snapshots = ([] :: (u64, unit splinterdb_snapshot ptr) smap), disable_snapshots = False\<rparr> = (Inr outs2, smB') \<and>
    map_of (spl_handle smA') = map_of (spl_handle smB')"
proof -
  let ?ops = "[(1, make_put (owned_slice_vector [1]) (owned_slice_vector [2])), (2, make_delete (owned_slice_vector [1]))]"
  have ok: "op_ok (make_put (owned_slice_vector [1]) (owned_slice_vector [2]))" "op_ok (make_delete (owned_slice_vector [1]))"
    by (rule op_ok_make op_ok_make_delete, simp add: owned_slice_vector_def)+
  have c: "carries ref_nuraft u64_bytes
      [(1, (op_wire u64_bytes (make_put (owned_slice_vector [1]) (owned_slice_vector [2])), p)),
       (2, (op_wire u64_bytes (make_delete (owned_slice_vector [1])), 0))] ?ops" for p
    using ok by (simp add: carries_def ref_nuraft_def op_known_def make_put_def make_delete_def)
  have m: "map_of [([1], [3]), ([1], [4])] = map_of [([1 :: byte], [3 :: byte])]"
    by (simp add: fun_eq_iff)
  from replicas_agree [OF ref_buffer_laws ref_serializer_laws ref_kv_laws ref_never_fails ref_kv_laws ref_never_fails
      c [of 0] c [of 7],
      where smA = "\<lparr>spl_handle = [([1], [3]), ([1], [4])], last_committed_idx = 0, commit_thread_initialized = False,
        snapshots = ([] :: (u64, unit splinterdb_snapshot ptr) smap), disable_snapshots = True\<rparr>"
      and smB = "\<lparr>spl_handle = [([1], [3])], last_committed_idx = 0, commit_thread_initialized = True,
        snapshots = ([] :: (u64, unit splinterdb_snapshot ptr) smap), disable_snapshots = False\<rparr>"] m
  show ?thesis by auto
qed

end
