(* ===== verification/Raft_Api.thy ===== *)
theory Raft_Api
  imports Prelude
begin

section \<open>The NuRaft server the code calls: configurations, results, the server object\<close>

text \<open>
  More of NuRaft (a git submodule, not part of this repository) as parameters: server and cluster
  configurations, the persistent server state, and the Raft server with its results. The Raft
  server (\<open>'rf\<close>) holds the state machine (\<open>'sm\<close>) of its replica and commits entries to it during
  a call, so \<open>append_entries\<close> takes and returns both. The answer of \<open>is_initialized\<close> depends on when
  it is asked: it is a function of the number of the poll.
\<close>

record ('sc, 'cc, 'ss, 'b) raft_conf_api =
  srv_config_new :: "int \<Rightarrow> int \<Rightarrow> string \<Rightarrow> string \<Rightarrow> bool \<Rightarrow> 'sc"
  sc_get_id :: "'sc \<Rightarrow> int"
  sc_get_endpoint :: "'sc \<Rightarrow> string"
  sc_get_aux :: "'sc \<Rightarrow> string"
  cluster_config_new :: 'cc
  cc_get_servers :: "'cc \<Rightarrow> 'sc list"
  cc_push_back :: "'sc \<Rightarrow> 'cc \<Rightarrow> 'cc"
  cc_serialize :: "'cc \<Rightarrow> 'b"
  cc_deserialize :: "'b \<Rightarrow> 'cc res"
  ss_serialize :: "'ss \<Rightarrow> 'b"
  ss_deserialize :: "'b \<Rightarrow> 'ss res"
  ss_get_term :: "'ss \<Rightarrow> u64"
  ss_get_voted_for :: "'ss \<Rightarrow> int"

text \<open>What a server configuration shows of a server: its id, Raft endpoint and client endpoint.\<close>

definition sc_view :: "('sc, 'cc, 'ss, 'b) raft_conf_api \<Rightarrow> 'sc \<Rightarrow> int \<times> string \<times> string" where
  "sc_view C s = (sc_get_id C s, sc_get_endpoint C s, sc_get_aux C s)"

text \<open>Constructors and accessors agree, and serialization keeps what the accessors show.\<close>

definition conf_laws :: "('sc, 'cc, 'ss, 'b) raft_conf_api \<Rightarrow> bool" where
  "conf_laws C \<longleftrightarrow>
     (\<forall>i dc ep aux l. sc_view C (srv_config_new C i dc ep aux l) = (i, ep, aux)) \<and>
     cc_get_servers C (cluster_config_new C) = [] \<and>
     (\<forall>s c. cc_get_servers C (cc_push_back C s c) = cc_get_servers C c @ [s]) \<and>
     (\<forall>c. \<exists>c'. cc_deserialize C (cc_serialize C c) = Inr c' \<and>
        map (sc_view C) (cc_get_servers C c') = map (sc_view C) (cc_get_servers C c)) \<and>
     (\<forall>s. \<exists>s'. ss_deserialize C (ss_serialize C s) = Inr s' \<and>
        ss_get_term C s' = ss_get_term C s \<and> ss_get_voted_for C s' = ss_get_voted_for C s)"

text \<open>\<open>raft_params::return_method_type\<close> and the parameters the code sets.\<close>

datatype return_method_type = Blocking | Async_handler

record raft_params =
  heart_beat_interval :: int
  election_timeout_lower_bound :: int
  election_timeout_upper_bound :: int
  reserved_log_items :: int
  client_req_timeout :: int
  return_method :: return_method_type
  auto_forwarding :: bool
  snapshot_distance :: int

record ('rf, 'rr, 'sc, 'b, 'sm, 'mgr) raft_api =
  raft_params_new :: raft_params
  launcher_init :: "'sm \<Rightarrow> 'mgr \<Rightarrow> int \<Rightarrow> u64 \<Rightarrow> raft_params \<Rightarrow> 'rf ptr"
  launcher_shutdown :: "u64 \<Rightarrow> 'rf \<Rightarrow> 'rf"
  is_initialized :: "'rf \<Rightarrow> nat \<Rightarrow> bool"
  append_entries :: "'b list \<Rightarrow> 'rf \<times> 'sm \<Rightarrow> 'rr ptr \<times> ('rf \<times> 'sm)"
  add_srv :: "'sc \<Rightarrow> 'rf \<Rightarrow> 'rr ptr \<times> 'rf"
  rf_get_leader :: "'rf \<Rightarrow> int"
  get_srv_config :: "'rf \<Rightarrow> int \<Rightarrow> 'sc ptr"
  get_srv_config_all :: "'rf \<Rightarrow> 'sc list"
  get_accepted :: "'rr \<Rightarrow> bool"
  get_result_code :: "'rr \<Rightarrow> int"
  get_result_str :: "'rr \<Rightarrow> string"
  has_result :: "'rr \<Rightarrow> bool"
  rr_get :: "'rr \<Rightarrow> 'b ptr"

subsection \<open>A concrete instance of the configurations\<close>

type_synonym rsc = "int \<times> string \<times> string"

definition ref_conf :: "(rsc, rsc list, u64 \<times> int, rsc list + u64 \<times> int) raft_conf_api" where
  "ref_conf = \<lparr>srv_config_new = (\<lambda>i dc ep aux l. (i, ep, aux)),
     sc_get_id = fst, sc_get_endpoint = (\<lambda>s. fst (snd s)), sc_get_aux = (\<lambda>s. snd (snd s)),
     cluster_config_new = [], cc_get_servers = (\<lambda>c. c), cc_push_back = (\<lambda>s c. c @ [s]),
     cc_serialize = Inl, cc_deserialize = (\<lambda>b. case b of Inl c \<Rightarrow> Inr c | Inr _ \<Rightarrow> Inl Overflow_error),
     ss_serialize = Inr, ss_deserialize = (\<lambda>b. case b of Inr s \<Rightarrow> Inr s | Inl _ \<Rightarrow> Inl Overflow_error),
     ss_get_term = fst, ss_get_voted_for = snd\<rparr>"

lemma ref_conf_laws: "conf_laws ref_conf"
  by (simp add: conf_laws_def ref_conf_def sc_view_def)

end
