(* ===== verification/Log_Store.thy ===== *)
theory Log_Store
  imports Nuraft_Api Std_Map
begin

section \<open>The log store interface\<close>

text \<open>
  What the Raft core may rely on of a log store, from the interface comments in
  \<open>src/server/splinterdb_log_store.h\<close> (which repeat NuRaft's): the log is a list of entries with
  consecutive indexes from \<open>first\<close>; \<open>next_slot\<close> is the index after the last; \<open>append\<close> puts an
  entry there and returns its index; \<open>write_at\<close> overwrites an index and truncates what follows;
  \<open>entry_at\<close> reads an index; \<open>compact\<close> drops everything up to an index, also when that index is
  past the end. Entries are compared by what their accessors show, since stores keep copies.

  The locale states the contract over the observations of a store; what a Raft node does with
  several calls (catching up a follower, appending after a compaction) is proved from the
  contract alone.
\<close>

locale log_store =
  fixes inv :: "'s \<Rightarrow> bool"
    and entries :: "'s \<Rightarrow> entry_view list"
    and first :: "'s \<Rightarrow> nat"
    and view :: "'e \<Rightarrow> entry_view"
    and next_slot :: "'s \<Rightarrow> u64"
    and append :: "'e \<Rightarrow> 's \<Rightarrow> u64 \<times> 's"
    and write_at :: "u64 \<Rightarrow> 'e \<Rightarrow> 's \<Rightarrow> 's"
    and entry_at :: "'s \<Rightarrow> u64 \<Rightarrow> 'e res"
    and compact :: "u64 \<Rightarrow> 's \<Rightarrow> (bool \<times> 's) option"
  assumes first_pos: "inv s \<Longrightarrow> 1 \<le> first s"
    and next_slot: "inv s \<Longrightarrow> unat (next_slot s) = first s + length (entries s)"
    and append: "inv s \<Longrightarrow> first s + length (entries s) + 1 < 18446744073709551616 \<Longrightarrow>
      \<exists>s'. append e s = (next_slot s, s') \<and> inv s' \<and> first s' = first s \<and> entries s' = entries s @ [view e]"
    and write_at: "inv s \<Longrightarrow> first s \<le> unat i \<Longrightarrow> unat i \<le> first s + length (entries s) \<Longrightarrow>
      unat i + 1 < 18446744073709551616 \<Longrightarrow>
      inv (write_at i e s) \<and> first (write_at i e s) = first s \<and>
      entries (write_at i e s) = take (unat i - first s) (entries s) @ [view e]"
    and entry_at: "inv s \<Longrightarrow> first s \<le> unat i \<Longrightarrow> unat i < first s + length (entries s) \<Longrightarrow>
      \<exists>e. entry_at s i = Inr e \<and> view e = entries s ! (unat i - first s)"
    and compact: "inv s \<Longrightarrow> unat i + 1 < 18446744073709551616 \<Longrightarrow>
      \<exists>s'. compact i s = Some (True, s') \<and> inv s' \<and> first s' = max (first s) (unat i + 1) \<and>
        entries s' = drop (unat i + 1 - first s) (entries s)"
begin

text \<open>Reading the index that \<open>append\<close> returned gives the appended entry.\<close>

lemma append_then_read:
  assumes "inv s" "first s + length (entries s) + 1 < 18446744073709551616"
  shows "\<exists>s' e'. append e s = (next_slot s, s') \<and> entry_at s' (next_slot s) = Inr e' \<and> view e' = view e"
proof -
  obtain s' where s': "append e s = (next_slot s, s')" "inv s'" "first s' = first s"
    "entries s' = entries s @ [view e]"
    using append [OF assms] by blast
  have n: "unat (next_slot s) = first s + length (entries s)" by (rule next_slot [OF assms(1)])
  obtain e' where "entry_at s' (next_slot s) = Inr e'" "view e' = entries s' ! (unat (next_slot s) - first s')"
    using entry_at [OF s'(2), of "next_slot s"] n s' by auto
  then show ?thesis using s' n by (auto simp: nth_append)
qed

text \<open>Appending several entries one after the other.\<close>

abbreviation append_all :: "'e list \<Rightarrow> 's \<Rightarrow> 's" where
  "append_all \<equiv> fold (\<lambda>e s. snd (append e s))"

lemma append_all_entries:
  assumes "inv s" "first s + length (entries s) + length es < 18446744073709551616"
  shows "inv (append_all es s) \<and> first (append_all es s) = first s \<and>
    entries (append_all es s) = entries s @ map view es"
  using assms
proof (induction es arbitrary: s)
  case (Cons e es)
  then obtain s' where "append e s = (next_slot s, s')" "inv s'" "first s' = first s"
    "entries s' = entries s @ [view e]"
    using append [of s e] by auto
  then show ?case using Cons.IH [of s'] Cons.prems by auto
qed simp

text \<open>
  A follower that finds a conflict at index \<open>i\<close> overwrites it and appends the rest: the log keeps
  what was before \<open>i\<close> and continues with exactly the leader's entries.
\<close>

lemma overwrite_and_catch_up:
  assumes "inv s" "first s \<le> unat i" "unat i \<le> first s + length (entries s)"
    and "unat i + 1 + length es < 18446744073709551616"
  shows "let s' = append_all es (write_at i e s) in
    inv s' \<and> first s' = first s \<and>
    entries s' = take (unat i - first s) (entries s) @ map view (e # es) \<and>
    unat (next_slot s') = unat i + 1 + length es"
proof -
  have w: "inv (write_at i e s)" "first (write_at i e s) = first s"
    "entries (write_at i e s) = take (unat i - first s) (entries s) @ [view e]"
    using write_at [OF assms(1-3), of e] assms(4) by auto
  then have len: "first s + length (entries (write_at i e s)) = unat i + 1" using assms(2,3) by simp
  then have a: "inv (append_all es (write_at i e s))" "first (append_all es (write_at i e s)) = first s"
    "entries (append_all es (write_at i e s)) = entries (write_at i e s) @ map view es"
    using append_all_entries [OF w(1), of es] w(2) assms(4) by auto
  then show ?thesis using next_slot [OF a(1)] w(3) len by (simp add: Let_def)
qed

text \<open>Compaction never moves the next slot backwards, and appending goes on from there.\<close>

lemma compact_next_slot:
  assumes "inv s" "unat i + 1 < 18446744073709551616"
  shows "\<exists>s'. compact i s = Some (True, s') \<and> inv s' \<and>
    unat (next_slot s') = max (unat (next_slot s)) (unat i + 1)"
proof -
  obtain s' where s': "compact i s = Some (True, s')" "inv s'" "first s' = max (first s) (unat i + 1)"
    "entries s' = drop (unat i + 1 - first s) (entries s)"
    using compact [OF assms] by blast
  then have "unat (next_slot s') = max (unat (next_slot s)) (unat i + 1)"
    using next_slot [OF s'(2)] next_slot [OF assms(1)] by auto
  with s' show ?thesis by blast
qed

end

end
