(* ===== verification/Inmem_Log_Store.thy ===== *)
theory Inmem_Log_Store
  imports Log_Store
begin

section \<open>\<open>inmem_log_store\<close>: the log store the server runs with\<close>

text \<open>
  \<open>src/server/in_memory_log_store.cpp\<close>: a \<open>std::map\<close> from log indexes to entries that always
  holds a dummy entry at index 0, the start index, and the state of the emulated disk. The build
  type is \<open>Release\<close>, so \<open>assert\<close> does nothing (\<open>CMakeLists.txt\<close>). Each call is taken as a whole here;
  some functions take the mutex several times, and \<open>Inmem_Steps\<close> shows when they can be taken so. The
  current time is an argument of the functions that read the clock.
\<close>

record ('e, 'ea) inmem_log_store =
  logs :: "(u64, 'e ptr) smap"
  start_idx :: u64
  raft_server_bwd_pointer :: "nat ptr"
  disk_emul_delay :: u64
  disk_emul_logs_being_written :: "(u64, u64) smap"
  disk_emul_thread :: bool
  disk_emul_thread_stop_signal :: bool
  disk_emul_ea :: 'ea
  disk_emul_last_durable_index :: u64

definition inmem_new :: "('b, 's, 'e, 'ea) nuraft \<Rightarrow> 'ea \<Rightarrow> ('e, 'ea) inmem_log_store" where
  "inmem_new N ea = \<lparr>logs = sm_put 0 (Some (log_entry_new N 0 (Some (buffer_alloc N 8)))) [],
     start_idx = 1, raft_server_bwd_pointer = None, disk_emul_delay = 0,
     disk_emul_logs_being_written = [], disk_emul_thread = False,
     disk_emul_thread_stop_signal = False, disk_emul_ea = ea, disk_emul_last_durable_index = 0\<rparr>"

text \<open>The destructor up to the join of the thread.\<close>

definition inmem_destroy :: "('b, 's, 'e, 'ea) nuraft \<Rightarrow> ('e, 'ea) inmem_log_store \<Rightarrow> ('e, 'ea) inmem_log_store" where
  "inmem_destroy N ls =
     (if disk_emul_thread ls
      then ls\<lparr>disk_emul_thread_stop_signal := True, disk_emul_ea := ea_invoke N (disk_emul_ea ls)\<rparr>
      else ls)"

definition make_clone :: "('b, 's, 'e, 'ea) nuraft \<Rightarrow> 'e \<Rightarrow> 'e" where
  "make_clone N e = log_entry_make N (get_term N e) (Some (buffer_clone N (get_buf N e)))
     (get_val_type N e) (get_timestamp N e) (has_crc32 N e) (get_crc32 N e) False"

definition inmem_next_slot :: "('e, 'ea) inmem_log_store \<Rightarrow> u64" where
  "inmem_next_slot ls = start_idx ls + word_of_nat (length (logs ls)) - 1"

definition inmem_start_index :: "('e, 'ea) inmem_log_store \<Rightarrow> u64" where
  "inmem_start_index ls = start_idx ls"

text \<open>\<open>logs_.find(i)\<close>, falling back to the dummy entry at 0; the entry it points to.\<close>

definition find_or_dummy :: "('e, 'ea) inmem_log_store \<Rightarrow> u64 \<Rightarrow> 'e res" where
  "find_or_dummy ls i =
     (case sm_find (logs ls) i of
        Some p \<Rightarrow> deref p
      | None \<Rightarrow> (case sm_find (logs ls) 0 of Some p \<Rightarrow> deref p | None \<Rightarrow> Inl Null_deref))"

definition inmem_last_entry :: "('b, 's, 'e, 'ea) nuraft \<Rightarrow> ('e, 'ea) inmem_log_store \<Rightarrow> 'e res" where
  "inmem_last_entry N ls =
     (let next_idx = inmem_next_slot ls in
      rbind (find_or_dummy ls (next_idx - 1)) (\<lambda>e. Inr (make_clone N e)))"

definition inmem_append :: "('b, 's, 'e, 'ea) nuraft \<Rightarrow> u64 \<Rightarrow> 'e \<Rightarrow> ('e, 'ea) inmem_log_store \<Rightarrow>
    u64 \<times> ('e, 'ea) inmem_log_store" where
  "inmem_append N cur_time entry ls =
     (let clone = make_clone N entry;
          idx = start_idx ls + word_of_nat (length (logs ls)) - 1;
          ls = ls\<lparr>logs := sm_put idx (Some clone) (logs ls)\<rparr>;
          ls = (if disk_emul_delay ls \<noteq> 0
                then ls\<lparr>disk_emul_logs_being_written :=
                          sm_put (cur_time + disk_emul_delay ls * 1000) idx (disk_emul_logs_being_written ls),
                        disk_emul_ea := ea_invoke N (disk_emul_ea ls)\<rparr>
                else ls)
      in (idx, ls))"

definition inmem_write_at :: "('b, 's, 'e, 'ea) nuraft \<Rightarrow> u64 \<Rightarrow> u64 \<Rightarrow> 'e \<Rightarrow> ('e, 'ea) inmem_log_store \<Rightarrow>
    ('e, 'ea) inmem_log_store" where
  "inmem_write_at N cur_time index new_entry ls =
     (let clone = make_clone N new_entry;
          ls = ls\<lparr>logs := sm_put index (Some clone) (sm_cut index (logs ls))\<rparr>
      in if disk_emul_delay ls \<noteq> 0
         then ls\<lparr>disk_emul_logs_being_written :=
                   filter (\<lambda>p. \<not> snd p > index)
                     (sm_put (cur_time + disk_emul_delay ls * 1000) index (disk_emul_logs_being_written ls)),
                 disk_emul_ea := ea_invoke N (disk_emul_ea ls)\<rparr>
         else ls)"

text \<open>\<open>std::vector<ptr<log_entry>>::max_size()\<close>: \<open>PTRDIFF_MAX / 16\<close>.\<close>

definition vector_ptr_max :: nat where
  "vector_ptr_max = 576460752303423487"

text \<open>
  The result vector is resized to \<open>end - start\<close> first (unsigned); the loop then fills it from
  the front. A missing index gives the dummy entry, since \<open>assert(0)\<close> is compiled out.
\<close>

definition inmem_log_entries :: "('b, 's, 'e, 'ea) nuraft \<Rightarrow> u64 \<Rightarrow> u64 \<Rightarrow> ('e, 'ea) inmem_log_store \<Rightarrow>
    'e ptr list res" where
  "inmem_log_entries N start end' ls =
     (let n = unat (end' - start) in
      if n > vector_ptr_max then Inl Length_error
      else rbind (rmap (\<lambda>ii. rbind (find_or_dummy ls ii) (\<lambda>src. Inr (make_clone N src))) (urange start end'))
             (\<lambda>es. Inr (map Some es @ replicate (n - length es) None)))"

text \<open>The loop of \<open>log_entries_ext\<close> over the remaining indexes, with the accumulated size.\<close>

fun ext_loop :: "('b, 's, 'e, 'ea) nuraft \<Rightarrow> ('e, 'ea) inmem_log_store \<Rightarrow> u64 \<Rightarrow> u64 \<Rightarrow> u64 list \<Rightarrow> 'e list res" where
  "ext_loop N ls hint accum_size [] = Inr []"
| "ext_loop N ls hint accum_size (ii # iis) =
     rbind (find_or_dummy ls ii) (\<lambda>src.
     let accum_size = accum_size + buffer_size N (get_buf N src) in
     if hint \<noteq> 0 \<and> accum_size \<ge> hint then Inr [make_clone N src]
     else rbind (ext_loop N ls hint accum_size iis) (\<lambda>ret. Inr (make_clone N src # ret)))"

definition inmem_log_entries_ext :: "('b, 's, 'e, 'ea) nuraft \<Rightarrow> u64 \<Rightarrow> u64 \<Rightarrow> u64 \<Rightarrow>
    ('e, 'ea) inmem_log_store \<Rightarrow> 'e list res" where
  "inmem_log_entries_ext N start end' batch_size_hint_in_bytes ls =
     (if sint batch_size_hint_in_bytes < 0 then Inr []
      else ext_loop N ls batch_size_hint_in_bytes 0 (urange start end'))"

definition inmem_entry_at :: "('b, 's, 'e, 'ea) nuraft \<Rightarrow> ('e, 'ea) inmem_log_store \<Rightarrow> u64 \<Rightarrow> 'e res" where
  "inmem_entry_at N ls index = rbind (find_or_dummy ls index) (\<lambda>src. Inr (make_clone N src))"

definition inmem_term_at :: "('b, 's, 'e, 'ea) nuraft \<Rightarrow> ('e, 'ea) inmem_log_store \<Rightarrow> u64 \<Rightarrow> u64 res" where
  "inmem_term_at N ls index = rbind (find_or_dummy ls index) (\<lambda>src. Inr (get_term N src))"

text \<open>
  The first loop of \<open>pack\<close>: \<open>logs_[ii]\<close> inserts a null pointer for a missing index, and the null
  pointer is then dereferenced (its \<open>assert\<close> is compiled out).
\<close>

fun pack_loop :: "('b, 's, 'e, 'ea) nuraft \<Rightarrow> u64 list \<Rightarrow> (('e, 'ea) inmem_log_store, 'b list) act" where
  "pack_loop N [] ls = (Inr [], ls)"
| "pack_loop N (ii # iis) ls =
     (case sm_find (logs ls) ii of
        None \<Rightarrow> (Inl Null_deref, ls\<lparr>logs := sm_put ii None (logs ls)\<rparr>)
      | Some None \<Rightarrow> (Inl Null_deref, ls)
      | Some (Some le) \<Rightarrow>
          abind (pack_loop N iis) (\<lambda>bufs ls. (Inr (le_serialize N le # bufs), ls)) ls)"

text \<open>The second loop: the size and the bytes of each serialized entry.\<close>

fun put_bufs :: "('b, 's, 'z) buffer_api_scheme \<Rightarrow> 'b list \<Rightarrow> 'b \<Rightarrow> 'b res" where
  "put_bufs N [] buf_out = Inr buf_out"
| "put_bufs N (bb # bufs) buf_out =
     rbind (put_int N buf_out (ucast (buffer_size N bb))) (\<lambda>buf_out.
     rbind (put_buffer N buf_out bb) (\<lambda>buf_out.
     put_bufs N bufs buf_out))"

definition inmem_pack :: "('b, 's, 'e, 'ea) nuraft \<Rightarrow> u64 \<Rightarrow> i32 \<Rightarrow> (('e, 'ea) inmem_log_store, 'b) act" where
  "inmem_pack N index cnt =
     abind (pack_loop N (urange index (index + scast cnt))) (\<lambda>bufs ls.
       let size_total = sum_list (map (buffer_size N) bufs);
           buf_out = set_pos0 N (buffer_alloc N (4 + scast cnt * 4 + size_total))
       in (rbind (put_int N buf_out cnt) (put_bufs N bufs), ls))"

text \<open>The loop of \<open>apply_pack\<close>: \<open>k\<close> logs are left, the next one goes to index \<open>cur_idx\<close>.\<close>

fun apply_pack_loop :: "('b, 's, 'e, 'ea) nuraft \<Rightarrow> nat \<Rightarrow> u64 \<Rightarrow> 'b \<Rightarrow> (('e, 'ea) inmem_log_store, unit) act" where
  "apply_pack_loop N 0 cur_idx pack ls = (Inr (), ls)"
| "apply_pack_loop N (Suc k) cur_idx pack ls =
     (case rbind (get_int N pack) (\<lambda>(buf_size, pack).
           rbind (get_buffer N pack (buffer_alloc N (scast buf_size))) (\<lambda>(buf_local, pack).
           rbind (le_deserialize N buf_local) (\<lambda>le. Inr (le, pack)))) of
        Inl e \<Rightarrow> (Inl e, ls)
      | Inr (le, pack) \<Rightarrow>
          apply_pack_loop N k (cur_idx + 1) pack (ls\<lparr>logs := sm_put cur_idx (Some le) (logs ls)\<rparr>))"

definition inmem_apply_pack :: "('b, 's, 'e, 'ea) nuraft \<Rightarrow> u64 \<Rightarrow> 'b \<Rightarrow> (('e, 'ea) inmem_log_store, unit) act" where
  "inmem_apply_pack N index pack ls =
     (case get_int N (set_pos0 N pack) of
        Inl e \<Rightarrow> (Inl e, ls)
      | Inr (num_logs, pack) \<Rightarrow>
          abind (apply_pack_loop N (nat (sint num_logs)) index pack) (\<lambda>_ ls.
            (Inr (), ls\<lparr>start_idx := (case sm_upper_bound 0 (logs ls) of
                                        Some p \<Rightarrow> fst p | None \<Rightarrow> 1)\<rparr>)) ls)"

text \<open>
  The loop of \<open>compact\<close>. Its guard is \<open>ii <= last_log_index\<close> on \<open>ulong\<close>, so with the largest
  index it would not end: the result is an \<open>option\<close>, \<open>None\<close> for a loop that does not return.
\<close>

partial_function (option) compact_loop :: "u64 \<Rightarrow> u64 \<Rightarrow> (u64, 'e ptr) smap \<Rightarrow> (u64, 'e ptr) smap option" where
  "compact_loop ii last_log_index m =
     (if ii \<le> last_log_index
      then compact_loop (ii + 1) last_log_index
             (case sm_find m ii of None \<Rightarrow> m | Some _ \<Rightarrow> sm_erase ii m)
      else Some m)"

definition inmem_compact :: "u64 \<Rightarrow> ('e, 'ea) inmem_log_store \<Rightarrow> (bool \<times> ('e, 'ea) inmem_log_store) option" where
  "inmem_compact last_log_index ls =
     (case compact_loop (start_idx ls) last_log_index (logs ls) of
        None \<Rightarrow> None
      | Some m \<Rightarrow>
          Some (True, ls\<lparr>logs := m, start_idx :=
            (if start_idx ls \<le> last_log_index then last_log_index + 1 else start_idx ls)\<rparr>))"

definition inmem_flush :: "('e, 'ea) inmem_log_store \<Rightarrow> bool \<times> ('e, 'ea) inmem_log_store" where
  "inmem_flush ls = (True, ls\<lparr>disk_emul_last_durable_index := inmem_next_slot ls - 1\<rparr>)"

definition inmem_close :: "('e, 'ea) inmem_log_store \<Rightarrow> ('e, 'ea) inmem_log_store" where
  "inmem_close ls = ls"

definition set_disk_delay :: "nat ptr \<Rightarrow> u64 \<Rightarrow> ('e, 'ea) inmem_log_store \<Rightarrow> ('e, 'ea) inmem_log_store" where
  "set_disk_delay raft delay_ms ls =
     (let ls = ls\<lparr>disk_emul_delay := delay_ms, raft_server_bwd_pointer := raft\<rparr>
      in if disk_emul_thread ls then ls else ls\<lparr>disk_emul_thread := True\<rparr>)"

definition last_durable_index :: "('e, 'ea) inmem_log_store \<Rightarrow> u64" where
  "last_durable_index ls =
     (let last_log = inmem_next_slot ls - 1
      in if disk_emul_delay ls = 0 then last_log else disk_emul_last_durable_index ls)"

text \<open>The writes that are due: the inner loop of the disk emulation thread.\<close>

fun durable_loop :: "u64 \<Rightarrow> (u64, u64) smap \<Rightarrow> u64 \<Rightarrow> bool \<Rightarrow> (u64, u64) smap \<times> u64 \<times> bool" where
  "durable_loop cur_time [] durable call = ([], durable, call)"
| "durable_loop cur_time ((t, idx) # w) durable call =
     (if t \<le> cur_time then durable_loop cur_time w idx True else ((t, idx) # w, durable, call))"

text \<open>
  One round of \<open>disk_emul_loop\<close> after the wait: the new state, whether the Raft server is
  notified, and the next sleep. The round does nothing once the stop signal is set.
\<close>

definition disk_emul_round :: "('b, 's, 'e, 'ea) nuraft \<Rightarrow> u64 \<Rightarrow>
    (('e, 'ea) inmem_log_store, (bool \<times> u64) option) act" where
  "disk_emul_round N cur_time ls =
     (let ls = ls\<lparr>disk_emul_ea := ea_reset N (disk_emul_ea ls)\<rparr> in
      if disk_emul_thread_stop_signal ls then (Inr None, ls)
      else
        (case durable_loop cur_time (disk_emul_logs_being_written ls) (disk_emul_last_durable_index ls) False of
           (w, durable, call_notification) \<Rightarrow>
             (let ls = ls\<lparr>disk_emul_logs_being_written := w, disk_emul_last_durable_index := durable\<rparr>;
                  next_sleep_us = (case w of [] \<Rightarrow> 100 * 1000 | (t, _) # _ \<Rightarrow> t - cur_time)
              in if call_notification \<and> raft_server_bwd_pointer ls = None then (Inl Null_deref, ls)
                 else (Inr (Some (call_notification, next_sleep_us)), ls))))"

subsection \<open>The invariant\<close>

text \<open>
  The map holds the dummy at index 0 and one entry for every index from the start index up to the
  next slot, and no null pointer. The next slot, which the code computes from the map's size, is
  the end of that range.
\<close>

definition inmem_inv :: "('e, 'ea) inmem_log_store \<Rightarrow> bool" where
  "inmem_inv ls \<longleftrightarrow>
     sm_ok (logs ls) \<and> 0 < start_idx ls \<and> start_idx ls \<le> inmem_next_slot ls \<and>
     dom (sm_find (logs ls)) = insert 0 {start_idx ls ..< inmem_next_slot ls} \<and>
     (\<forall>i. sm_find (logs ls) i \<noteq> Some None)"

text \<open>What the store holds at an index, as the entry's accessors show it.\<close>

definition inmem_view :: "('b, 's, 'e, 'ea) nuraft \<Rightarrow> ('e, 'ea) inmem_log_store \<Rightarrow> u64 \<Rightarrow> entry_view" where
  "inmem_view N ls i = le_view N (the (the (sm_find (logs ls) i)))"

text \<open>The log: the entries from the start index to the next slot.\<close>

definition inmem_entries :: "('b, 's, 'e, 'ea) nuraft \<Rightarrow> ('e, 'ea) inmem_log_store \<Rightarrow> entry_view list" where
  "inmem_entries N ls = map (inmem_view N ls) (urange (start_idx ls) (inmem_next_slot ls))"

lemma inmem_invI:
  assumes "sm_ok (logs ls)" "0 < start_idx ls" "start_idx ls \<le> b"
    and "dom (sm_find (logs ls)) = insert 0 {start_idx ls ..< b}" "\<And>i. sm_find (logs ls) i \<noteq> Some None"
  shows "inmem_inv ls \<and> inmem_next_slot ls = b"
proof -
  have "length (logs ls) = card (insert 0 {start_idx ls ..< b})"
    using sm_size [OF assms(1)] assms(4) by simp
  also have "\<dots> = Suc (unat b - unat (start_idx ls))"
    using assms(2) by (subst card_insert_disjoint) (auto simp: card_u64_range)
  finally have "inmem_next_slot ls = start_idx ls + word_of_nat (unat b - unat (start_idx ls))"
    by (simp add: inmem_next_slot_def)
  also have "\<dots> = b" using assms(3) by (simp add: u64_le_iff of_nat_diff)
  finally show ?thesis using assms by (simp add: inmem_inv_def)
qed

lemma inmem_inv_find:
  assumes "inmem_inv ls" "start_idx ls \<le> i" "i < inmem_next_slot ls"
  shows "\<exists>e. sm_find (logs ls) i = Some (Some e)"
proof -
  have "i \<in> dom (sm_find (logs ls))" using assms by (simp add: inmem_inv_def)
  then obtain p where "sm_find (logs ls) i = Some p" by blast
  then show ?thesis using assms(1) by (cases p) (auto simp: inmem_inv_def)
qed

lemma find_or_dummy_in:
  assumes "inmem_inv ls" "start_idx ls \<le> i" "i < inmem_next_slot ls"
  shows "find_or_dummy ls i = Inr (the (the (sm_find (logs ls) i)))"
  using inmem_inv_find [OF assms] by (auto simp: find_or_dummy_def)

lemma find_or_dummy_out:
  assumes "inmem_inv ls" "i < start_idx ls \<or> inmem_next_slot ls \<le> i"
  shows "\<exists>e. sm_find (logs ls) 0 = Some (Some e) \<and> find_or_dummy ls i = Inr e"
proof -
  have "0 \<in> dom (sm_find (logs ls))" using assms(1) by (simp add: inmem_inv_def)
  then obtain p where "sm_find (logs ls) 0 = Some p" by blast
  moreover from this obtain e where "p = Some e" using assms(1) by (cases p) (auto simp: inmem_inv_def)
  ultimately have e: "sm_find (logs ls) 0 = Some (Some e)" by simp
  have "i \<notin> dom (sm_find (logs ls))" if "i \<noteq> 0" using assms that by (auto simp: inmem_inv_def)
  then have "sm_find (logs ls) i = None" if "i \<noteq> 0" using that by (simp add: domIff)
  then show ?thesis using e by (cases "i = 0") (simp_all add: find_or_dummy_def)
qed

lemma view_make_clone:
  assumes "buffer_laws N e64 e32" "log_entry_laws N"
  shows "le_view N (make_clone N e) = le_view N e"
  using assms by (simp add: make_clone_def le_view_def log_entry_laws_def Let_def data_begin_clone)

lemma inmem_new_inv: "inmem_inv (inmem_new N ea) \<and> inmem_next_slot (inmem_new N ea) = 1"
  by (rule inmem_invI) (auto simp: inmem_new_def sm_ok_def split: if_splits)

lemma inmem_next_slot_cong:
  "logs ls = logs ls' \<Longrightarrow> start_idx ls = start_idx ls' \<Longrightarrow> inmem_next_slot ls = inmem_next_slot ls'"
  by (simp add: inmem_next_slot_def)

lemma inmem_inv_cong:
  "logs ls = logs ls' \<Longrightarrow> start_idx ls = start_idx ls' \<Longrightarrow> inmem_inv ls = inmem_inv ls'"
  by (simp add: inmem_inv_def inmem_next_slot_def)

subsection \<open>Appending and overwriting\<close>

lemma inmem_append_logs:
  "inmem_append N t e ls = (i, ls') \<Longrightarrow>
   i = inmem_next_slot ls \<and> logs ls' = sm_put i (Some (make_clone N e)) (logs ls) \<and> start_idx ls' = start_idx ls"
  by (auto simp: inmem_append_def inmem_next_slot_def Let_def split: if_splits)

lemma inmem_write_at_logs:
  "logs (inmem_write_at N t i e ls) = sm_put i (Some (make_clone N e)) (sm_cut i (logs ls))"
  "start_idx (inmem_write_at N t i e ls) = start_idx ls"
  by (simp_all add: inmem_write_at_def Let_def)

text \<open>Both put a copy of the entry at an index and drop what is behind it.\<close>

lemma put_at_end:
  assumes inv: "inmem_inv ls" and i: "start_idx ls \<le> i" "i \<le> inmem_next_slot ls" "unat i + 1 < 18446744073709551616"
    and ls': "logs ls' = sm_put i (Some c) (sm_cut i (logs ls))" "start_idx ls' = start_idx ls"
  shows "inmem_inv ls'" "inmem_next_slot ls' = i + 1"
    and "inmem_entries N ls' = take (unat i - unat (start_idx ls)) (inmem_entries N ls) @ [le_view N c]"
proof -
  have ok: "sm_ok (logs ls)" using inv by (simp add: inmem_inv_def)
  have find: "sm_find (logs ls') = (sm_find (logs ls) |` {..< i})(i \<mapsto> Some c)" using ok by (simp add: ls')
  have "dom (sm_find (logs ls')) = insert i (insert 0 {start_idx ls ..< inmem_next_slot ls} \<inter> {..< i})"
    using inv by (simp add: find inmem_inv_def)
  also have "\<dots> = insert 0 (insert i {start_idx ls ..< i})"
    using i inv by (auto simp: inmem_inv_def)
  also have "\<dots> = insert 0 {start_idx ls' ..< i + 1}" using u64_range_Suc [OF i(1,3)] by (simp add: ls')
  finally have d: "dom (sm_find (logs ls')) = insert 0 {start_idx ls' ..< i + 1}" .
  have le: "start_idx ls' \<le> i + 1" using i(1,3) unat_Suc_64 [of i] by (simp add: ls' u64_le_iff)
  have nn: "sm_find (logs ls') j \<noteq> Some None" for j
    using inv by (auto simp: find inmem_inv_def restrict_map_def split: if_splits)
  have ok': "sm_ok (logs ls')" using ok by (simp add: ls')
  have pos': "0 < start_idx ls'" using inv by (simp only: ls' inmem_inv_def)
  show inv': "inmem_inv ls'" and next': "inmem_next_slot ls' = i + 1"
    using inmem_invI [OF ok' pos' le d nn] by blast+
  have same: "inmem_view N ls' j = inmem_view N ls j" if "j < i" for j
    using that by (simp add: inmem_view_def find)
  have "inmem_entries N ls' = map (inmem_view N ls') (urange (start_idx ls) i @ [i])"
    using urange_snoc [OF i(1,3)] by (simp add: inmem_entries_def next' ls'(2))
  also have "\<dots> = map (inmem_view N ls) (urange (start_idx ls) i) @ [le_view N c]"
    using same by (simp add: find inmem_view_def)
  also have "urange (start_idx ls) i = take (unat i - unat (start_idx ls)) (urange (start_idx ls) (inmem_next_slot ls))"
    by (rule take_urange [OF i(1,2), symmetric])
  finally show "inmem_entries N ls' = take (unat i - unat (start_idx ls)) (inmem_entries N ls) @ [le_view N c]"
    by (simp add: inmem_entries_def take_map)
qed

lemma length_inmem_entries: "length (inmem_entries N ls) = unat (inmem_next_slot ls) - unat (start_idx ls)"
  by (simp add: inmem_entries_def)

lemma inmem_next_slot_entries:
  "inmem_inv ls \<Longrightarrow> unat (inmem_next_slot ls) = unat (start_idx ls) + length (inmem_entries N ls)"
  by (simp add: length_inmem_entries inmem_inv_def u64_le_iff)

lemma cut_at_end: "inmem_inv ls \<Longrightarrow> sm_cut (inmem_next_slot ls) (logs ls) = logs ls"
proof -
  assume inv: "inmem_inv ls"
  then have ok: "sm_ok (logs ls)" by (simp add: inmem_inv_def)
  have "fst ` set (logs ls) \<subseteq> {..< inmem_next_slot ls}"
    using inv by (auto simp: inmem_inv_def simp flip: dom_sm_find)
  then show ?thesis unfolding sm_cut_filter [OF ok] by (auto simp: filter_id_conv)
qed

lemma inmem_append_spec:
  assumes "inmem_inv ls" "unat (inmem_next_slot ls) + 1 < 18446744073709551616" "inmem_append N t e ls = (i, ls')"
  shows "i = inmem_next_slot ls" "inmem_inv ls'" "start_idx ls' = start_idx ls"
    "inmem_entries N ls' = inmem_entries N ls @ [le_view N (make_clone N e)]"
proof -
  have a: "i = inmem_next_slot ls" "logs ls' = sm_put i (Some (make_clone N e)) (logs ls)" "start_idx ls' = start_idx ls"
    using inmem_append_logs [OF assms(3)] by auto
  have cut: "logs ls' = sm_put i (Some (make_clone N e)) (sm_cut i (logs ls))"
    using a(2) by (simp add: a(1) cut_at_end [OF assms(1)])
  have le: "start_idx ls \<le> i" "i \<le> inmem_next_slot ls" "unat i + 1 < 18446744073709551616"
    using assms(1,2) by (simp_all add: a(1) inmem_inv_def)
  note put = put_at_end [OF assms(1) le cut a(3)]
  show "i = inmem_next_slot ls" "start_idx ls' = start_idx ls" by (fact a)+
  show "inmem_inv ls'" by (rule put)
  show "inmem_entries N ls' = inmem_entries N ls @ [le_view N (make_clone N e)]"
    using put(3) by (simp add: a(1) length_inmem_entries)
qed

lemma inmem_write_at_spec:
  assumes "inmem_inv ls" "start_idx ls \<le> i" "i \<le> inmem_next_slot ls" "unat i + 1 < 18446744073709551616"
  shows "inmem_inv (inmem_write_at N t i e ls)" "start_idx (inmem_write_at N t i e ls) = start_idx ls"
    "inmem_entries N (inmem_write_at N t i e ls) =
       take (unat i - unat (start_idx ls)) (inmem_entries N ls) @ [le_view N (make_clone N e)]"
  using put_at_end [OF assms inmem_write_at_logs] by (simp_all add: inmem_write_at_logs)

lemma inmem_entry_at_spec:
  assumes "inmem_inv ls" "start_idx ls \<le> i" "i < inmem_next_slot ls"
  shows "inmem_entry_at N ls i = Inr (make_clone N (the (the (sm_find (logs ls) i))))"
    and "inmem_entries N ls ! (unat i - unat (start_idx ls)) = inmem_view N ls i"
proof -
  show "inmem_entry_at N ls i = Inr (make_clone N (the (the (sm_find (logs ls) i))))"
    using find_or_dummy_in [OF assms] by (simp add: inmem_entry_at_def)
  have "unat i - unat (start_idx ls) < unat (inmem_next_slot ls) - unat (start_idx ls)"
    using assms(2,3) unfolding u64_le_iff u64_less_iff by linarith
  then show "inmem_entries N ls ! (unat i - unat (start_idx ls)) = inmem_view N ls i"
    using assms(2) by (simp add: inmem_entries_def nth_urange u64_le_iff of_nat_diff)
qed

subsection \<open>Compaction\<close>

lemma sm_erase_absent: "sm_find m k = None \<Longrightarrow> sm_erase k m = m"
proof -
  assume "sm_find m k = None"
  then have "k \<notin> fst ` set m" by (simp flip: dom_sm_find add: domIff)
  then show ?thesis by (force simp: sm_erase_def filter_id_conv)
qed

lemma compact_loop_erases:
  assumes "unat last_log_index + 1 < 18446744073709551616"
  shows "compact_loop ii last_log_index m = Some (fold sm_erase (urange ii (last_log_index + 1)) m)"
proof (induction "unat last_log_index + 1 - unat ii" arbitrary: ii m)
  case 0
  then have "\<not> ii \<le> last_log_index" "last_log_index + 1 \<le> ii"
    using unat_Suc_64 [OF assms] by (auto simp: u64_le_iff)
  then show ?case by (subst compact_loop.simps) simp
next
  case (Suc n)
  then have le: "ii \<le> last_log_index" by (simp add: u64_le_iff)
  then have "unat (ii + 1) = unat ii + 1" using assms by (intro unat_Suc_64) (simp add: u64_le_iff)
  moreover have "ii < last_log_index + 1"
    using le unat_Suc_64 [OF assms] by (simp add: u64_le_iff u64_less_iff)
  moreover have "(case sm_find m ii of None \<Rightarrow> m | Some _ \<Rightarrow> sm_erase ii m) = sm_erase ii m"
    by (simp add: sm_erase_absent split: option.split)
  ultimately show ?case using le Suc by (subst compact_loop.simps) (simp add: urange_step)
qed

lemma inmem_compact_spec:
  assumes inv: "inmem_inv ls" and i: "unat i + 1 < 18446744073709551616"
  shows "\<exists>ls'. inmem_compact i ls = Some (True, ls') \<and> inmem_inv ls' \<and>
    start_idx ls' = (if start_idx ls \<le> i then i + 1 else start_idx ls) \<and>
    inmem_next_slot ls' = max (inmem_next_slot ls) (start_idx ls') \<and>
    (\<forall>j \<ge> start_idx ls'. sm_find (logs ls') j = sm_find (logs ls) j)"
proof -
  define m where "m = fold sm_erase (urange (start_idx ls) (i + 1)) (logs ls)"
  define a where "a = (if start_idx ls \<le> i then i + 1 else start_idx ls)"
  define ls' where "ls' = ls\<lparr>logs := m, start_idx := a\<rparr>"
  have ok: "sm_ok (logs ls)" "0 < start_idx ls" "start_idx ls \<le> inmem_next_slot ls"
    and dom: "dom (sm_find (logs ls)) = insert 0 {start_idx ls ..< inmem_next_slot ls}"
    and nn: "\<And>j. sm_find (logs ls) j \<noteq> Some None"
    using inv by (simp_all add: inmem_inv_def)
  have c: "inmem_compact i ls = Some (True, ls')"
    by (simp add: inmem_compact_def compact_loop_erases [OF i] m_def a_def ls'_def)
  have find: "sm_find m = sm_find (logs ls) |` (- {start_idx ls ..< i + 1})"
    using std_map.look_erases [OF ok(1)] by (simp add: m_def)
  have Suc: "unat (i + 1) = unat i + 1" by (rule unat_Suc_64 [OF i])
  have pos: "0 < a" using ok(2) by (auto simp: a_def Suc u64_less_iff u64_le_iff)
  have "dom (sm_find m) = insert 0 {a ..< max (inmem_next_slot ls) a}"
    using ok(2,3) by (auto simp: find dom a_def max_def Suc u64_less_iff u64_le_iff)
  moreover have "sm_find m j \<noteq> Some None" for j using nn by (simp add: find restrict_map_def)
  ultimately have "inmem_inv ls' \<and> inmem_next_slot ls' = max (inmem_next_slot ls) a"
    using pos std_map.ok_erases [OF ok(1)] by (intro inmem_invI) (simp_all add: ls'_def m_def)
  moreover have "sm_find m j = sm_find (logs ls) j" if "a \<le> j" for j
    using that by (auto simp: find a_def restrict_map_def Suc u64_less_iff u64_le_iff split: if_splits)
  ultimately show ?thesis using c by (simp add: ls'_def a_def)
qed

lemma inmem_compact_entries:
  assumes "inmem_inv ls" "unat i + 1 < 18446744073709551616"
  shows "\<exists>ls'. inmem_compact i ls = Some (True, ls') \<and> inmem_inv ls' \<and>
    unat (start_idx ls') = max (unat (start_idx ls)) (unat i + 1) \<and>
    inmem_entries N ls' = drop (unat i + 1 - unat (start_idx ls)) (inmem_entries N ls)"
proof -
  obtain ls' where ls': "inmem_compact i ls = Some (True, ls')" "inmem_inv ls'"
    "start_idx ls' = (if start_idx ls \<le> i then i + 1 else start_idx ls)"
    "inmem_next_slot ls' = max (inmem_next_slot ls) (start_idx ls')"
    "\<forall>j \<ge> start_idx ls'. sm_find (logs ls') j = sm_find (logs ls) j"
    using inmem_compact_spec [OF assms] by blast
  have Suc: "unat (i + 1) = unat i + 1" by (rule unat_Suc_64 [OF assms(2)])
  have start: "unat (start_idx ls') = max (unat (start_idx ls)) (unat i + 1)"
    by (simp add: ls'(3) Suc u64_le_iff)
  then have ge: "start_idx ls \<le> start_idx ls'" by (simp add: u64_le_iff)
  have r: "urange (start_idx ls') (inmem_next_slot ls') = urange (start_idx ls') (inmem_next_slot ls)"
    by (cases "inmem_next_slot ls \<le> start_idx ls'") (simp_all add: ls'(4) max_def)
  have "inmem_entries N ls' = map (inmem_view N ls) (urange (start_idx ls') (inmem_next_slot ls))"
    unfolding inmem_entries_def r using ls'(5) by (intro map_cong) (simp_all add: inmem_view_def)
  also have "urange (start_idx ls') (inmem_next_slot ls) =
      drop (unat (start_idx ls') - unat (start_idx ls)) (urange (start_idx ls) (inmem_next_slot ls))"
    by (rule drop_urange [OF ge, symmetric])
  also have "unat (start_idx ls') - unat (start_idx ls) = unat i + 1 - unat (start_idx ls)" using start by simp
  finally show ?thesis using ls' start by (auto simp: inmem_entries_def drop_map)
qed

subsection \<open>The store implements the log store contract\<close>

interpretation inmem: log_store
  "\<lambda>ls. inmem_inv ls \<and> buffer_laws N e64 e32 \<and> log_entry_laws N" "inmem_entries N" "\<lambda>ls. unat (start_idx ls)"
  "le_view N" inmem_next_slot "inmem_append N t" "inmem_write_at N t" "inmem_entry_at N" inmem_compact
  for N :: "('b, 's, 'e, 'ea) nuraft" and e64 e32 t
proof (unfold_locales, goal_cases)
  case (1 ls)
  then show ?case by (simp add: inmem_inv_def unat_gt_0 Suc_le_eq word_neq_0_conv)
next
  case (2 ls)
  then show ?case by (simp add: inmem_next_slot_entries)
next
  case (3 ls e)
  obtain i ls' where a: "inmem_append N t e ls = (i, ls')" by force
  have "unat (inmem_next_slot ls) + 1 < 18446744073709551616"
    using 3 inmem_next_slot_entries [of ls N] by simp
  from inmem_append_spec [OF _ this a] 3 show ?case by (auto simp: a view_make_clone)
next
  case (4 ls i e)
  then have "start_idx ls \<le> i" "i \<le> inmem_next_slot ls"
    using inmem_next_slot_entries [of ls N] by (simp_all add: u64_le_iff)
  from inmem_write_at_spec [OF _ this, of N t e] 4 show ?case by (simp add: view_make_clone [of N e64 e32])
next
  case (5 ls i)
  then have "start_idx ls \<le> i" "i < inmem_next_slot ls"
    using inmem_next_slot_entries [of ls N] by (simp_all add: u64_le_iff u64_less_iff)
  from inmem_entry_at_spec [OF _ this, of N] 5 show ?case by (auto simp: view_make_clone inmem_view_def)
next
  case (6 ls i)
  then show ?case using inmem_compact_entries [of ls i N] by auto
qed

subsection \<open>Packing and unpacking\<close>

lemma put_within:
  assumes inv: "inmem_inv ls" and i: "start_idx ls \<le> i" "i \<le> inmem_next_slot ls" "unat i + 1 < 18446744073709551616"
    and ls': "logs ls' = sm_put i (Some c) (logs ls)" "start_idx ls' = start_idx ls"
  shows "inmem_inv ls'" "inmem_next_slot ls' = max (inmem_next_slot ls) (i + 1)"
    and "inmem_entries N ls' = take (unat i - unat (start_idx ls)) (inmem_entries N ls) @ le_view N c #
      drop (Suc (unat i - unat (start_idx ls))) (inmem_entries N ls)"
proof -
  let ?b = "max (inmem_next_slot ls) (i + 1)"
  have ok: "sm_ok (logs ls')" "0 < start_idx ls'" using inv by (simp_all add: inmem_inv_def ls')
  have find: "sm_find (logs ls') = (sm_find (logs ls))(i \<mapsto> Some c)" by (simp add: ls')
  have Suc: "unat (i + 1) = unat i + 1" by (rule unat_Suc_64 [OF i(3)])
  have le: "start_idx ls' \<le> ?b" using inv by (simp add: ls' inmem_inv_def le_max_iff_disj)
  have "dom (sm_find (logs ls')) = insert 0 (insert i {start_idx ls ..< inmem_next_slot ls})"
    using inv by (auto simp: find inmem_inv_def)
  also have "insert i {start_idx ls ..< inmem_next_slot ls} = {start_idx ls' ..< ?b}"
    using i(1,2) by (auto simp: ls' max_def Suc u64_le_iff u64_less_iff u64_eq_iff)
  finally have d: "dom (sm_find (logs ls')) = insert 0 {start_idx ls' ..< ?b}" .
  have nn: "sm_find (logs ls') j \<noteq> Some None" for j
    using inv by (simp add: find inmem_inv_def)
  show "inmem_inv ls'" and next': "inmem_next_slot ls' = ?b"
    using inmem_invI [OF ok le d nn] by blast+
  have lt: "i < ?b" using Suc by (subst less_max_iff_disj) (simp add: u64_less_iff)
  have r: "urange (i + 1) ?b = urange (i + 1) (inmem_next_slot ls)"
    by (cases "inmem_next_slot ls \<le> i + 1") (simp_all add: max_def)
  have same: "inmem_view N ls' j = inmem_view N ls j" if "j \<noteq> i" for j
    using that by (simp add: inmem_view_def find)
  have d': "drop (Suc (unat i - unat (start_idx ls))) (urange (start_idx ls) (inmem_next_slot ls)) =
      urange (i + 1) (inmem_next_slot ls)"
    using drop_urange [of "start_idx ls" "i + 1" "inmem_next_slot ls"] i(1) Suc
    by (simp add: u64_le_iff Suc_diff_le)
  have "inmem_entries N ls' = map (inmem_view N ls') (urange (start_idx ls) i) @ inmem_view N ls' i #
      map (inmem_view N ls') (urange (i + 1) (inmem_next_slot ls))"
    unfolding inmem_entries_def next' ls'(2) using urange_split [OF i(1) lt] r by simp
  also have "map (inmem_view N ls') (urange (start_idx ls) i) = map (inmem_view N ls) (urange (start_idx ls) i)"
    using same by auto
  also have "map (inmem_view N ls') (urange (i + 1) (inmem_next_slot ls)) =
      map (inmem_view N ls) (urange (i + 1) (inmem_next_slot ls))"
    by (rule map_cong [OF refl], rule same) (use Suc in \<open>auto simp: u64_le_iff\<close>)
  also have "inmem_view N ls' i = le_view N c" by (simp add: inmem_view_def find)
  finally show "inmem_entries N ls' = take (unat i - unat (start_idx ls)) (inmem_entries N ls) @ le_view N c #
      drop (Suc (unat i - unat (start_idx ls))) (inmem_entries N ls)"
    by (simp add: inmem_entries_def take_map drop_map take_urange [OF i(1,2)] d')
qed

text \<open>The bytes of packed entries.\<close>

definition pack_wire :: "('b, 's, 'e, 'ea) nuraft \<Rightarrow> (i32 \<Rightarrow> byte list) \<Rightarrow> 'e list \<Rightarrow> byte list" where
  "pack_wire N e32 es = concat (map (\<lambda>e. e32 (ucast (buffer_size N (le_serialize N e))) @
     data_begin N (le_serialize N e)) es)"

text \<open>Every serialized entry is smaller than 2 GiB, so that its size fits an \<open>int32\<close>.\<close>

definition packable :: "('b, 's, 'e, 'ea) nuraft \<Rightarrow> 'e \<Rightarrow> bool" where
  "packable N e \<longleftrightarrow> length (data_begin N (le_serialize N e)) < 2147483648"

lemma put_bufs_wire:
  assumes "buffer_laws N e64 e32" "buf_wrote N b xs (length (pack_wire N e32 es))"
  shows "\<exists>b'. put_bufs N (map (le_serialize N) es) b = Inr b' \<and> buf_wrote N b' (xs @ pack_wire N e32 es) 0"
  using assms(2)
proof (induction es arbitrary: b xs)
  case (Cons e es)
  let ?d = "data_begin N (le_serialize N e)"
  have "buf_wrote N b xs (4 + (length ?d + length (pack_wire N e32 es)))"
    using Cons.prems length_e32 [OF assms(1)] by (simp add: pack_wire_def add.assoc)
  from buf_put_int [OF assms(1) this, of "ucast (buffer_size N (le_serialize N e))"] obtain b1 where b1:
    "put_int N b (ucast (buffer_size N (le_serialize N e))) = Inr b1"
    "buf_wrote N b1 (xs @ e32 (ucast (buffer_size N (le_serialize N e)))) (length ?d + length (pack_wire N e32 es))"
    by blast
  from buf_put_buffer [OF assms(1) b1(2)] obtain b2 where b2: "put_buffer N b1 (le_serialize N e) = Inr b2"
    "buf_wrote N b2 ((xs @ e32 (ucast (buffer_size N (le_serialize N e)))) @ ?d) (length (pack_wire N e32 es))"
    by blast
  from Cons.IH [OF b2(2)] b1 b2 show ?case by (auto simp: pack_wire_def)
qed (auto simp: pack_wire_def)

lemma scast_ucast_small: "unat (w :: u64) < 2147483648 \<Longrightarrow> scast (ucast w :: i32) = w"
proof -
  assume "unat w < 2147483648"
  then have "\<not> bit w n" if "31 \<le> n" for n
  proof -
    have "unat w < 2 ^ n" using \<open>unat w < 2147483648\<close> power_increasing [OF that, of "2 :: nat"] by simp
    then have "take_bit n (unat w) = unat w" by (simp add: take_bit_nat_eq_self_iff)
    then have "\<not> bit (unat w) n" by (metis bit_take_bit_iff less_irrefl)
    then show ?thesis by (simp add: bit_unsigned_iff)
  qed
  then show ?thesis by (intro bit_word_eqI) (auto simp: bit_simps min_def)
qed

lemma apply_pack_loop_wire:
  assumes laws: "buffer_laws N e64 e32" "log_entry_laws N"
  shows "buf_unread N pack (pack_wire N e32 es) \<Longrightarrow> list_all (packable N) es \<Longrightarrow>
    inmem_inv ls \<Longrightarrow> start_idx ls \<le> i \<Longrightarrow> i \<le> inmem_next_slot ls \<Longrightarrow>
    unat i + length es < 18446744073709551616 \<Longrightarrow>
    \<exists>ls'. apply_pack_loop N (length es) i pack ls = (Inr (), ls') \<and> inmem_inv ls' \<and> start_idx ls' = start_idx ls \<and>
      map le_core (inmem_entries N ls') = take (unat i - unat (start_idx ls)) (map le_core (inmem_entries N ls)) @
        map (le_core \<circ> le_view N) es @ drop (unat i - unat (start_idx ls) + length es) (map le_core (inmem_entries N ls))"
proof (induction es arbitrary: pack ls i)
  case Nil
  then show ?case by auto
next
  case (Cons e es)
  let ?b = "le_serialize N e"
  let ?k = "unat i - unat (start_idx ls)"
  have small: "length (data_begin N ?b) < 2147483648" using Cons.prems(2) by (simp add: packable_def)
  then have size: "unat (buffer_size N ?b) = length (data_begin N ?b)"
    using laws(1) by (simp add: buffer_size_data unat_of_nat_64)
  have "buf_unread N pack (e32 (ucast (buffer_size N ?b)) @ (data_begin N ?b @ pack_wire N e32 es))"
    using Cons.prems(1) by (simp add: pack_wire_def)
  from buf_get_int [OF laws(1) this] obtain p1 where p1: "get_int N pack = Inr (ucast (buffer_size N ?b), p1)"
    "buf_unread N p1 (data_begin N ?b @ pack_wire N e32 es)" by blast
  have "unat (scast (ucast (buffer_size N ?b) :: i32) :: u64) = length (data_begin N ?b)"
    using small size by (simp add: scast_ucast_small)
  from buf_get_buffer [OF laws(1) p1(2) this] obtain d p2 where p2:
    "get_buffer N p1 (buffer_alloc N (scast (ucast (buffer_size N ?b) :: i32))) = Inr (d, p2)"
    "data_begin N d = data_begin N ?b" "buffer_pos N d = 0" "buf_unread N p2 (pack_wire N e32 es)" by blast
  from laws(2) p2(2,3) obtain e' where e': "le_deserialize N d = Inr e'" "le_core (le_view N e') = le_core (le_view N e)"
    unfolding log_entry_laws_def by blast
  define ls1 where "ls1 = ls\<lparr>logs := sm_put i (Some e') (logs ls)\<rparr>"
  have *: "apply_pack_loop N (length (e # es)) i pack ls = apply_pack_loop N (length es) (i + 1) p2 ls1"
    using p1(1) p2(1) e'(1) by (simp add: ls1_def)
  have i1: "unat i + 1 < 18446744073709551616" using Cons.prems(6) by simp
  have Suc: "unat (i + 1) = Suc (unat i)" using unat_Suc_64 [OF i1] by simp
  have start1: "start_idx ls1 = start_idx ls" by (simp add: ls1_def)
  have k: "?k \<le> length (inmem_entries N ls)" "unat (i + 1) - unat (start_idx ls1) = Suc ?k"
    using Cons.prems(4,5) Suc start1 by (simp_all add: length_inmem_entries u64_le_iff Suc_diff_le diff_le_mono)
  note put = put_within [OF Cons.prems(3-5) i1, of ls1 e', unfolded ls1_def, simplified, folded ls1_def]
  have le: "start_idx ls1 \<le> i + 1" "i + 1 \<le> inmem_next_slot ls1"
  proof -
    show "start_idx ls1 \<le> i + 1" using Cons.prems(4) Suc by (simp add: start1 u64_le_iff)
    show "i + 1 \<le> inmem_next_slot ls1" unfolding put(2) by (rule max.cobounded2)
  qed
  have n: "unat (i + 1) + length es < 18446744073709551616" using Cons.prems(6) Suc by simp
  have es: "list_all (packable N) es" using Cons.prems(2) by simp
  obtain ls' where ls': "apply_pack_loop N (length es) (i + 1) p2 ls1 = (Inr (), ls')" "inmem_inv ls'"
    "start_idx ls' = start_idx ls1" "map le_core (inmem_entries N ls') = take (Suc ?k) (map le_core (inmem_entries N ls1)) @
        map (le_core \<circ> le_view N) es @ drop (Suc ?k + length es) (map le_core (inmem_entries N ls1))"
    using Cons.IH [OF p2(4) es put(1) le n] unfolding k(2) by blast
  have "map le_core (inmem_entries N ls1) = take ?k (map le_core (inmem_entries N ls)) @ le_core (le_view N e) #
      drop (Suc ?k) (map le_core (inmem_entries N ls))"
    using put(3) [of N] e'(2) by (simp add: take_map drop_map)
  moreover have "length (take ?k (map le_core (inmem_entries N ls))) = ?k" using k(1) by simp
  ultimately show ?case using ls' * start1 by (auto simp: add.commute)
qed

lemma scast_count: "n < 2147483648 \<Longrightarrow> scast (word_of_nat n :: i32) = (word_of_nat n :: u64)"
  using scast_ucast_small [of "word_of_nat n"]
  by (simp add: unat_of_nat_64 unsigned_of_nat take_bit_nat_eq_self)

lemma sint_count: "n < 2147483648 \<Longrightarrow> sint (word_of_nat n :: i32) = int n"
  by (simp add: signed_of_nat signed_take_bit_int_eq_self)

lemma pack_loop_entries:
  "inmem_inv ls \<Longrightarrow> set is \<subseteq> {start_idx ls ..< inmem_next_slot ls} \<Longrightarrow>
   pack_loop N is ls = (Inr (map (\<lambda>i. le_serialize N (the (the (sm_find (logs ls) i)))) is), ls)"
proof (induction "is")
  case (Cons i "is")
  then obtain e where "sm_find (logs ls) i = Some (Some e)" using inmem_inv_find [of ls i] by auto
  then show ?case using Cons by simp
qed simp

lemma length_pack_wire:
  "buffer_laws N e64 e32 \<Longrightarrow>
   length (pack_wire N e32 es) = 4 * length es + sum_list (map (\<lambda>e. length (data_begin N (le_serialize N e))) es)"
  by (induction es) (simp_all add: pack_wire_def length_e32)

lemma pack_wire_bound:
  "list_all (packable N) es \<Longrightarrow>
   sum_list (map (\<lambda>e. length (data_begin N (le_serialize N e))) es) \<le> 2147483648 * length es"
  by (induction es) (auto simp: packable_def)

text \<open>The stored entries with the indexes of a list.\<close>

definition stored :: "('e, 'ea) inmem_log_store \<Rightarrow> u64 list \<Rightarrow> 'e list" where
  "stored ls is = map (\<lambda>i. the (the (sm_find (logs ls) i))) is"

lemma inmem_pack_wire:
  assumes laws: "buffer_laws N e64 e32" and inv: "inmem_inv ls"
    and i: "start_idx ls \<le> i" "unat i + n \<le> unat (inmem_next_slot ls)" "n < 2147483648"
    and small: "list_all (packable N) (stored ls (urange i (i + word_of_nat n)))"
  shows "\<exists>b. inmem_pack N i (word_of_nat n) ls = (Inr b, ls) \<and>
    data_begin N b = e32 (word_of_nat n) @ pack_wire N e32 (stored ls (urange i (i + word_of_nat n)))"
proof -
  let ?is = "urange i (i + word_of_nat n)"
  let ?es = "stored ls ?is"
  let ?S = "sum_list (map (\<lambda>e. length (data_begin N (le_serialize N e))) ?es)"
  have lim: "unat i + n < 18446744073709551616" using i(2) unat_lt_2_64 [of "inmem_next_slot ls"] by linarith
  then have un: "unat (i + word_of_nat n) = unat i + n"
    using unat_add_64 [of i "word_of_nat n"] by (simp add: unat_of_nat_64)
  have len: "length ?es = n" by (simp add: stored_def un)
  have loop: "pack_loop N ?is ls = (Inr (map (le_serialize N) ?es), ls)"
    using pack_loop_entries [OF inv, of ?is N] i(1,2) un by (force simp: stored_def u64_le_iff u64_less_iff)
  have sum: "sum_list (map (buffer_size N) (map (le_serialize N) es)) =
      word_of_nat (sum_list (map (\<lambda>e. length (data_begin N (le_serialize N e))) es))" for es
    by (induction es) (simp_all add: buffer_size_data [OF laws])
  have S: "?S \<le> 2147483648 * n" using pack_wire_bound [OF small] len by simp
  then have "4 + (4 * n + ?S) < 18446744073709551616" using i(3) by simp
  then have "unat (4 + word_of_nat n * 4 + word_of_nat ?S :: u64) = 4 + (4 * n + ?S)"
    using unat_of_nat_64 [of "4 + (4 * n + ?S)"] by (simp add: mult.commute add.assoc)
  then have "buf_wrote N (set_pos0 N (buffer_alloc N (4 + word_of_nat n * 4 + word_of_nat ?S))) [] (4 + (4 * n + ?S))"
    using laws by (simp add: wrote_def buffer_laws_def)
  from buf_put_int [OF laws this, of "word_of_nat n"] obtain b1 where b1:
    "put_int N (set_pos0 N (buffer_alloc N (4 + word_of_nat n * 4 + word_of_nat ?S))) (word_of_nat n) = Inr b1"
    "buf_wrote N b1 (e32 (word_of_nat n)) (4 * n + ?S)" by auto
  then have "buf_wrote N b1 (e32 (word_of_nat n)) (length (pack_wire N e32 ?es))"
    using length_pack_wire [OF laws, of ?es] len by simp
  from put_bufs_wire [OF laws this] obtain b2 where b2: "put_bufs N (map (le_serialize N) ?es) b1 = Inr b2"
    "buf_wrote N b2 (e32 (word_of_nat n) @ pack_wire N e32 ?es) 0" by blast
  have "inmem_pack N i (word_of_nat n) ls = (Inr b2, ls)"
    using b1(1) b2(1) by (simp add: inmem_pack_def scast_count [OF i(3)] loop sum Let_def del: map_map)
  then show ?thesis using wrote_full [OF b2(2)] by auto
qed

lemma upper_bound_start:
  assumes "inmem_inv ls" "inmem_entries N ls \<noteq> []"
  shows "\<exists>p. sm_upper_bound 0 (logs ls) = Some p \<and> fst p = start_idx ls"
proof -
  have ok: "sm_ok (logs ls)" and pos: "0 < start_idx ls"
    and dom: "dom (sm_find (logs ls)) = insert 0 {start_idx ls ..< inmem_next_slot ls}"
    using assms(1) by (simp_all add: inmem_inv_def)
  have "start_idx ls < inmem_next_slot ls"
    using assms(2) by (cases "start_idx ls < inmem_next_slot ls") (simp_all add: inmem_entries_def)
  then have mem: "start_idx ls \<in> dom (sm_find (logs ls))" by (simp add: dom)
  then obtain a v where u: "sm_upper_bound 0 (logs ls) = Some (a, v)"
    using pos sm_upper_bound_None [of 0 "logs ls"] by (cases "sm_upper_bound 0 (logs ls)") (auto simp: leD)
  have "sm_find (logs ls) a = Some v \<and> 0 < a \<and> (\<forall>b \<in> dom (sm_find (logs ls)). 0 < b \<longrightarrow> a \<le> b)"
    by (rule sm_upper_bound_Some [OF ok u])
  moreover from this have "a \<in> dom (sm_find (logs ls))" by blast
  ultimately have "a = start_idx ls" using mem pos by (auto simp: dom intro: antisym)
  then show ?thesis using u by simp
qed

lemma stored_cores:
  assumes "start_idx ls \<le> i" "unat i + n \<le> unat (inmem_next_slot ls)"
  shows "map (le_view N) (stored ls (urange i (i + word_of_nat n))) =
    take n (drop (unat i - unat (start_idx ls)) (inmem_entries N ls))"
proof -
  have lim: "unat i + n < 18446744073709551616" using assms(2) unat_lt_2_64 [of "inmem_next_slot ls"] by linarith
  then have un: "unat (i + word_of_nat n) = unat i + n"
    using unat_add_64 [of i "word_of_nat n"] by (simp add: unat_of_nat_64)
  have "urange i (i + word_of_nat n) = take n (urange i (inmem_next_slot ls))"
    using take_urange [of i "i + word_of_nat n" "inmem_next_slot ls"] un assms(2) by (simp add: u64_le_iff)
  then show ?thesis
    by (simp add: stored_def inmem_entries_def inmem_view_def comp_def drop_map drop_urange [OF assms(1)] take_map)
qed

lemma pack_unpack:
  assumes laws: "buffer_laws N e64 e32" "log_entry_laws N" and src: "inmem_inv src" and dst: "inmem_inv dst"
    and i: "start_idx src \<le> i" "unat i + n \<le> unat (inmem_next_slot src)" "0 < n" "n < 2147483648"
    and small: "list_all (packable N) (stored src (urange i (i + word_of_nat n)))"
    and at: "start_idx dst \<le> i" "i \<le> inmem_next_slot dst"
  shows "\<exists>pack dst'. inmem_pack N i (word_of_nat n) src = (Inr pack, src) \<and>
    inmem_apply_pack N i pack dst = (Inr (), dst') \<and> inmem_inv dst' \<and> start_idx dst' = start_idx dst \<and>
    map le_core (inmem_entries N dst') =
      take (unat i - unat (start_idx dst)) (map le_core (inmem_entries N dst)) @
      take n (drop (unat i - unat (start_idx src)) (map le_core (inmem_entries N src))) @
      drop (unat i - unat (start_idx dst) + n) (map le_core (inmem_entries N dst))"
proof -
  let ?es = "stored src (urange i (i + word_of_nat n))"
  obtain b where b: "inmem_pack N i (word_of_nat n) src = (Inr b, src)"
    "data_begin N b = e32 (word_of_nat n) @ pack_wire N e32 ?es"
    using inmem_pack_wire [OF laws(1) src i(1,2,4) small] by blast
  have cores: "map (le_view N) ?es = take n (drop (unat i - unat (start_idx src)) (inmem_entries N src))"
    by (rule stored_cores [OF i(1,2)])
  have len: "length ?es = n" using arg_cong [OF cores, of length] i(1,2) by (simp add: length_inmem_entries u64_le_iff)
  have "buf_unread N (set_pos0 N b) (e32 (word_of_nat n) @ pack_wire N e32 ?es)"
    using pos0_unread [OF laws(1), of b] b(2) by simp
  from buf_get_int [OF laws(1) this] obtain p where p: "get_int N (set_pos0 N b) = Inr (word_of_nat n, p)"
    "buf_unread N p (pack_wire N e32 ?es)" by blast
  have lim: "unat i + length ?es < 18446744073709551616"
    using i(2) len unat_lt_2_64 [of "inmem_next_slot src"] by linarith
  obtain d where d: "apply_pack_loop N n i p dst = (Inr (), d)" "inmem_inv d" "start_idx d = start_idx dst"
    "map le_core (inmem_entries N d) = take (unat i - unat (start_idx dst)) (map le_core (inmem_entries N dst)) @
        map (le_core \<circ> le_view N) ?es @ drop (unat i - unat (start_idx dst) + n) (map le_core (inmem_entries N dst))"
    using apply_pack_loop_wire [OF laws p(2) small dst at lim] unfolding len by blast
  have "inmem_entries N d \<noteq> []" using d(4) len i(3) by (metis Nil_is_append_conv length_0_conv map_is_Nil_conv less_irrefl)
  from upper_bound_start [OF d(2) this] obtain q where q: "sm_upper_bound 0 (logs d) = Some q" "fst q = start_idx d"
    by blast
  have "inmem_apply_pack N i b dst = (Inr (), d)"
    using p(1) d(1) q by (simp add: inmem_apply_pack_def sint_count [OF i(4)])
  moreover have "map (le_core \<circ> le_view N) ?es = take n (drop (unat i - unat (start_idx src)) (map le_core (inmem_entries N src)))"
    using arg_cong [OF cores, of "map le_core"] by (simp add: take_map drop_map)
  ultimately show ?thesis using b(1) d by auto
qed

text \<open>
  C7. Packing \<open>n\<close> entries of one log from an index and applying the pack to another log at the
  same index gives the other log exactly these entries there (their terms, types and payloads),
  keeps what it had before and behind them, and keeps it well formed; the packed log is not
  changed. The other log has to reach up to the index and the entries have to be smaller than
  2 GiB.
\<close>

theorem pack_apply_pack:
  assumes laws: "buffer_laws N e64 e32" "log_entry_laws N" and src: "inmem_inv src" and dst: "inmem_inv dst"
    and i: "start_idx src \<le> i" "unat i + n \<le> unat (inmem_next_slot src)" "0 < n" "n < 2147483648"
    and small: "list_all (packable N) (stored src (urange i (i + word_of_nat n)))"
    and at: "start_idx dst \<le> i" "i \<le> inmem_next_slot dst"
  shows "\<exists>pack dst'. inmem_pack N i (word_of_nat n) src = (Inr pack, src) \<and>
    inmem_apply_pack N i pack dst = (Inr (), dst') \<and> inmem_inv dst' \<and> start_idx dst' = start_idx dst \<and>
    map le_core (inmem_entries N dst') =
      take (unat i - unat (start_idx dst)) (map le_core (inmem_entries N dst)) @
      take n (drop (unat i - unat (start_idx src)) (map le_core (inmem_entries N src))) @
      drop (unat i - unat (start_idx dst) + n) (map le_core (inmem_entries N dst))"
  by (rule pack_unpack [OF assms])

definition demo_log :: "(rentry, bool) inmem_log_store" where
  "demo_log = snd (inmem_append ref_nuraft 0 (4, ([8], 0), 1, 0, False, 0)
     (snd (inmem_append ref_nuraft 0 (3, ([7], 0), 1, 0, False, 0) (inmem_new ref_nuraft False))))"

lemma demo_log_eq: "logs demo_log = [(0, Some (0, (replicate 8 0, 0), 1, 0, False, 0)),
    (1, Some (3, ([7], 0), 1, 0, False, 0)), (2, Some (4, ([8], 0), 1, 0, False, 0))]" "start_idx demo_log = 1"
  by (simp_all add: demo_log_def inmem_append_def inmem_new_def make_clone_def ref_nuraft_def)

lemma demo_log_inv: "inmem_inv demo_log" "inmem_next_slot demo_log = 3"
proof -
  have d: "dom (sm_find (logs demo_log)) = insert 0 {start_idx demo_log ..< 3}"
  proof -
    have "{1 ..< 3 :: u64} = set (urange 1 3)" by simp
    also have "urange 1 3 = [1, 2 :: u64]" by (simp add: urange_def upt_rec)
    finally show ?thesis by (simp add: demo_log_eq sm_find_def)
  qed
  have "inmem_inv demo_log \<and> inmem_next_slot demo_log = 3"
    by (rule inmem_invI [OF _ _ _ d]) (auto simp: demo_log_eq sm_ok_def)
  then show "inmem_inv demo_log" "inmem_next_slot demo_log = 3" by auto
qed

theorem pack_apply_pack_witness:
  "\<exists>pack dst'. inmem_pack ref_nuraft 1 2 demo_log = (Inr pack, demo_log) \<and>
     inmem_apply_pack ref_nuraft 1 pack (inmem_new ref_nuraft False) = (Inr (), dst') \<and>
     map le_core (inmem_entries ref_nuraft dst') = map le_core (inmem_entries ref_nuraft demo_log)"
proof -
  have "list_all (packable ref_nuraft) (stored demo_log (urange 1 (1 + word_of_nat 2)))"
    by (simp add: urange_def upt_rec stored_def demo_log_eq packable_def ref_nuraft_def ref_le_bytes_def)
  from pack_apply_pack [OF ref_buffer_laws ref_log_entry_laws demo_log_inv(1) _ _ _ _ _ this,
      of "inmem_new ref_nuraft False"] inmem_new_inv [of ref_nuraft False]
  obtain pack dst' where "inmem_pack ref_nuraft 1 2 demo_log = (Inr pack, demo_log)"
     "inmem_apply_pack ref_nuraft 1 pack (inmem_new ref_nuraft False) = (Inr (), dst')"
     "map le_core (inmem_entries ref_nuraft dst') = take 2 (map le_core (inmem_entries ref_nuraft demo_log))"
    by (auto simp: demo_log_eq demo_log_inv inmem_new_def inmem_entries_def inmem_next_slot_def)
  then show ?thesis by (simp add: length_inmem_entries demo_log_inv demo_log_eq)
qed

subsection \<open>Reading ranges\<close>

text \<open>
  C10. For a range within the log, \<open>log_entries\<close> returns a vector without null pointers that
  shows exactly the entries of that range, in order. (2^59 - 1 pointers are the most a vector of
  them can hold.)
\<close>

theorem log_entries_range:
  assumes laws: "buffer_laws N e64 e32" "log_entry_laws N" and inv: "inmem_inv ls"
    and a: "start_idx ls \<le> a" "a \<le> b" "b \<le> inmem_next_slot ls" "unat b - unat a \<le> vector_ptr_max"
  shows "\<exists>es. inmem_log_entries N a b ls = Inr (map Some es) \<and>
    map (le_view N) es = take (unat b - unat a) (drop (unat a - unat (start_idx ls)) (inmem_entries N ls))"
proof -
  have n: "unat (b - a) = unat b - unat a" using a(2) by (simp add: unat_sub)
  have r: "urange a b = take (unat b - unat a) (urange a (inmem_next_slot ls))"
    using take_urange [of a b "inmem_next_slot ls"] a(2,3) by simp
  define es where "es = map (\<lambda>ii. make_clone N (the (the (sm_find (logs ls) ii)))) (urange a b)"
  have "rmap (\<lambda>ii. rbind (find_or_dummy ls ii) (\<lambda>src. Inr (make_clone N src))) (urange a b) =
      Inr es"
    unfolding es_def using a by (intro rmap_Inr) (auto simp: find_or_dummy_in [OF inv])
  moreover have "map (le_view N) es =
      take (unat b - unat a) (drop (unat a - unat (start_idx ls)) (inmem_entries N ls))"
    using r by (simp add: es_def view_make_clone [OF laws] comp_def inmem_entries_def inmem_view_def drop_map drop_urange [OF a(1)] take_map)
  moreover have "length es = unat b - unat a" by (simp add: es_def)
  ultimately show ?thesis
    using a(4) by (intro exI [of _ es]) (simp add: inmem_log_entries_def n)
qed

theorem log_entries_range_witness:
  "\<exists>es. inmem_log_entries ref_nuraft 1 3 demo_log = Inr (map Some es) \<and>
     map (le_view ref_nuraft) es = inmem_entries ref_nuraft demo_log"
proof -
  obtain es where "inmem_log_entries ref_nuraft 1 3 demo_log = Inr (map Some es)"
    "map (le_view ref_nuraft) es = take 2 (inmem_entries ref_nuraft demo_log)"
    using log_entries_range [OF ref_buffer_laws ref_log_entry_laws demo_log_inv(1), of 1 3]
    by (auto simp: demo_log_eq demo_log_inv vector_ptr_max_def)
  then show ?thesis by (simp add: length_inmem_entries demo_log_inv demo_log_eq)
qed

text \<open>The sum of the payload sizes of entries.\<close>

definition payload :: "entry_view list \<Rightarrow> nat" where
  "payload vs = sum_list (map (\<lambda>v. length (ev_buf v)) vs)"

lemma payload_simps [simp]: "payload [] = 0" "payload (v # vs) = length (ev_buf v) + payload vs"
  by (simp_all add: payload_def)

lemma ext_loop_prefix:
  assumes laws: "buffer_laws N e64 e32" "log_entry_laws N" and inv: "inmem_inv ls"
  shows "set is \<subseteq> {start_idx ls ..< inmem_next_slot ls} \<Longrightarrow>
    unat acc + payload (map (inmem_view N ls) is) < 18446744073709551616 \<Longrightarrow>
    \<exists>es. ext_loop N ls hint acc is = Inr es \<and> length es \<le> length is \<and>
      map (le_view N) es = take (length es) (map (inmem_view N ls) is) \<and>
      (is \<noteq> [] \<longrightarrow> es \<noteq> []) \<and> (hint = 0 \<longrightarrow> length es = length is) \<and>
      (length es < length is \<longrightarrow> unat hint \<le> unat acc + payload (map (le_view N) es)) \<and>
      (hint \<noteq> 0 \<longrightarrow> 1 < length es \<longrightarrow> unat acc + payload (map (le_view N) (butlast es)) < unat hint)"
proof (induction "is" arbitrary: acc)
  case Nil
  then show ?case by simp
next
  case (Cons i "is")
  let ?e = "the (the (sm_find (logs ls) i))"
  let ?acc = "acc + buffer_size N (get_buf N ?e)"
  have f: "find_or_dummy ls i = Inr ?e" using Cons.prems(1) by (intro find_or_dummy_in [OF inv]) auto
  have v: "inmem_view N ls i = le_view N ?e" "le_view N (make_clone N ?e) = le_view N ?e"
    by (simp_all add: inmem_view_def view_make_clone [OF laws])
  have lim: "unat acc + length (data_begin N (get_buf N ?e)) + payload (map (inmem_view N ls) is) < 18446744073709551616"
    using Cons.prems(2) by (simp add: payload_def v le_view_def)
  then have acc: "unat ?acc = unat acc + length (ev_buf (le_view N ?e))"
    using unat_add_64 [of acc "buffer_size N (get_buf N ?e)"]
    by (simp add: buffer_size_data [OF laws(1)] unat_of_nat_64 le_view_def)
  show ?case
  proof (cases "hint \<noteq> 0 \<and> hint \<le> ?acc")
    case True
    then show ?thesis using f v acc by (simp add: payload_def u64_le_iff)
  next
    case False
    from Cons.prems(1) lim acc have "set is \<subseteq> {start_idx ls ..< inmem_next_slot ls}"
      "unat ?acc + payload (map (inmem_view N ls) is) < 18446744073709551616" by (simp_all add: le_view_def)
    from Cons.IH [OF this] obtain es where es: "ext_loop N ls hint ?acc is = Inr es" "length es \<le> length is"
      "map (le_view N) es = take (length es) (map (inmem_view N ls) is)"
      "hint = 0 \<longrightarrow> length es = length is"
      "length es < length is \<longrightarrow> unat hint \<le> unat ?acc + payload (map (le_view N) es)"
      "hint \<noteq> 0 \<longrightarrow> 1 < length es \<longrightarrow> unat ?acc + payload (map (le_view N) (butlast es)) < unat hint" by blast
    have "ext_loop N ls hint acc (i # is) = Inr (make_clone N ?e # es)" using False f es(1) by (auto simp: Let_def)
    moreover have "unat acc + payload (map (le_view N) (butlast (make_clone N ?e # es))) < unat hint"
      if "hint \<noteq> 0" "1 < length (make_clone N ?e # es)"
    proof (cases "1 < length es")
      case True
      then show ?thesis using that es(6) acc v by (auto simp: payload_def)
    next
      case False
      then have "butlast es = []" by (cases es) auto
      then show ?thesis using that \<open>\<not> (hint \<noteq> 0 \<and> hint \<le> ?acc)\<close> acc v
        by (auto simp: payload_def u64_le_iff)
    qed
    moreover have "length (make_clone N ?e # es) < length (i # is) \<longrightarrow>
        unat hint \<le> unat acc + payload (map (le_view N) (make_clone N ?e # es))"
      using es(5) acc v by auto
    ultimately show ?thesis using es(2-4) v by (intro exI [of _ "make_clone N ?e # es"]) simp
  qed
qed

text \<open>
  C11. \<open>log_entries_ext\<close> with a batch size hint returns a prefix of the range, never an empty one
  for a nonempty range; it stops early only when the payloads returned add up to the hint, and
  without its last entry the batch is below the hint. A hint of 0 means no limit.
\<close>

theorem log_entries_ext_batch:
  assumes laws: "buffer_laws N e64 e32" "log_entry_laws N" and inv: "inmem_inv ls"
    and a: "start_idx ls \<le> a" "a \<le> b" "b \<le> inmem_next_slot ls" and hint: "0 \<le> sint hint"
    and fits: "payload (inmem_entries N ls) < 18446744073709551616"
  shows "\<exists>es. inmem_log_entries_ext N a b hint ls = Inr es \<and> length es \<le> unat b - unat a \<and>
    map (le_view N) es = take (length es) (drop (unat a - unat (start_idx ls)) (inmem_entries N ls)) \<and>
    (a < b \<longrightarrow> es \<noteq> []) \<and> (hint = 0 \<longrightarrow> length es = unat b - unat a) \<and>
    (length es < unat b - unat a \<longrightarrow> unat hint \<le> payload (map (le_view N) es)) \<and>
    (hint \<noteq> 0 \<longrightarrow> 1 < length es \<longrightarrow> payload (map (le_view N) (butlast es)) < unat hint)"
proof -
  let ?D = "drop (unat a - unat (start_idx ls)) (inmem_entries N ls)"
  have D: "?D = map (inmem_view N ls) (urange a (inmem_next_slot ls))"
    by (simp add: inmem_entries_def drop_map drop_urange [OF a(1)])
  have r: "map (inmem_view N ls) (urange a b) = take (unat b - unat a) ?D"
    using take_urange [of a b "inmem_next_slot ls"] a(2,3) by (simp add: D take_map)
  have "payload (take m (drop k vs)) \<le> payload vs" for m k vs
  proof -
    have "payload vs = payload (take k vs) + (payload (take m (drop k vs)) + payload (drop m (drop k vs)))"
      unfolding payload_def by (metis append_take_drop_id map_append sum_list_append)
    then show ?thesis by simp
  qed
  then have lim: "unat 0 + payload (map (inmem_view N ls) (urange a b)) < 18446744073709551616"
    using fits by (auto simp: r intro: le_less_trans)
  have sub: "set (urange a b) \<subseteq> {start_idx ls ..< inmem_next_slot ls}" using a by auto
  obtain es where es: "ext_loop N ls hint 0 (urange a b) = Inr es" "length es \<le> length (urange a b)"
      "map (le_view N) es = take (length es) (map (inmem_view N ls) (urange a b))"
      "urange a b \<noteq> [] \<longrightarrow> es \<noteq> []" "hint = 0 \<longrightarrow> length es = length (urange a b)"
      "length es < length (urange a b) \<longrightarrow> unat hint \<le> unat (0 :: u64) + payload (map (le_view N) es)"
      "hint \<noteq> 0 \<longrightarrow> 1 < length es \<longrightarrow> unat (0 :: u64) + payload (map (le_view N) (butlast es)) < unat hint"
    using ext_loop_prefix [OF laws inv sub lim, of hint] by blast
  have "inmem_log_entries_ext N a b hint ls = Inr es" using hint es(1) by (simp add: inmem_log_entries_ext_def)
  moreover have "a < b \<longrightarrow> urange a b \<noteq> []" by (simp add: urange_step)
  moreover have "map (le_view N) es = take (length es) ?D" using es(2,3) by (simp add: r)
  ultimately show ?thesis using es(2,4-7) by (intro exI [of _ es]) simp
qed

theorem log_entries_ext_batch_witness:
  "\<exists>es. inmem_log_entries_ext ref_nuraft 1 3 1 demo_log = Inr es \<and>
     map (le_view ref_nuraft) es = take 1 (inmem_entries ref_nuraft demo_log)"
proof -
  have fits: "payload (inmem_entries ref_nuraft demo_log) < 18446744073709551616"
    by (simp add: payload_def inmem_entries_def inmem_view_def demo_log_eq demo_log_inv urange_def upt_rec le_view_def ref_nuraft_def)
  have views: "inmem_entries ref_nuraft demo_log = map (inmem_view ref_nuraft demo_log) [1, 2]"
    by (simp add: inmem_entries_def demo_log_eq demo_log_inv urange_def upt_rec)
  have one: "payload [inmem_view ref_nuraft demo_log 1] = 1"
    by (simp add: payload_def inmem_view_def demo_log_eq le_view_def ref_nuraft_def)
  obtain es where es: "inmem_log_entries_ext ref_nuraft 1 3 1 demo_log = Inr es" "length es \<le> 2"
    "map (le_view ref_nuraft) es = take (length es) (inmem_entries ref_nuraft demo_log)" "es \<noteq> []"
    "1 < length es \<longrightarrow> payload (map (le_view ref_nuraft) (butlast es)) < 1"
    using log_entries_ext_batch [OF ref_buffer_laws ref_log_entry_laws demo_log_inv(1) _ _ _ _ fits, of 1 3 1]
    by (auto simp: demo_log_eq demo_log_inv)
  have "length es \<noteq> 2"
  proof
    assume "length es = 2"
    moreover from this have "map (le_view ref_nuraft) (butlast es) = [inmem_view ref_nuraft demo_log 1]"
      using es(3) by (simp add: views map_butlast)
    ultimately show False using es(5) one by simp
  qed
  then have "length es = 1" using es(2,4) by (metis One_nat_def le_SucE le_zero_eq length_0_conv numeral_2_eq_2)
  then show ?thesis using es by auto
qed

subsection \<open>One batch and the plain range\<close>

lemma ext_loop_unlimited:
  "ext_loop N ls 0 acc iis = rmap (\<lambda>ii. rbind (find_or_dummy ls ii) (\<lambda>src. Inr (make_clone N src))) iis"
  by (induction iis arbitrary: acc) (simp_all add: rbind_assoc Let_def)

lemma rmap_length: "rmap f xs = Inr ys \<Longrightarrow> length ys = length xs"
  by (induction xs arbitrary: ys) (auto simp: rbind_eq_Inr)

text \<open>
  Without a size hint \<open>log_entries_ext\<close> is \<open>log_entries\<close>: on every state of the store, also one
  in which indexes are missing or entries are null, and for every range that fits a vector, the
  two return the same entries in the same order or fail the same way.
\<close>

theorem log_entries_ext_equiv:
  assumes "a \<le> b" "unat b - unat a \<le> vector_ptr_max"
  shows "inmem_log_entries N a b ls = rbind (inmem_log_entries_ext N a b 0 ls) (\<lambda>es. Inr (map Some es))"
proof -
  have n: "unat (b - a) = unat b - unat a" using assms(1) by (simp add: unat_sub_if' u64_le_iff)
  show ?thesis
  proof (cases "inmem_log_entries_ext N a b 0 ls")
    case (Inl e)
    then show ?thesis using assms(2) by (simp add: inmem_log_entries_def inmem_log_entries_ext_def ext_loop_unlimited n)
  next
    case (Inr es)
    then have r: "rmap (\<lambda>ii. rbind (find_or_dummy ls ii) (\<lambda>src. Inr (make_clone N src))) (urange a b) = Inr es"
      by (simp add: inmem_log_entries_ext_def ext_loop_unlimited)
    show ?thesis using assms(2) rmap_length [OF r] by (simp add: inmem_log_entries_def n r Inr)
  qed
qed

theorem log_entries_ext_equiv_witness:
  "inmem_log_entries ref_nuraft 1 3 demo_log = rbind (inmem_log_entries_ext ref_nuraft 1 3 0 demo_log) (\<lambda>es. Inr (map Some es))"
  by (rule log_entries_ext_equiv) (simp_all add: vector_ptr_max_def)

subsection \<open>Every state a Raft server can bring the store to\<close>

text \<open>
  The calls that change a store, with what the interface asks of the caller: \<open>write_at\<close> within the
  log or at its end, and no index at the very end of the 64-bit range.
\<close>

inductive inmem_step :: "('b, 's, 'e, 'ea) nuraft \<Rightarrow> ('e, 'ea) inmem_log_store \<Rightarrow> ('e, 'ea) inmem_log_store \<Rightarrow> bool"
  for N where
  step_append: "inmem_append N t e ls = (i, ls') \<Longrightarrow> unat (inmem_next_slot ls) + 1 < 18446744073709551616 \<Longrightarrow>
    inmem_step N ls ls'"
| step_write_at: "start_idx ls \<le> i \<Longrightarrow> i \<le> inmem_next_slot ls \<Longrightarrow> unat i + 1 < 18446744073709551616 \<Longrightarrow>
    inmem_step N ls (inmem_write_at N t i e ls)"
| step_compact: "inmem_compact i ls = Some (r, ls') \<Longrightarrow> unat i + 1 < 18446744073709551616 \<Longrightarrow> inmem_step N ls ls'"
| step_flush: "inmem_step N ls (snd (inmem_flush ls))"
| step_delay: "inmem_step N ls (set_disk_delay raft ms ls)"
| step_disk: "inmem_step N ls (snd (disk_emul_round N t ls))"
| step_close: "inmem_step N ls (inmem_close ls)"
| step_destroy: "inmem_step N ls (inmem_destroy N ls)"

inductive inmem_reachable :: "('b, 's, 'e, 'ea) nuraft \<Rightarrow> ('e, 'ea) inmem_log_store \<Rightarrow> bool" for N where
  reachable_new: "inmem_reachable N (inmem_new N ea)"
| reachable_step: "inmem_reachable N ls \<Longrightarrow> inmem_step N ls ls' \<Longrightarrow> inmem_reachable N ls'"

definition has_dummy :: "('b, 's, 'e, 'ea) nuraft \<Rightarrow> ('e, 'ea) inmem_log_store \<Rightarrow> bool" where
  "has_dummy N ls \<longleftrightarrow> sm_find (logs ls) 0 = Some (Some (log_entry_new N 0 (Some (buffer_alloc N 8))))"

lemma same_logs:
  "logs (snd (inmem_flush ls)) = logs ls" "start_idx (snd (inmem_flush ls)) = start_idx ls"
  "logs (set_disk_delay raft ms ls) = logs ls" "start_idx (set_disk_delay raft ms ls) = start_idx ls"
  "logs (snd (disk_emul_round N t ls)) = logs ls" "start_idx (snd (disk_emul_round N t ls)) = start_idx ls"
  "logs (inmem_close ls) = logs ls" "start_idx (inmem_close ls) = start_idx ls"
  "logs (inmem_destroy N ls) = logs ls" "start_idx (inmem_destroy N ls) = start_idx ls"
  by (auto simp: inmem_flush_def set_disk_delay_def disk_emul_round_def inmem_close_def inmem_destroy_def Let_def
      split: prod.splits)

lemma inmem_step_inv:
  assumes "inmem_step N ls ls'" "inmem_inv ls" "has_dummy N ls"
  shows "inmem_inv ls' \<and> has_dummy N ls'"
proof -
  have pos: "0 < start_idx ls" and ok: "sm_ok (logs ls)" and le: "start_idx ls \<le> inmem_next_slot ls"
    using assms(2) by (simp_all add: inmem_inv_def)
  from assms(1) show ?thesis
  proof cases
    case (step_append t e i)
    then have "i = inmem_next_slot ls" "logs ls' = sm_put i (Some (make_clone N e)) (logs ls)"
      using inmem_append_logs [OF step_append(1)] by auto
    moreover have "i \<noteq> 0" using pos le calculation(1) by auto
    ultimately show ?thesis
      using inmem_append_spec(2) [OF assms(2) step_append(2,1)] assms(3) by (simp add: has_dummy_def)
  next
    case (step_write_at i t e)
    then have "0 < i" using pos by auto
    then show ?thesis
      using inmem_write_at_spec(1) [OF assms(2) step_write_at(2-4), of N t e] assms(3) ok step_write_at(1)
      by (auto simp: has_dummy_def inmem_write_at_logs)
  next
    case (step_compact i r)
    obtain l where l: "inmem_compact i ls = Some (True, l)" "inmem_inv l"
      using inmem_compact_spec [OF assms(2) step_compact(2)] by blast
    have "sm_find (fold sm_erase (urange (start_idx ls) (i + 1)) (logs ls)) 0 = sm_find (logs ls) 0"
      using std_map.look_erases [OF ok] pos by (auto simp: restrict_map_def)
    then have "has_dummy N l"
      using l(1) assms(3) by (auto simp: inmem_compact_def compact_loop_erases [OF step_compact(2)] has_dummy_def)
    then show ?thesis using l step_compact(1) by simp
  qed (use assms(2,3) in \<open>auto simp: has_dummy_def same_logs intro: inmem_inv_cong [THEN iffD1]\<close>)
qed

lemma reachable_inv: "inmem_reachable N ls \<Longrightarrow> inmem_inv ls \<and> has_dummy N ls"
proof (induction rule: inmem_reachable.induct)
  case (reachable_new ea)
  then show ?case using inmem_new_inv [of N ea] by (simp add: has_dummy_def inmem_new_def)
next
  case (reachable_step ls ls')
  then show ?case using inmem_step_inv by blast
qed


lemma demo_log_reachable: "inmem_reachable ref_nuraft demo_log"
proof -
  let ?a = "inmem_append ref_nuraft 0 (3, ([7], 0), 1, 0, False, 0) (inmem_new ref_nuraft False)"
  have "inmem_reachable ref_nuraft (snd ?a)"
    by (rule reachable_step [OF reachable_new], rule step_append [of _ 0 _ _ "fst ?a"]) (simp_all add: inmem_new_inv)
  then show ?thesis unfolding demo_log_def
    by (rule reachable_step, intro step_append [of _ 0 "(4, ([8], 0), 1, 0, False, 0)" _
        "fst (inmem_append ref_nuraft 0 (4, ([8], 0), 1, 0, False, 0) (snd ?a))"])
      (simp_all add: inmem_append_def inmem_new_def inmem_next_slot_def make_clone_def ref_nuraft_def)
qed


text \<open>
  C8. A follower that overwrites a conflicting index and appends the leader's entries ends with
  what it had before that index followed by exactly the leader's entries.
\<close>

theorem inmem_catch_up:
  assumes "buffer_laws N e64 e32" "log_entry_laws N" "inmem_inv ls"
    and "start_idx ls \<le> i" "i \<le> inmem_next_slot ls" "unat i + 1 + length es < 18446744073709551616"
  shows "let ls' = fold (\<lambda>e l. snd (inmem_append N t e l)) es (inmem_write_at N t i e ls) in
    inmem_inv ls' \<and> start_idx ls' = start_idx ls \<and>
    inmem_entries N ls' = take (unat i - unat (start_idx ls)) (inmem_entries N ls) @ map (le_view N) (e # es) \<and>
    unat (inmem_next_slot ls') = unat i + 1 + length es"
proof -
  have "unat (start_idx ls) \<le> unat i" "unat i \<le> unat (start_idx ls) + length (inmem_entries N ls)"
    using assms(4,5) inmem_next_slot_entries [OF assms(3), of N] by (simp_all add: u64_le_iff)
  from inmem.overwrite_and_catch_up [of ls N e64 e32 i es t e, OF _ this assms(6)] assms(1-3) show ?thesis
    by (simp add: Let_def u64_eq_iff)
qed

theorem inmem_catch_up_witness:
  "let e = (5, ([9], 0), 1, 0, False, 0);
       ls' = fold (\<lambda>e l. snd (inmem_append ref_nuraft 0 e l)) [e] (inmem_write_at ref_nuraft 0 2 e demo_log) in
   unat (inmem_next_slot ls') = 4 \<and> map ev_term (inmem_entries ref_nuraft ls') = [3, 5, 5]"
  using inmem_catch_up [OF ref_buffer_laws ref_log_entry_laws demo_log_inv(1),
      of 2 "[(5, ([9], 0), 1, 0, False, 0)]" 0 "(5, ([9], 0), 1, 0, False, 0)"]
  by (simp add: demo_log_eq demo_log_inv Let_def inmem_entries_def [of _ demo_log] inmem_view_def urange_def upt_rec
      le_view_def ref_nuraft_def)

subsection \<open>Compaction returns, except at the end of the index range\<close>

lemma compact_loop_max: "compact_loop ii last_log_index m = Some m' \<Longrightarrow> last_log_index \<noteq> - 1"
proof (erule compact_loop.raw_induct [where P = "\<lambda>ii l m m'. l \<noteq> - 1", rotated])
  fix loop :: "u64 \<Rightarrow> u64 \<Rightarrow> (u64, 'a ptr) smap \<Rightarrow> (u64, 'a ptr) smap option" and ii l m m'
  assume "\<And>ii l m m'. loop ii l m = Some m' \<Longrightarrow> l \<noteq> - 1"
    and "(if ii \<le> l then loop (ii + 1) l (case sm_find m ii of None \<Rightarrow> m | Some x \<Rightarrow> sm_erase ii m) else Some m) = Some m'"
  then show "l \<noteq> - 1" by (cases "ii \<le> l") auto
qed

text \<open>
  C12. \<open>compact\<close> returns true for every index but the largest 64-bit value, and then drops exactly
  the entries up to the index and moves the start behind it; for the largest value the loop's
  guard \<open>ii <= last_log_index\<close> never fails and \<open>compact\<close> does not return.
\<close>

theorem inmem_compact_returns:
  assumes "inmem_inv ls"
  shows "if i = - 1 then inmem_compact i ls = None
    else \<exists>ls'. inmem_compact i ls = Some (True, ls') \<and> inmem_inv ls' \<and>
      unat (start_idx ls') = max (unat (start_idx ls)) (unat i + 1) \<and>
      inmem_entries N ls' = drop (unat i + 1 - unat (start_idx ls)) (inmem_entries N ls)"
proof (cases "i = - 1")
  case True
  then have "compact_loop (start_idx ls) i (logs ls) = None"
    using compact_loop_max by (cases "compact_loop (start_idx ls) i (logs ls)") blast+
  then show ?thesis using True by (simp add: inmem_compact_def)
next
  case False
  then have "i < - 1" by (simp add: order_less_le)
  then have "unat i < unat (- 1 :: u64)" by (simp add: u64_less_iff)
  then have "unat i + 1 < 18446744073709551616" by (simp add: unsigned_minus_1_eq_mask mask_eq_exp_minus_1)
  from inmem_compact_entries [OF assms this, of N] False show ?thesis by simp
qed

theorem inmem_compact_returns_witness:
  "\<exists>ls'. inmem_compact 1 demo_log = Some (True, ls') \<and> unat (start_idx ls') = 2 \<and>
     map ev_term (inmem_entries ref_nuraft ls') = [4]"
  using inmem_compact_returns [OF demo_log_inv(1), of 1 ref_nuraft]
  by (auto simp: demo_log_eq demo_log_inv inmem_entries_def [of _ demo_log] inmem_view_def urange_def upt_rec
      le_view_def ref_nuraft_def)

subsection \<open>The emulated disk\<close>

lemma durable_loop_due:
  "sm_ok w \<Longrightarrow> durable_loop now w d c =
    (filter (\<lambda>p. now < fst p) w,
     (if filter (\<lambda>p. fst p \<le> now) w = [] then d else snd (last (filter (\<lambda>p. fst p \<le> now) w))),
     c \<or> filter (\<lambda>p. fst p \<le> now) w \<noteq> [])"
proof (induction now w d c rule: durable_loop.induct)
  case (2 now t idx w d c)
  show ?case
  proof (cases "t \<le> now")
    case True
    then show ?thesis using 2 by (auto simp: sm_ok_Cons not_less)
  next
    case False
    then have later: "\<forall>p \<in> set w. now < fst p"
      using 2(2) by (auto simp: sm_ok_Cons intro: less_trans)
    then have "filter (\<lambda>p. fst p \<le> now) w = []" "filter (\<lambda>p. now < fst p) w = w"
      by (auto simp: filter_empty_conv filter_id_conv not_le)
    then show ?thesis using False by simp
  qed
qed simp

text \<open>
  A round of the disk emulation thread takes exactly the writes that are due off the table;
  the durable index becomes the index of the latest of them, the Raft server is notified if and
  only if there was one, and the next sleep ends when the first of the remaining writes is due.
\<close>

theorem disk_emul_round_due:
  assumes "sm_ok (disk_emul_logs_being_written ls)" "\<not> disk_emul_thread_stop_signal ls"
    and "raft_server_bwd_pointer ls \<noteq> None"
  shows "let due = filter (\<lambda>p. fst p \<le> now) (disk_emul_logs_being_written ls);
      rest = filter (\<lambda>p. now < fst p) (disk_emul_logs_being_written ls) in
    \<exists>ls' sleep. disk_emul_round N now ls = (Inr (Some (due \<noteq> [], sleep)), ls') \<and>
      disk_emul_logs_being_written ls' = rest \<and>
      disk_emul_last_durable_index ls' =
        (if due = [] then disk_emul_last_durable_index ls else snd (last due)) \<and>
      (if rest = [] then sleep = 100000 else now + sleep = fst (hd rest))"
proof -
  obtain r where r: "raft_server_bwd_pointer ls = Some r" using assms(3) by blast
  show ?thesis
    using assms(2) r durable_loop_due [OF assms(1), of now "disk_emul_last_durable_index ls" False]
    by (cases "filter (\<lambda>p. now < fst p) (disk_emul_logs_being_written ls)") (auto simp: disk_emul_round_def Let_def)
qed

theorem disk_emul_round_due_witness:
  "\<exists>ls' sleep. disk_emul_round ref_nuraft 2500
      (snd (inmem_append ref_nuraft 1000 (3, ([7], 0), 1, 0, False, 0)
        (set_disk_delay (Some 0) 1 (inmem_new ref_nuraft False)))) = (Inr (Some (True, sleep)), ls') \<and>
     disk_emul_last_durable_index ls' = 1"
  using disk_emul_round_due [of "snd (inmem_append ref_nuraft 1000 (3, ([7], 0), 1, 0, False, 0)
        (set_disk_delay (Some 0) 1 (inmem_new ref_nuraft False)))" 2500 ref_nuraft]
  by (simp add: inmem_append_def set_disk_delay_def inmem_new_def Let_def sm_ok_def) blast

end
