(* ===== verification/State_Mgr.thy ===== *)
theory State_Mgr
  imports Raft_Api Inmem_Log_Store
begin

section \<open>\<open>inmem_state_mgr\<close>: the configuration and vote that Raft keeps\<close>

text \<open>
  \<open>src/server/in_memory_state_mgr.hxx\<close>: the Raft server hands its cluster configuration and its
  term and vote to the state manager and reads them back. The manager keeps them in memory, each as
  a copy made by serializing and deserializing, next to the log store
  (\<open>_USE_SPLINTERDB_LOG_STORE\<close> is 0, so it is the in-memory one).
\<close>

record ('sc, 'cc, 'ss, 'e, 'ea) inmem_state_mgr =
  my_id :: int
  my_endpoint :: string
  cur_log_store :: "('e, 'ea) inmem_log_store"
  my_srv_config :: 'sc
  saved_config :: 'cc
  saved_state :: "'ss ptr"

definition state_mgr_new :: "('b, 's, 'e, 'ea) nuraft \<Rightarrow> ('sc, 'cc, 'ss, 'cb) raft_conf_api \<Rightarrow> 'ea \<Rightarrow>
    int \<Rightarrow> string \<Rightarrow> string \<Rightarrow> ('sc, 'cc, 'ss, 'e, 'ea) inmem_state_mgr" where
  "state_mgr_new N C ea srv_id raft_endpoint client_endpoint =
     (let conf = srv_config_new C srv_id 0 raft_endpoint client_endpoint False
      in \<lparr>my_id = srv_id, my_endpoint = raft_endpoint, cur_log_store = inmem_new N ea, my_srv_config = conf,
          saved_config = cc_push_back C conf (cluster_config_new C), saved_state = None\<rparr>)"

definition load_config :: "('sc, 'cc, 'ss, 'e, 'ea) inmem_state_mgr \<Rightarrow> 'cc" where
  "load_config mgr = saved_config mgr"

definition save_config :: "('sc, 'cc, 'ss, 'b) raft_conf_api \<Rightarrow> 'cc \<Rightarrow>
    (('sc, 'cc, 'ss, 'e, 'ea) inmem_state_mgr, unit) act" where
  "save_config C config mgr =
     (case cc_deserialize C (cc_serialize C config) of
        Inl e \<Rightarrow> (Inl e, mgr)
      | Inr c \<Rightarrow> (Inr (), mgr\<lparr>saved_config := c\<rparr>))"

definition save_state :: "('sc, 'cc, 'ss, 'b) raft_conf_api \<Rightarrow> 'ss \<Rightarrow>
    (('sc, 'cc, 'ss, 'e, 'ea) inmem_state_mgr, unit) act" where
  "save_state C state mgr =
     (case ss_deserialize C (ss_serialize C state) of
        Inl e \<Rightarrow> (Inl e, mgr)
      | Inr s \<Rightarrow> (Inr (), mgr\<lparr>saved_state := Some s\<rparr>))"

definition read_state :: "('sc, 'cc, 'ss, 'e, 'ea) inmem_state_mgr \<Rightarrow> 'ss ptr" where
  "read_state mgr = saved_state mgr"

definition load_log_store :: "('sc, 'cc, 'ss, 'e, 'ea) inmem_state_mgr \<Rightarrow> ('e, 'ea) inmem_log_store" where
  "load_log_store mgr = cur_log_store mgr"

definition mgr_server_id :: "('sc, 'cc, 'ss, 'e, 'ea) inmem_state_mgr \<Rightarrow> int" where
  "mgr_server_id mgr = my_id mgr"

definition system_exit :: "int \<Rightarrow> ('sc, 'cc, 'ss, 'e, 'ea) inmem_state_mgr \<Rightarrow>
    ('sc, 'cc, 'ss, 'e, 'ea) inmem_state_mgr" where
  "system_exit exit_code mgr = mgr"

definition mgr_get_srv_config :: "('sc, 'cc, 'ss, 'e, 'ea) inmem_state_mgr \<Rightarrow> 'sc" where
  "mgr_get_srv_config mgr = my_srv_config mgr"

text \<open>
  The contract of a place where Raft keeps one value: what was saved last is what is read, and
  saving does not fail. The manager provides it twice, for the vote and for the configuration.
\<close>

locale keeper =
  fixes ok :: bool and save :: "'v \<Rightarrow> ('m, unit) act" and load :: "'m \<Rightarrow> 'w option" and view :: "'v \<Rightarrow> 'w"
  assumes save_load: "ok \<Longrightarrow> \<exists>m'. save v m = (Inr (), m') \<and> load m' = Some (view v)"
begin

lemma saves_load:
  "ok \<Longrightarrow> vs \<noteq> [] \<Longrightarrow> load (fold (\<lambda>v m. snd (save v m)) vs m) = Some (view (last vs))"
proof (induction vs arbitrary: m)
  case (Cons v vs)
  obtain m' where "save v m = (Inr (), m')" "load m' = Some (view v)" using save_load Cons.prems(1) by blast
  then show ?case using Cons.IH [of m'] Cons.prems(1) by (cases "vs = []") simp_all
qed simp

end

definition vote_view :: "('sc, 'cc, 'ss, 'b) raft_conf_api \<Rightarrow> 'ss \<Rightarrow> u64 \<times> int" where
  "vote_view C s = (ss_get_term C s, ss_get_voted_for C s)"

definition config_view :: "('sc, 'cc, 'ss, 'b) raft_conf_api \<Rightarrow> 'cc \<Rightarrow> (int \<times> string \<times> string) list" where
  "config_view C c = map (sc_view C) (cc_get_servers C c)"

lemma save_state_read:
  assumes "conf_laws C"
  shows "\<exists>m'. save_state C v m = (Inr (), m') \<and> map_option (vote_view C) (read_state m') = Some (vote_view C v) \<and>
    load_config m' = load_config m"
proof -
  obtain s' where "ss_deserialize C (ss_serialize C v) = Inr s'" "vote_view C s' = vote_view C v"
    using assms unfolding conf_laws_def vote_view_def by metis
  then show ?thesis by (simp add: save_state_def read_state_def load_config_def)
qed

lemma save_config_load:
  assumes "conf_laws C"
  shows "\<exists>m'. save_config C v m = (Inr (), m') \<and> config_view C (load_config m') = config_view C v \<and>
    read_state m' = read_state m"
proof -
  obtain c' where "cc_deserialize C (cc_serialize C v) = Inr c'" "config_view C c' = config_view C v"
    using assms unfolding conf_laws_def config_view_def by metis
  then show ?thesis by (simp add: save_config_def read_state_def load_config_def)
qed

interpretation vote: keeper "conf_laws C" "save_state C" "\<lambda>m. map_option (vote_view C) (read_state m)" "vote_view C"
  for C :: "('sc, 'cc, 'ss, 'b) raft_conf_api"
proof (unfold_locales, goal_cases)
  case (1 v m)
  then show ?case using save_state_read [of C v m] by auto
qed

interpretation configuration: keeper "conf_laws C" "save_config C" "\<lambda>m. Some (config_view C (load_config m))" "config_view C"
  for C :: "('sc, 'cc, 'ss, 'b) raft_conf_api"
proof (unfold_locales, goal_cases)
  case (1 v m)
  then show ?case using save_config_load [of C v m] by auto
qed

definition demo_mgr :: "(rsc, rsc list, u64 \<times> int, rentry, bool) inmem_state_mgr" where
  "demo_mgr = \<lparr>my_id = 1, my_endpoint = ''a:1'', cur_log_store = inmem_new ref_nuraft False,
     my_srv_config = (1, ''a:1'', ''a:2''), saved_config = [(1, ''a:1'', ''a:2'')], saved_state = None\<rparr>"

text \<open>
  A Raft server reads back from its state manager the term and vote that it saved last and
  the cluster that it saved last, whatever it saved before; a new manager has no vote, and its
  cluster is this server alone with the endpoints it was created with.
\<close>

theorem state_mgr_keeps:
  assumes "conf_laws C" "vs \<noteq> []" "cs \<noteq> []"
  shows "map_option (vote_view C) (read_state (fold (\<lambda>v m. snd (save_state C v m)) vs mgr)) = Some (vote_view C (last vs)) \<and>
    config_view C (load_config (fold (\<lambda>c m. snd (save_config C c m)) cs mgr)) = config_view C (last cs) \<and>
    read_state (state_mgr_new N C ea i rep cep) = None \<and>
    config_view C (load_config (state_mgr_new N C ea i rep cep)) = [(i, rep, cep)]"
  using vote.saves_load [OF assms(1,2), of mgr] configuration.saves_load [OF assms(1,3), of mgr] assms(1)
  by (simp add: state_mgr_new_def Let_def read_state_def load_config_def config_view_def conf_laws_def)

theorem state_mgr_keeps_witness:
  "map_option (vote_view ref_conf) (read_state (fold (\<lambda>v m. snd (save_state ref_conf v m)) [(1, 2), (3, 4)] demo_mgr)) = Some (3, 4) \<and>
   config_view ref_conf (load_config (fold (\<lambda>c m. snd (save_config ref_conf c m)) [[(7, ''b:1'', ''b:2'')]] demo_mgr)) = [(7, ''b:1'', ''b:2'')]"
proof -
  have "vote_view ref_conf (3, 4) = (3, 4)" "config_view ref_conf [(7, ''b:1'', ''b:2'')] = [(7, ''b:1'', ''b:2'')]"
    by (simp_all add: vote_view_def config_view_def ref_conf_def sc_view_def)
  moreover note k = state_mgr_keeps [OF ref_conf_laws, of "[(1, 2), (3, 4)]" "[[(7, ''b:1'', ''b:2'')]]" demo_mgr]
  ultimately show ?thesis using k [THEN conjunct1] k [THEN conjunct2, THEN conjunct1] by simp
qed

end
