(* ===== verification/Std_String.thy ===== *)
theory Std_String
  imports Prelude
begin

section \<open>Numbers and endpoints as strings\<close>

text \<open>
  \<open>std::to_string\<close> and \<open>std::stoi\<close>, and the way the code splits an endpoint \<open>host:port\<close>
  (\<open>endpoint.find(':')\<close> and the two \<open>substr\<close>), which the client constructor, the command line
  client and the joining server share. A replica publishes its endpoints by printing them; that
  they are read back as they were meant is proved here for every component that reads them.
\<close>

subsection \<open>Printing and reading numbers\<close>

fun show_nat :: "nat \<Rightarrow> string" where
  "show_nat n =
     (if n < 10 then [char_of (48 + n)] else show_nat (n div 10) @ [char_of (48 + n mod 10)])"

declare show_nat.simps [simp del]

definition show_int :: "int \<Rightarrow> string" where
  "show_int i = (if i < 0 then CHR ''-'' # show_nat (nat (- i)) else show_nat (nat i))"

text \<open>What \<open>isspace\<close> accepts in the C locale, and the decimal digits.\<close>

definition is_space :: "char \<Rightarrow> bool" where
  "is_space c \<longleftrightarrow> of_char c = (32 :: nat) \<or> 9 \<le> (of_char c :: nat) \<and> of_char c \<le> (13 :: nat)"

definition is_digit :: "char \<Rightarrow> bool" where
  "is_digit c \<longleftrightarrow> 48 \<le> (of_char c :: nat) \<and> of_char c \<le> (57 :: nat)"

definition digits_val :: "string \<Rightarrow> nat" where
  "digits_val ds = foldl (\<lambda>acc c. 10 * acc + (of_char c - 48)) 0 ds"

text \<open>
  \<open>std::stoi\<close>: leading white space, a sign, then as many digits as there are. No digit is
  \<open>invalid_argument\<close>, a number outside \<open>int\<close> is \<open>out_of_range\<close>; what follows the digits is ignored.
\<close>

definition stoi :: "string \<Rightarrow> int res" where
  "stoi s =
     (let s = dropWhile is_space s;
          neg = (case s of c # _ \<Rightarrow> c = CHR ''-'' | [] \<Rightarrow> False);
          s = (case s of c # r \<Rightarrow> if c = CHR ''-'' \<or> c = CHR ''+'' then r else s | [] \<Rightarrow> s);
          ds = takeWhile is_digit s;
          v = (if neg then - int (digits_val ds) else int (digits_val ds))
      in if ds = [] then Inl (Invalid_argument ''stoi'')
         else if v < - 2147483648 \<or> 2147483647 < v then Inl Out_of_range
         else Inr v)"

text \<open>
  The host and the port text of an endpoint. Without a colon \<open>find\<close> gives \<open>npos\<close>: the first
  \<open>substr\<close> is the whole string, and so is the second, since \<open>npos + 1\<close> is 0.
\<close>

definition split_endpoint :: "string \<Rightarrow> string \<times> string" where
  "split_endpoint endpoint =
     (takeWhile (\<lambda>c. c \<noteq> CHR '':'') endpoint,
      case dropWhile (\<lambda>c. c \<noteq> CHR '':'') endpoint of [] \<Rightarrow> endpoint | _ # r \<Rightarrow> r)"

text \<open>The check that the port is between 1 and 65535, with the message of the code.\<close>

definition checked_port :: "string \<Rightarrow> int \<Rightarrow> u16 res" where
  "checked_port host port =
     (if 1 > port \<or> port > 65535
      then Inl (Runtime_error (''invalid port number for host '' @ [CHR 0x22] @ host @ [CHR 0x22] @ '': '' @ show_int port))
      else Inr (word_of_int port))"

subsection \<open>Reading back what was printed\<close>

lemma of_char_digit: "d < 10 \<Longrightarrow> (of_char (char_of (48 + d) :: char) :: nat) = 48 + d"
  by (simp add: of_char_of)

lemma digits_val_append: "digits_val (ds @ [c]) = 10 * digits_val ds + (of_char c - 48)"
  by (simp add: digits_val_def)

lemma show_nat_digits: "list_all is_digit (show_nat n) \<and> digits_val (show_nat n) = n \<and> show_nat n \<noteq> []"
proof (induction n rule: show_nat.induct)
  case (1 n)
  show ?case
  proof (cases "n < 10")
    case True
    then show ?thesis
      by (subst (1 2 3) show_nat.simps) (simp add: is_digit_def digits_val_def of_char_digit)
  next
    case False
    have m: "n mod 10 < 10" by simp
    have eq: "show_nat n = show_nat (n div 10) @ [char_of (48 + n mod 10)]" using False by (simp add: show_nat.simps)
    show ?thesis using 1 [OF False] unfolding eq
      by (simp add: digits_val_append of_char_digit [OF m] is_digit_def)
  qed
qed

lemma digit_chars: "is_digit c \<Longrightarrow> \<not> is_space c \<and> c \<noteq> CHR ''-'' \<and> c \<noteq> CHR ''+'' \<and> c \<noteq> CHR '':''"
  by (auto simp: is_digit_def is_space_def)

lemma stoi_show_nat:
  assumes "n \<le> 2147483647"
  shows "stoi (show_nat n) = Inr (int n)"
proof -
  obtain c r where s: "show_nat n = c # r" using show_nat_digits [of n] by (cases "show_nat n") auto
  have d: "list_all is_digit (c # r)" "digits_val (c # r) = n" using show_nat_digits [of n] by (simp_all add: s)
  then have "takeWhile is_digit (c # r) = c # r" by (simp add: list_all_iff takeWhile_eq_all_conv)
  moreover have "dropWhile is_space (c # r) = c # r" "c \<noteq> CHR ''-''" "c \<noteq> CHR ''+''"
    using d(1) digit_chars [of c] by simp_all
  ultimately show ?thesis using assms d(2) by (simp add: stoi_def s Let_def)
qed

lemma split_endpoint_print:
  assumes "CHR '':'' \<notin> set host"
  shows "split_endpoint (host @ CHR '':'' # port) = (host, port)"
proof -
  have "\<forall>c \<in> set host. c \<noteq> CHR '':''" using assms by blast
  then have "takeWhile (\<lambda>c. c \<noteq> CHR '':'') (host @ CHR '':'' # port) = host"
    "dropWhile (\<lambda>c. c \<noteq> CHR '':'') (host @ CHR '':'' # port) = CHR '':'' # port"
    by (simp_all add: takeWhile_append2 dropWhile_append2)
  then show ?thesis by (simp add: split_endpoint_def)
qed

lemma endpoint_roundtrip:
  assumes "CHR '':'' \<notin> set host" "p \<noteq> 0"
  shows "case split_endpoint (host @ '':'' @ show_nat (unat (p :: u16))) of (h, ps) \<Rightarrow>
    h = host \<and> rbind (stoi ps) (checked_port h) = Inr p"
proof -
  have "unat p < 2 ^ LENGTH(16)" by (rule unsigned_less)
  then have p: "unat p < 65536" by simp
  have "0 < unat p" using assms(2) by (simp add: unat_gt_0)
  moreover have "int (unat p) = uint p" by simp
  ultimately have "1 \<le> uint p" "uint p \<le> 65535" using p by linarith+
  then show ?thesis
    using p by (simp add: split_endpoint_print [OF assms(1)] stoi_show_nat checked_port_def)
qed

end
