(* ===== verification/Replica.thy ===== *)
theory Replica
  imports State_Machine State_Mgr Std_String
begin

section \<open>\<open>replica\<close>: one member of the cluster\<close>

text \<open>
  \<open>include/server/replica_config.h\<close>, \<open>include/server/log_level.h\<close> and \<open>src/server/replica.cpp\<close>: a
  replica owns the state machine, the state manager and the Raft server built from them. Messages
  on the console, the log directory and the SplinterDB log stream are not part of the model.
\<close>

datatype LogLevel = DISABLED | SYS | FATAL | ERROR | WARNING | INFO | DEBUG | TRACE | UNKNOWN

fun log_level_int :: "LogLevel \<Rightarrow> int" where
  "log_level_int DISABLED = - 1"
| "log_level_int SYS = 0"
| "log_level_int FATAL = 1"
| "log_level_int ERROR = 2"
| "log_level_int WARNING = 3"
| "log_level_int INFO = 4"
| "log_level_int DEBUG = 5"
| "log_level_int TRACE = 6"
| "log_level_int UNKNOWN = 99"

record ('dcfg, 'cfg) replica_config =
  cfg_server_id :: int
  cfg_raft_port :: u16
  cfg_client_port :: u16
  cfg_addr :: string
  cfg_asio_thread_pool_size :: u64
  cfg_snapshot_frequency :: int
  cfg_initialization_delay_ms :: u64
  cfg_initialization_retries :: u64
  cfg_raft_log_file :: "string option"
  cfg_log_level :: LogLevel
  cfg_display_level :: LogLevel
  cfg_splinterdb_log_file :: "string option"
  cfg_splinterdb_data_cfg :: 'dcfg
  cfg_splinterdb_cfg :: 'cfg
  cfg_return_method :: return_method_type

text \<open>\<open>with_data_cfg\<close> is the assignment of the \<open>data_cfg\<close> member of SplinterDB's configuration type.\<close>

definition replica_config_new :: "('cfg \<Rightarrow> 'dcfg \<Rightarrow> 'cfg) \<Rightarrow> 'dcfg \<Rightarrow> 'cfg \<Rightarrow> ('dcfg, 'cfg) replica_config" where
  "replica_config_new with_data_cfg splinterdb_data_cfg splinterdb_cfg = \<lparr>
     cfg_server_id = 0, cfg_raft_port = 25000, cfg_client_port = 25001, cfg_addr = ''localhost'',
     cfg_asio_thread_pool_size = 10, cfg_snapshot_frequency = 0, cfg_initialization_delay_ms = 250,
     cfg_initialization_retries = 20, cfg_raft_log_file = None, cfg_log_level = INFO,
     cfg_display_level = WARNING, cfg_splinterdb_log_file = None,
     cfg_splinterdb_data_cfg = splinterdb_data_cfg,
     cfg_splinterdb_cfg = with_data_cfg splinterdb_cfg splinterdb_data_cfg, cfg_return_method = Blocking\<rparr>"

definition get_return_method :: "('dcfg, 'cfg) replica_config \<Rightarrow> return_method_type" where
  "get_return_method cfg = cfg_return_method cfg"

text \<open>
  The Raft logger as the constructor sets it up: its file, the size of its ring of messages, and
  the two levels. The second argument of \<open>SimpleLogger\<close>'s constructor is the ring size, a
  \<open>size_t\<close>, and the code passes the log level there.
\<close>

record logger_setup =
  lg_file_path :: string
  lg_max_log_elems :: u64
  lg_log_level :: int
  lg_disp_level :: int

definition default_raft_params_init :: "raft_params \<Rightarrow> raft_params" where
  "default_raft_params_init params = params\<lparr>
     heart_beat_interval := 100, election_timeout_lower_bound := 300, election_timeout_upper_bound := 500,
     reserved_log_items := 1000000, client_req_timeout := 3000, return_method := Blocking,
     auto_forwarding := True\<rparr>"

record ('db, 'snp, 'mgr, 'rf, 'dcfg, 'cfg) replica =
  rp_config :: "('dcfg, 'cfg) replica_config"
  rp_server_id :: int
  rp_addr :: string
  rp_raft_port :: int
  rp_raft_endpoint :: string
  rp_client_endpoint :: string
  rp_logger :: logger_setup
  rp_sm :: "('db, 'snp) splinterdb_state_machine"
  rp_smgr :: 'mgr
  rp_raft_instance :: 'rf

text \<open>
  The waiting loop of \<open>initialize\<close>: \<open>i\<close> polls are done and \<open>k\<close> are left. The result is whether the
  Raft server became ready, and the milliseconds slept.
\<close>

fun init_loop :: "(nat \<Rightarrow> bool) \<Rightarrow> nat \<Rightarrow> nat \<Rightarrow> nat \<Rightarrow> bool \<times> nat" where
  "init_loop ready delay i 0 = (False, 0)"
| "init_loop ready delay i (Suc k) =
     (if ready i then (True, 0)
      else case init_loop ready delay (Suc i) k of (r, slept) \<Rightarrow> (r, delay + slept))"

definition init_params :: "('rf, 'rr, 'sc, 'b, 'sm, 'mgr) raft_api \<Rightarrow> ('dcfg, 'cfg) replica_config \<Rightarrow> raft_params" where
  "init_params R config = (default_raft_params_init (raft_params_new R))
     \<lparr>snapshot_distance := max 0 (cfg_snapshot_frequency config), return_method := get_return_method config\<rparr>"

definition replica_initialize :: "('rf, 'rr, 'sc, 'b, 'sm, 'mgr) raft_api \<Rightarrow> ('dcfg, 'cfg) replica_config \<Rightarrow>
    'sm \<Rightarrow> 'mgr \<Rightarrow> int \<Rightarrow> 'rf res" where
  "replica_initialize R config sm smgr raft_port =
     (case launcher_init R sm smgr raft_port (cfg_asio_thread_pool_size config) (init_params R config) of
        None \<Rightarrow> Inl (Exit (- 1))
      | Some raft_instance \<Rightarrow>
          if fst (init_loop (is_initialized R raft_instance) (unat (cfg_initialization_delay_ms config)) 0
                    (unat (cfg_initialization_retries config)))
          then Inr raft_instance else Inl (Exit (- 1)))"

definition replica_new :: "('b, 's, 'e, 'ea) nuraft \<Rightarrow> ('sc, 'cc, 'ss, 'cb) raft_conf_api \<Rightarrow>
    ('db, 'r, 'cfg) splinterdb_api \<Rightarrow>
    ('rf, 'rr, 'sc, 'b, ('db, 'snp) splinterdb_state_machine, ('sc, 'cc, 'ss, 'e, 'ea) inmem_state_mgr) raft_api \<Rightarrow>
    'ea \<Rightarrow> ('dcfg, 'cfg) replica_config \<Rightarrow>
    ('db, 'snp, ('sc, 'cc, 'ss, 'e, 'ea) inmem_state_mgr, 'rf, 'dcfg, 'cfg) replica res" where
  "replica_new N C D R ea config =
     (let raft_endpoint = cfg_addr config @ '':'' @ show_nat (unat (cfg_raft_port config));
          client_endpoint = cfg_addr config @ '':'' @ show_nat (unat (cfg_client_port config));
          server_id = cfg_server_id config;
          raft_port = int (unat (cfg_raft_port config))
      in if server_id = 0 then Inl (Invalid_argument ''server_id must be set'')
         else
           let raft_log_file_name =
                 (case cfg_raft_log_file config of Some f \<Rightarrow> f | None \<Rightarrow> ''.logs/srv-'' @ show_int server_id @ ''.log'');
               logger = \<lparr>lg_file_path = raft_log_file_name,
                         lg_max_log_elems = word_of_int (log_level_int (cfg_log_level config)),
                         lg_log_level = log_level_int (cfg_log_level config),
                         lg_disp_level = log_level_int (cfg_display_level config)\<rparr>
           in rbind (state_machine_new D (cfg_splinterdb_cfg config) (cfg_snapshot_frequency config \<le> 0)) (\<lambda>sm.
              let smgr = state_mgr_new N C ea server_id raft_endpoint client_endpoint
              in rbind (replica_initialize R config sm smgr raft_port) (\<lambda>raft_instance.
                 Inr \<lparr>rp_config = config, rp_server_id = server_id, rp_addr = cfg_addr config,
                      rp_raft_port = raft_port, rp_raft_endpoint = raft_endpoint,
                      rp_client_endpoint = client_endpoint, rp_logger = logger, rp_sm = sm, rp_smgr = smgr,
                      rp_raft_instance = raft_instance\<rparr>)))"

definition replica_shutdown :: "('rf, 'rr, 'sc, 'b, 'sm, 'mgr) raft_api \<Rightarrow> u64 \<Rightarrow>
    ('db, 'snp, 'mgr, 'rf, 'dcfg, 'cfg) replica \<Rightarrow> ('db, 'snp, 'mgr, 'rf, 'dcfg, 'cfg) replica" where
  "replica_shutdown R time_limit_sec rp =
     rp\<lparr>rp_raft_instance := launcher_shutdown R time_limit_sec (rp_raft_instance rp)\<rparr>"

definition on_spl_handle :: "('db \<Rightarrow> 'db) \<Rightarrow> ('db, 'snp, 'mgr, 'rf, 'dcfg, 'cfg) replica \<Rightarrow>
    ('db, 'snp, 'mgr, 'rf, 'dcfg, 'cfg) replica" where
  "on_spl_handle f rp = rp\<lparr>rp_sm := (rp_sm rp)\<lparr>spl_handle := f (spl_handle (rp_sm rp))\<rparr>\<rparr>"

definition register_thread :: "('db, 'r, 'cfg) splinterdb_api \<Rightarrow>
    ('db, 'snp, 'mgr, 'rf, 'dcfg, 'cfg) replica \<Rightarrow> ('db, 'snp, 'mgr, 'rf, 'dcfg, 'cfg) replica" where
  "register_thread D = on_spl_handle (splinterdb_register_thread D)"

definition dump_cache :: "('db, 'r, 'cfg) splinterdb_api \<Rightarrow>
    ('db, 'snp, 'mgr, 'rf, 'dcfg, 'cfg) replica \<Rightarrow> ('db, 'snp, 'mgr, 'rf, 'dcfg, 'cfg) replica" where
  "dump_cache D = on_spl_handle (splinterdb_print_cache D)"

definition clear_cache :: "('db, 'r, 'cfg) splinterdb_api \<Rightarrow>
    ('db, 'snp, 'mgr, 'rf, 'dcfg, 'cfg) replica \<Rightarrow> ('db, 'snp, 'mgr, 'rf, 'dcfg, 'cfg) replica" where
  "clear_cache D = on_spl_handle (splinterdb_clear_cache D)"

definition replica_read :: "('db, 'r, 'cfg) splinterdb_api \<Rightarrow> byte list \<Rightarrow>
    ('db, 'snp, 'mgr, 'rf, 'dcfg, 'cfg) replica \<Rightarrow> owned_slice \<times> i32" where
  "replica_read D key rp =
     (case splinterdb_lookup D (spl_handle (rp_sm rp)) key of (rc, result) \<Rightarrow>
        if rc \<noteq> 0 then (owned_slice_length 0, rc)
        else (case splinterdb_lookup_result_value D result of (rc, val) \<Rightarrow>
                if rc \<noteq> 0 then (owned_slice_length 0, rc) else (owned_slice_slice val, rc)))"

definition replica_add_server :: "('sc, 'cc, 'ss, 'cb) raft_conf_api \<Rightarrow> ('rf, 'rr, 'sc, 'b, 'sm, 'mgr) raft_api \<Rightarrow>
    int \<Rightarrow> string \<Rightarrow> string \<Rightarrow> (('db, 'snp, 'mgr, 'rf, 'dcfg, 'cfg) replica, int \<times> string) act" where
  "replica_add_server C R server_id raft_endpoint client_endpoint rp =
     (case add_srv R (srv_config_new C server_id 0 raft_endpoint client_endpoint False) (rp_raft_instance rp) of
        (ret, rf) \<Rightarrow>
          (rbind (deref ret) (\<lambda>ret. Inr (get_result_code R ret, get_result_str R ret)),
           rp\<lparr>rp_raft_instance := rf\<rparr>))"

text \<open>
  \<open>append_log\<close>: the serialized operation goes to the Raft server, which may commit to the state
  machine before it returns. Any other return method than blocking throws, after the append.
\<close>

definition append_log :: "('b, 's, 'z) buffer_api_scheme \<Rightarrow>
    ('rf, 'rr, 'sc, 'b, ('db, 'snp) splinterdb_state_machine, 'mgr) raft_api \<Rightarrow> splinterdb_operation \<Rightarrow>
    (('db, 'snp, 'mgr, 'rf, 'dcfg, 'cfg) replica, 'rr ptr) act" where
  "append_log N R op rp =
     (case op_serialize N op of
        Inl e \<Rightarrow> (Inl e, rp)
      | Inr new_log \<Rightarrow>
          (case append_entries R [new_log] (rp_raft_instance rp, rp_sm rp) of (ret, rf, sm) \<Rightarrow>
             (let rp = rp\<lparr>rp_raft_instance := rf, rp_sm := sm\<rparr>
              in if get_return_method (rp_config rp) = Blocking then (Inr ret, rp)
                 else (Inl (Runtime_error ''async handler not implemented''), rp))))"

definition get_id :: "('db, 'snp, 'mgr, 'rf, 'dcfg, 'cfg) replica \<Rightarrow> int" where
  "get_id rp = rp_server_id rp"

definition get_leader :: "('rf, 'rr, 'sc, 'b, 'sm, 'mgr) raft_api \<Rightarrow> ('db, 'snp, 'mgr, 'rf, 'dcfg, 'cfg) replica \<Rightarrow> int" where
  "get_leader R rp = rf_get_leader R (rp_raft_instance rp)"

definition get_server_info :: "('rf, 'rr, 'sc, 'b, 'sm, 'mgr) raft_api \<Rightarrow> int \<Rightarrow>
    ('db, 'snp, 'mgr, 'rf, 'dcfg, 'cfg) replica \<Rightarrow> 'sc ptr" where
  "get_server_info R server_id rp = get_srv_config R (rp_raft_instance rp) server_id"

definition rp_get_all_servers :: "('rf, 'rr, 'sc, 'b, 'sm, 'mgr) raft_api \<Rightarrow>
    ('db, 'snp, 'mgr, 'rf, 'dcfg, 'cfg) replica \<Rightarrow> 'sc list" where
  "rp_get_all_servers R rp = get_srv_config_all R (rp_raft_instance rp)"

subsection \<open>Waiting for the Raft server\<close>

lemma init_loop_ready: "fst (init_loop ready delay i k) \<longleftrightarrow> (\<exists>j < k. ready (i + j))"
proof (induction k arbitrary: i)
  case (Suc k)
  have "(\<exists>j < Suc k. ready (i + j)) \<longleftrightarrow> ready i \<or> (\<exists>j < k. ready (Suc i + j))"
    by (auto simp: less_Suc_eq_0_disj)
  then show ?case using Suc.IH [of "Suc i"] by (auto split: prod.splits)
qed simp

lemma init_loop_slept: "snd (init_loop ready delay i k) \<le> delay * k"
proof (induction k arbitrary: i)
  case (Suc k)
  obtain r t where "init_loop ready delay (Suc i) k = (r, t)" by force
  then show ?case using Suc.IH [of "Suc i"] by simp
qed simp

lemma replica_initialize_ready:
  "replica_initialize R config sm smgr port = Inr rf \<longleftrightarrow>
     launcher_init R sm smgr port (cfg_asio_thread_pool_size config) (init_params R config) = Some rf \<and>
     (\<exists>j < unat (cfg_initialization_retries config). is_initialized R rf j)"
  by (auto simp: replica_initialize_def init_loop_ready split: option.splits if_splits)

lemma replica_new_spec:
  fixes R :: "('rf, 'rr, 'sc, 'b, ('db, 'snp) splinterdb_state_machine, ('sc, 'cc, 'ss, 'e, 'ea) inmem_state_mgr) raft_api"
  assumes "conf_laws C" "kv_laws D kv mg" "replica_new N C D R ea cfg = Inr rp"
  shows "get_id rp = cfg_server_id cfg \<and> cfg_server_id cfg \<noteq> 0 \<and>
    kv (spl_handle (rp_sm rp)) = Map.empty \<and> last_commit_index (rp_sm rp) = 0 \<and>
    (\<exists>j < unat (cfg_initialization_retries cfg). is_initialized R (rp_raft_instance rp) j) \<and>
    snd (init_loop (is_initialized R (rp_raft_instance rp)) (unat (cfg_initialization_delay_ms cfg)) 0
      (unat (cfg_initialization_retries cfg))) \<le>
      unat (cfg_initialization_delay_ms cfg) * unat (cfg_initialization_retries cfg) \<and>
    config_view C (load_config (rp_smgr rp)) = [(cfg_server_id cfg, rp_raft_endpoint rp, rp_client_endpoint rp)]"
proof -
  have self: "config_view C (load_config (state_mgr_new N C ea i rep cep)) = [(i, rep, cep)]" for i rep cep
    using assms(1) by (simp add: state_mgr_new_def Let_def load_config_def config_view_def conf_laws_def)
  obtain rc db where c: "splinterdb_create D (cfg_splinterdb_cfg cfg) = (rc, db)" by force
  have "cfg_server_id cfg \<noteq> 0" "rc = 0" "spl_handle (rp_sm rp) = db" "last_committed_idx (rp_sm rp) = 0"
    "\<exists>j < unat (cfg_initialization_retries cfg). is_initialized R (rp_raft_instance rp) j"
    "rp_server_id rp = cfg_server_id cfg"
    "rp_smgr rp = state_mgr_new N C ea (cfg_server_id cfg) (rp_raft_endpoint rp) (rp_client_endpoint rp)"
    using assms(3) c by (auto simp: replica_new_def Let_def state_machine_new_def rbind_eq_Inr replica_initialize_ready
        split: if_splits)
  then show ?thesis using self kv_create [OF assms(2)] c init_loop_slept
    by (simp add: get_id_def last_commit_index_def)
qed


subsection \<open>Reading\<close>

text \<open>
  Reading a key from a replica returns the value the store's map has for it and code 0, or a
  code other than 0 and the empty slice when the map has none; reading changes nothing.
\<close>

lemma replica_read_map:
  assumes "kv_laws D kv mg" "never_fails D"
  shows "case kv (spl_handle (rp_sm rp)) key of
      Some v \<Rightarrow> replica_read D key rp = (owned_slice_slice v, 0)
    | None \<Rightarrow> \<exists>rc. rc \<noteq> 0 \<and> replica_read D key rp = (owned_slice_length 0, rc)"
proof -
  obtain rc r where l: "splinterdb_lookup D (spl_handle (rp_sm rp)) key = (rc, r)" by force
  have "rc = 0" by (rule never_fails_rc(4) [OF assms(2) l])
  with l have l0: "splinterdb_lookup D (spl_handle (rp_sm rp)) key = (0, r)" by simp
  show ?thesis
  proof (cases "kv (spl_handle (rp_sm rp)) key")
    case None
    then show ?thesis using kv_lookup_None [OF assms(1) l0] l0
      by (auto simp: replica_read_def split: prod.splits)
  next
    case (Some v)
    then show ?thesis using kv_lookup_Some [OF assms(1) l0] l0 by (simp add: replica_read_def)
  qed
qed

subsection \<open>A concrete Raft server\<close>

text \<open>
  Whether the server leads, the leader it knows and its log. A leader commits an entry to the state
  machine at the next index as soon as it is appended; a server that does not lead answers that it is
  not the leader. It serves the witnesses.
\<close>

type_synonym rsm = "(rdb, unit) splinterdb_state_machine"
type_synonym rmgr = "(rsc, rsc list, u64 \<times> int, rentry, bool) inmem_state_mgr"
type_synonym rresult = "bool \<times> int \<times> string \<times> rbuf option"

type_synonym rraft = "bool \<times> int \<times> rbuf list"

definition ref_append :: "rbuf list \<Rightarrow> rraft \<times> rsm \<Rightarrow> rresult ptr \<times> (rraft \<times> rsm)" where
  "ref_append bs = (\<lambda>((leads, l, log), sm).
     if \<not> leads then (Some (False, - 3, ''not leader'', None), ((leads, l, log), sm))
     else case sm_commit ref_nuraft ref_splinterdb (word_of_nat (Suc (length log))) (hd bs) sm of
       (Inr out, sm) \<Rightarrow> (Some (True, 0, ''Ok'', Some out), ((leads, l, log @ [hd bs]), sm))
     | (Inl _, sm) \<Rightarrow> (Some (False, - 4, ''failed'', None), ((leads, l, log), sm)))"

definition ref_raft :: "(rraft, rresult, rsc, rbuf, rsm, rmgr) raft_api" where
  "ref_raft = \<lparr>
     raft_params_new = \<lparr>heart_beat_interval = 0, election_timeout_lower_bound = 0, election_timeout_upper_bound = 0,
       reserved_log_items = 0, client_req_timeout = 0, return_method = Blocking, auto_forwarding = False,
       snapshot_distance = 0\<rparr>,
     launcher_init = (\<lambda>_ _ _ _ _. Some (True, 1, [])), launcher_shutdown = (\<lambda>_ rf. rf), is_initialized = (\<lambda>_ j. 2 \<le> j),
     append_entries = ref_append, add_srv = (\<lambda>_ rf. (Some (False, - 3, ''not leader'', None), rf)),
     rf_get_leader = (\<lambda>rf. fst (snd rf)), get_srv_config = (\<lambda>_ i. if i = 1 then Some (1, ''a:1'', ''a:2'') else None),
     get_srv_config_all = (\<lambda>_. [(1, ''a:1'', ''a:2'')]),
     get_accepted = fst, get_result_code = (\<lambda>r. fst (snd r)), get_result_str = (\<lambda>r. fst (snd (snd r))),
     has_result = (\<lambda>r. snd (snd (snd r)) \<noteq> None), rr_get = (\<lambda>r. snd (snd (snd r)))\<rparr>"

definition demo_config :: "(unit, unit) replica_config" where
  "demo_config = (replica_config_new (\<lambda>_ _. ()) () ())\<lparr>cfg_server_id := 1\<rparr>"

type_synonym rreplica = "(rdb, unit, rmgr, rraft, unit, unit) replica"

definition demo_replica :: "rreplica res" where
  "demo_replica = replica_new ref_nuraft ref_conf ref_splinterdb ref_raft False demo_config"

lemma ref_replica_new:
  assumes "cfg_server_id cfg \<noteq> 0" "2 < unat (cfg_initialization_retries cfg)"
  shows "\<exists>rp :: rreplica. replica_new ref_nuraft ref_conf ref_splinterdb ref_raft False cfg = Inr rp \<and>
    rp_config rp = cfg \<and> spl_handle (rp_sm rp) = [] \<and> rp_raft_instance rp = (True, 1, [])"
proof -
  have l: "launcher_init ref_raft sm mgr p n q = Some (True, 1, [])" for sm mgr p n q by (simp add: ref_raft_def)
  have "is_initialized ref_raft (True, 1, []) 2" by (simp add: ref_raft_def)
  then have i: "replica_initialize ref_raft cfg sm mgr p = Inr (True, 1, [])" for sm mgr p
    unfolding replica_initialize_ready l using assms(2) by blast
  have c: "splinterdb_create ref_splinterdb x = (0, [])" for x by (simp add: ref_splinterdb_def)
  show ?thesis using assms(1) by (simp add: replica_new_def Let_def state_machine_new_def c i)
qed

lemma demo_replica_ok: "\<exists>rp. demo_replica = Inr rp \<and> rp_config rp = demo_config \<and> rp_raft_instance rp = (True, 1, [])"
proof -
  have "cfg_server_id demo_config \<noteq> 0" "2 < unat (cfg_initialization_retries demo_config)"
    by (simp_all add: demo_config_def replica_config_new_def)
  from ref_replica_new [OF this] show ?thesis unfolding demo_replica_def by blast
qed


end
