(* ===== verification/Rpc.thy ===== *)
theory Rpc
  imports Prelude
begin

section \<open>The remote procedure calls and their results\<close>

text \<open>
  \<open>include/common/types.h\<close>, \<open>src/common/types.cpp\<close> and \<open>include/common/rpc.h\<close>: what clients and
  servers say to each other. A request is the name of a procedure with its arguments, and a
  response one of the result types that the handlers return.
\<close>

type_synonym splinterdb_return_code = i32
type_synonym nuraft_return_code = int
type_synonym nuraft_return_msg = string
type_synonym rpc_read_result = "byte list \<times> splinterdb_return_code"
type_synonym rpc_mutation_result = "splinterdb_return_code \<times> nuraft_return_code \<times> nuraft_return_msg"

definition is_success :: "rpc_mutation_result \<Rightarrow> bool" where
  "is_success result \<longleftrightarrow> fst result = 0 \<and> fst (snd result) = 0"

definition get_nuraft_return_code :: "rpc_mutation_result \<Rightarrow> nuraft_return_code" where
  "get_nuraft_return_code result = fst (snd result)"

definition was_accepted :: "rpc_mutation_result \<Rightarrow> bool" where
  "was_accepted result \<longleftrightarrow> get_nuraft_return_code result = 0"

datatype rpc_request =
    Join_replica_group int string string
  | Ping
  | Get_srv_id
  | Get_leader_id
  | Get_all_servers
  | Get_srv_endpoint int
  | Splinterdb_get "byte list"
  | Splinterdb_put "byte list" "byte list"
  | Splinterdb_update "byte list" "byte list"
  | Splinterdb_delete "byte list"
  | Splinterdb_dumpcache
  | Splinterdb_clearcache

datatype rpc_response =
    Text string
  | Number int
  | Flag bool
  | Servers "(int \<times> string) list"
  | Read rpc_read_result
  | Mutation rpc_mutation_result
  | Joined int string

fun rpc_name :: "rpc_request \<Rightarrow> string" where
  "rpc_name (Join_replica_group _ _ _) = ''join_replica_group''"
| "rpc_name Ping = ''ping''"
| "rpc_name Get_srv_id = ''get_srv_id''"
| "rpc_name Get_leader_id = ''get_leader_id''"
| "rpc_name Get_all_servers = ''get_all_servers''"
| "rpc_name (Get_srv_endpoint _) = ''get_srv_endpoint''"
| "rpc_name (Splinterdb_get _) = ''splinterdb_get''"
| "rpc_name (Splinterdb_put _ _) = ''splinterdb_put''"
| "rpc_name (Splinterdb_update _ _) = ''splinterdb_update''"
| "rpc_name (Splinterdb_delete _) = ''splinterdb_delete''"
| "rpc_name Splinterdb_dumpcache = ''splinterdb_dumpcache''"
| "rpc_name Splinterdb_clearcache = ''splinterdb_clearcache''"

text \<open>\<open>.as<T>()\<close> on a response: a value of another type cannot be converted and throws.\<close>

definition bad_cast :: exn where
  "bad_cast = Rpc_error ''std::bad_cast''"

fun as_text :: "rpc_response \<Rightarrow> string res" where
  "as_text (Text s) = Inr s" | "as_text _ = Inl bad_cast"

fun as_number :: "rpc_response \<Rightarrow> int res" where
  "as_number (Number i) = Inr i" | "as_number _ = Inl bad_cast"

fun as_flag :: "rpc_response \<Rightarrow> bool res" where
  "as_flag (Flag b) = Inr b" | "as_flag _ = Inl bad_cast"

fun as_servers :: "rpc_response \<Rightarrow> (int \<times> string) list res" where
  "as_servers (Servers s) = Inr s" | "as_servers _ = Inl bad_cast"

fun as_read :: "rpc_response \<Rightarrow> rpc_read_result res" where
  "as_read (Read r) = Inr r" | "as_read _ = Inl bad_cast"

fun as_mutation :: "rpc_response \<Rightarrow> rpc_mutation_result res" where
  "as_mutation (Mutation r) = Inr r" | "as_mutation _ = Inl bad_cast"

fun as_joined :: "rpc_response \<Rightarrow> (int \<times> string) res" where
  "as_joined (Joined rc msg) = Inr (rc, msg)" | "as_joined _ = Inl bad_cast"

lemma std_exception_bad_cast [simp]: "std_exception bad_cast"
  by (simp add: bad_cast_def)

end
