(* ===== verification/Server.thy ===== *)
theory Server
  imports Replica Rpc
begin

section \<open>\<open>server\<close>: the handlers of the remote procedure calls\<close>

text \<open>
  \<open>src/server/server.cpp\<close>: a server holds a replica and binds one handler per procedure, all on
  the client port but the one for joining, which is bound on the join port. rpclib is a git
  submodule: its dispatch by procedure name is the \<open>case\<close> of the two \<open>dispatch\<close> functions, and
  an exception or an error response of a handler is the result \<open>Inl\<close>.
\<close>

record ('db, 'snp, 'mgr, 'rf, 'dcfg, 'cfg) server =
  replica_instance :: "('db, 'snp, 'mgr, 'rf, 'dcfg, 'cfg) replica"
  client_port :: u16
  join_port :: u16

definition server_new :: "('b, 's, 'e, 'ea) nuraft \<Rightarrow> ('sc, 'cc, 'ss, 'cb) raft_conf_api \<Rightarrow>
    ('db, 'r, 'cfg) splinterdb_api \<Rightarrow>
    ('rf, 'rr, 'sc, 'b, ('db, 'snp) splinterdb_state_machine, ('sc, 'cc, 'ss, 'e, 'ea) inmem_state_mgr) raft_api \<Rightarrow>
    'ea \<Rightarrow> u16 \<Rightarrow> u16 \<Rightarrow> ('dcfg, 'cfg) replica_config \<Rightarrow>
    ('db, 'snp, ('sc, 'cc, 'ss, 'e, 'ea) inmem_state_mgr, 'rf, 'dcfg, 'cfg) server res" where
  "server_new N C D R ea cport jport cfg =
     rbind (replica_new N C D R ea cfg) (\<lambda>rp.
       Inr \<lparr>replica_instance = rp, client_port = cport, join_port = jport\<rparr>)"

text \<open>The function that every worker thread of the client port runs first.\<close>

definition worker_init :: "('db, 'r, 'cfg) splinterdb_api \<Rightarrow> ('db, 'snp, 'mgr, 'rf, 'dcfg, 'cfg) server \<Rightarrow>
    ('db, 'snp, 'mgr, 'rf, 'dcfg, 'cfg) server" where
  "worker_init D s = s\<lparr>replica_instance := register_thread D (replica_instance s)\<rparr>"

definition server_destroy :: "('rf, 'rr, 'sc, 'b, 'sm, 'mgr) raft_api \<Rightarrow>
    ('db, 'snp, 'mgr, 'rf, 'dcfg, 'cfg) server \<Rightarrow> ('db, 'snp, 'mgr, 'rf, 'dcfg, 'cfg) server" where
  "server_destroy R s = s\<lparr>replica_instance := replica_shutdown R 5 (replica_instance s)\<rparr>"

definition extract_result :: "('b, 's, 'z) buffer_api_scheme \<Rightarrow> ('rf, 'rr, 'sc, 'b, 'sm, 'mgr) raft_api \<Rightarrow>
    'rr ptr \<Rightarrow> rpc_mutation_result res" where
  "extract_result N R result =
     rbind (deref result) (\<lambda>r.
       if \<not> get_accepted R r then Inr (0, get_result_code R r, get_result_str R r)
       else if \<not> has_result R r then Inr (0, get_result_code R r, get_result_str R r)
       else (case rr_get R r of
               Some buf \<Rightarrow> rbind (get_int N buf) (\<lambda>(spl_rc, buf).
                 Inr (spl_rc, get_result_code R r, get_result_str R r))
             | None \<Rightarrow> Inr (0, get_result_code R r, get_result_str R r)))"

text \<open>The handler for joining the cluster.\<close>

definition handle_join :: "('sc, 'cc, 'ss, 'cb) raft_conf_api \<Rightarrow> ('rf, 'rr, 'sc, 'b, 'sm, 'mgr) raft_api \<Rightarrow>
    int \<Rightarrow> string \<Rightarrow> string \<Rightarrow> (('db, 'snp, 'mgr, 'rf, 'dcfg, 'cfg) server, rpc_response) act" where
  "handle_join C R server_id raft_endpoint client_endpoint s =
     (case replica_add_server C R server_id raft_endpoint client_endpoint (replica_instance s) of
        (res, rp) \<Rightarrow> (rbind res (\<lambda>(rc, msg). Inr (Joined rc msg)), s\<lparr>replica_instance := rp\<rparr>))"

definition handle_dumpcache :: "('db, 'r, 'cfg) splinterdb_api \<Rightarrow>
    (('db, 'snp, 'mgr, 'rf, 'dcfg, 'cfg) server, rpc_response) act" where
  "handle_dumpcache D s = (Inr (Flag True), s\<lparr>replica_instance := dump_cache D (replica_instance s)\<rparr>)"

definition handle_clearcache :: "('db, 'r, 'cfg) splinterdb_api \<Rightarrow>
    (('db, 'snp, 'mgr, 'rf, 'dcfg, 'cfg) server, rpc_response) act" where
  "handle_clearcache D s = (Inr (Flag True), s\<lparr>replica_instance := clear_cache D (replica_instance s)\<rparr>)"

definition handle_ping :: "rpc_response" where
  "handle_ping = Text ''pong''"

definition handle_get_srv_id :: "('db, 'snp, 'mgr, 'rf, 'dcfg, 'cfg) server \<Rightarrow> rpc_response" where
  "handle_get_srv_id s = Number (get_id (replica_instance s))"

definition handle_get_leader_id :: "('rf, 'rr, 'sc, 'b, 'sm, 'mgr) raft_api \<Rightarrow>
    ('db, 'snp, 'mgr, 'rf, 'dcfg, 'cfg) server \<Rightarrow> rpc_response" where
  "handle_get_leader_id R s = Number (get_leader R (replica_instance s))"

definition handle_get_all_servers :: "('sc, 'cc, 'ss, 'cb) raft_conf_api \<Rightarrow> ('rf, 'rr, 'sc, 'b, 'sm, 'mgr) raft_api \<Rightarrow>
    ('db, 'snp, 'mgr, 'rf, 'dcfg, 'cfg) server \<Rightarrow> rpc_response" where
  "handle_get_all_servers C R s =
     Servers (map (\<lambda>srv. (sc_get_id C srv, sc_get_aux C srv)) (rp_get_all_servers R (replica_instance s)))"

definition handle_get_srv_endpoint :: "('sc, 'cc, 'ss, 'cb) raft_conf_api \<Rightarrow> ('rf, 'rr, 'sc, 'b, 'sm, 'mgr) raft_api \<Rightarrow>
    int \<Rightarrow> ('db, 'snp, 'mgr, 'rf, 'dcfg, 'cfg) server \<Rightarrow> rpc_response res" where
  "handle_get_srv_endpoint C R server_id s =
     (case get_server_info R server_id (replica_instance s) of
        Some srv \<Rightarrow> Inr (Text (sc_get_aux C srv))
      | None \<Rightarrow> Inl (Rpc_error ''Invalid server id''))"

definition handle_get :: "('db, 'r, 'cfg) splinterdb_api \<Rightarrow> byte list \<Rightarrow>
    ('db, 'snp, 'mgr, 'rf, 'dcfg, 'cfg) server \<Rightarrow> rpc_read_result" where
  "handle_get D key s =
     (case replica_read D key (replica_instance s) of (sl, rc) \<Rightarrow>
        if rc = 0 then (fst (take_data sl), 0) else ([], rc))"

text \<open>The common part of the three mutating handlers: append the operation and extract the result.\<close>

definition append_and_extract :: "('b, 's, 'z) buffer_api_scheme \<Rightarrow>
    ('rf, 'rr, 'sc, 'b, ('db, 'snp) splinterdb_state_machine, 'mgr) raft_api \<Rightarrow> splinterdb_operation \<Rightarrow>
    (('db, 'snp, 'mgr, 'rf, 'dcfg, 'cfg) server, rpc_mutation_result) act" where
  "append_and_extract N R op s =
     (case append_log N R op (replica_instance s) of (res, rp) \<Rightarrow>
        (rbind res (extract_result N R), s\<lparr>replica_instance := rp\<rparr>))"

definition handle_put :: "('b, 's, 'z) buffer_api_scheme \<Rightarrow>
    ('rf, 'rr, 'sc, 'b, ('db, 'snp) splinterdb_state_machine, 'mgr) raft_api \<Rightarrow> byte list \<Rightarrow> byte list \<Rightarrow>
    (('db, 'snp, 'mgr, 'rf, 'dcfg, 'cfg) server, rpc_mutation_result) act" where
  "handle_put N R key val = append_and_extract N R (make_put (owned_slice_vector key) (owned_slice_vector val))"

definition handle_delete :: "('b, 's, 'z) buffer_api_scheme \<Rightarrow>
    ('rf, 'rr, 'sc, 'b, ('db, 'snp) splinterdb_state_machine, 'mgr) raft_api \<Rightarrow> byte list \<Rightarrow>
    (('db, 'snp, 'mgr, 'rf, 'dcfg, 'cfg) server, rpc_mutation_result) act" where
  "handle_delete N R key = append_and_extract N R (make_delete (owned_slice_vector key))"

text \<open>The update handler builds a put operation, as the code does.\<close>

definition handle_update :: "('b, 's, 'z) buffer_api_scheme \<Rightarrow>
    ('rf, 'rr, 'sc, 'b, ('db, 'snp) splinterdb_state_machine, 'mgr) raft_api \<Rightarrow> byte list \<Rightarrow> byte list \<Rightarrow>
    (('db, 'snp, 'mgr, 'rf, 'dcfg, 'cfg) server, rpc_mutation_result) act" where
  "handle_update N R key val = append_and_extract N R (make_put (owned_slice_vector key) (owned_slice_vector val))"

text \<open>The procedures bound on the client port and on the join port.\<close>

definition as_response :: "('s, rpc_mutation_result) act \<Rightarrow> ('s, rpc_response) act" where
  "as_response m = abind m (\<lambda>r s. (Inr (Mutation r), s))"

definition client_dispatch :: "('b, 's, 'z) buffer_api_scheme \<Rightarrow> ('sc, 'cc, 'ss, 'cb) raft_conf_api \<Rightarrow>
    ('db, 'r, 'cfg) splinterdb_api \<Rightarrow>
    ('rf, 'rr, 'sc, 'b, ('db, 'snp) splinterdb_state_machine, 'mgr) raft_api \<Rightarrow> rpc_request \<Rightarrow>
    (('db, 'snp, 'mgr, 'rf, 'dcfg, 'cfg) server, rpc_response) act" where
  "client_dispatch N C D R req s =
     (case req of
        Splinterdb_dumpcache \<Rightarrow> handle_dumpcache D s
      | Splinterdb_clearcache \<Rightarrow> handle_clearcache D s
      | Ping \<Rightarrow> (Inr handle_ping, s)
      | Get_srv_id \<Rightarrow> (Inr (handle_get_srv_id s), s)
      | Get_leader_id \<Rightarrow> (Inr (handle_get_leader_id R s), s)
      | Get_all_servers \<Rightarrow> (Inr (handle_get_all_servers C R s), s)
      | Get_srv_endpoint server_id \<Rightarrow> (handle_get_srv_endpoint C R server_id s, s)
      | Splinterdb_get key \<Rightarrow> (Inr (Read (handle_get D key s)), s)
      | Splinterdb_put key val \<Rightarrow> as_response (handle_put N R key val) s
      | Splinterdb_delete key \<Rightarrow> as_response (handle_delete N R key) s
      | Splinterdb_update key val \<Rightarrow> as_response (handle_update N R key val) s
      | Join_replica_group _ _ _ \<Rightarrow> (Inl (Rpc_error ''unknown function''), s))"

definition join_dispatch :: "('sc, 'cc, 'ss, 'cb) raft_conf_api \<Rightarrow> ('rf, 'rr, 'sc, 'b, 'sm, 'mgr) raft_api \<Rightarrow> rpc_request \<Rightarrow>
    (('db, 'snp, 'mgr, 'rf, 'dcfg, 'cfg) server, rpc_response) act" where
  "join_dispatch C R req s =
     (case req of
        Join_replica_group server_id raft_endpoint client_endpoint \<Rightarrow>
          handle_join C R server_id raft_endpoint client_endpoint s
      | _ \<Rightarrow> (Inl (Rpc_error ''unknown function''), s))"

subsection \<open>Results\<close>

text \<open>
  C31. What a mutating call reports: always the Raft result code and message, and as the store's
  code the one in the result buffer when the append was accepted and has a result, otherwise 0. So
  a client is told of success exactly when Raft's code is 0 and the store did not report an error;
  an accepted append whose result is missing also counts as success.
\<close>

theorem extract_result_reports:
  assumes "buffer_laws N e64 e32"
    and "\<And>buf. rr_get R r = Some buf \<Longrightarrow> buf_unread N buf (e32 rc)"
  shows "\<exists>res. extract_result N R (Some r) = Inr res \<and>
    get_nuraft_return_code res = get_result_code R r \<and> snd (snd res) = get_result_str R r \<and>
    (is_success res \<longleftrightarrow> get_result_code R r = 0 \<and>
      (get_accepted R r \<and> has_result R r \<and> rr_get R r \<noteq> None \<longrightarrow> rc = 0))"
proof (cases "get_accepted R r \<and> has_result R r \<and> rr_get R r \<noteq> None")
  case True
  then obtain buf where buf: "rr_get R r = Some buf" by blast
  have "buf_unread N buf (e32 rc @ [])" using assms(2) [OF buf] by simp
  from buf_get_int [OF assms(1) this] obtain b' where "get_int N buf = Inr (rc, b')" by blast
  then show ?thesis using True buf by (auto simp: extract_result_def get_nuraft_return_code_def is_success_def)
next
  case False
  then show ?thesis
    by (auto simp: extract_result_def get_nuraft_return_code_def is_success_def)
qed

theorem extract_result_reports_witness:
  "\<exists>res. extract_result ref_nuraft ref_raft (Some (True, 0, ''Ok'', Some (i32_bytes 0, 0))) = Inr res \<and> is_success res"
proof -
  have u: "\<And>buf. rr_get ref_raft (True, 0, ''Ok'', Some (i32_bytes 0, 0)) = Some buf \<Longrightarrow> buf_unread ref_nuraft buf (i32_bytes 0)"
    by (simp add: ref_raft_def unread_def ref_nuraft_def)
  obtain res where "extract_result ref_nuraft ref_raft (Some (True, 0, ''Ok'', Some (i32_bytes 0, 0))) = Inr res"
    "is_success res \<longleftrightarrow> get_result_code ref_raft (True, 0, ''Ok'', Some (i32_bytes 0, 0)) = 0 \<and>
      (get_accepted ref_raft (True, 0, ''Ok'', Some (i32_bytes 0, 0)) \<and> has_result ref_raft (True, 0, ''Ok'', Some (i32_bytes 0, 0)) \<and>
       rr_get ref_raft (True, 0, ''Ok'', Some (i32_bytes 0, 0)) \<noteq> None \<longrightarrow> (0 :: i32) = 0)"
    using extract_result_reports [where R = ref_raft and r = "(True, 0, ''Ok'', Some (i32_bytes 0, 0))", OF ref_buffer_laws u]
    by metis
  then show ?thesis by (auto simp: ref_raft_def)
qed

subsection \<open>Mutations on the leader\<close>

text \<open>
  What blocking mode promises of the Raft server of a leader (the comment in \<open>append_log\<close>): the
  call returns after the entry was committed to the state machine, accepted and with result code 0,
  and holds the buffer that the commit returned.
\<close>

definition leader_commits :: "('b, 's, 'z) buffer_api_scheme \<Rightarrow> ('db, 'r, 'cfg) splinterdb_api \<Rightarrow>
    ('rf, 'rr, 'sc, 'b, ('db, 'snp) splinterdb_state_machine, 'mgr) raft_api \<Rightarrow> 'rf \<Rightarrow>
    ('db, 'snp) splinterdb_state_machine \<Rightarrow> bool" where
  "leader_commits N D R rf sm \<longleftrightarrow>
     (\<exists>i. \<forall>b out sm'. sm_commit N D i b sm = (Inr out, sm') \<longrightarrow>
        (\<exists>r rf'. append_entries R [b] (rf, sm) = (Some r, rf', sm') \<and> get_accepted R r \<and>
           get_result_code R r = 0 \<and> has_result R r \<and> rr_get R r = Some out))"

text \<open>The key-value map that a server serves.\<close>

definition srv_kv :: "('db \<Rightarrow> kvmap) \<Rightarrow> ('db, 'snp, 'mgr, 'rf, 'dcfg, 'cfg) server \<Rightarrow> kvmap" where
  "srv_kv kv s = kv (spl_handle (rp_sm (replica_instance s)))"

definition srv_leads :: "('b, 's, 'z) buffer_api_scheme \<Rightarrow> ('db, 'r, 'cfg) splinterdb_api \<Rightarrow>
    ('rf, 'rr, 'sc, 'b, ('db, 'snp) splinterdb_state_machine, 'mgr) raft_api \<Rightarrow>
    ('db, 'snp, 'mgr, 'rf, 'dcfg, 'cfg) server \<Rightarrow> bool" where
  "srv_leads N D R s \<longleftrightarrow>
     cfg_return_method (rp_config (replica_instance s)) = Blocking \<and>
     leader_commits N D R (rp_raft_instance (replica_instance s)) (rp_sm (replica_instance s))"

lemma append_and_extract_run:
  assumes laws: "buffer_laws N e64 e32" "serializer_laws N e64 e32" "kv_laws D kv mg" "never_fails D"
    and op: "op_ok op" "op_known op" and leads: "srv_leads N D R s"
  shows "\<exists>res s' b r rf' sm'. append_and_extract N R op s = (Inr res, s') \<and> is_success res \<and>
    srv_kv kv s' = kv_apply mg op (srv_kv kv s) \<and> data_begin N b = op_wire e64 op \<and> get_accepted R r \<and>
    append_entries R [b] (rp_raft_instance (replica_instance s), rp_sm (replica_instance s)) = (Some r, rf', sm') \<and>
    s' = s\<lparr>replica_instance := (replica_instance s)\<lparr>rp_raft_instance := rf', rp_sm := sm'\<rparr>\<rparr>"
proof -
  let ?rp = "replica_instance s"
  obtain b where b: "op_serialize N op = Inr b" "data_begin N b = op_wire e64 op"
    using op_serialize_wire [OF laws(1,2) op(1)] by blast
  obtain i where i: "\<And>b out sm'. sm_commit N D i b (rp_sm ?rp) = (Inr out, sm') \<Longrightarrow>
      \<exists>r rf'. append_entries R [b] (rp_raft_instance ?rp, rp_sm ?rp) = (Some r, rf', sm') \<and> get_accepted R r \<and>
        get_result_code R r = 0 \<and> has_result R r \<and> rr_get R r = Some out"
    using leads unfolding srv_leads_def leader_commits_def by blast
  obtain rc out sm' b' where c: "sm_commit N D i b (rp_sm ?rp) = (Inr out, sm')" "get_int N out = Inr (rc, b')"
    "kv (spl_handle sm') = kv_apply mg op (srv_kv kv s)" "rc = 0"
    using commit_ok [OF laws(1-3) op b(2), of i "rp_sm ?rp"] laws(4) by (auto simp: srv_kv_def)
  obtain r rf' where r: "append_entries R [b] (rp_raft_instance ?rp, rp_sm ?rp) = (Some r, rf', sm')" "get_accepted R r"
    "get_result_code R r = 0" "has_result R r" "rr_get R r = Some out"
    using i [OF c(1)] by blast
  have "append_and_extract N R op s =
      (Inr (0, 0, get_result_str R r), s\<lparr>replica_instance := ?rp\<lparr>rp_raft_instance := rf', rp_sm := sm'\<rparr>\<rparr>)"
    using leads b(1) r c(2,4)
    by (simp add: append_and_extract_def append_log_def srv_leads_def get_return_method_def Let_def extract_result_def)
  then show ?thesis using c(3) r(1,2) b(2) by (fastforce simp: is_success_def srv_kv_def)
qed

lemma append_and_extract_ok:
  assumes laws: "buffer_laws N e64 e32" "serializer_laws N e64 e32" "kv_laws D kv mg" "never_fails D"
    and op: "op_ok op" "op_known op" and leads: "srv_leads N D R s"
  shows "\<exists>res s'. append_and_extract N R op s = (Inr res, s') \<and> is_success res \<and>
    srv_kv kv s' = kv_apply mg op (srv_kv kv s)"
  using append_and_extract_run [OF assms] by blast

lemma put_operation:
  assumes "length k + length v < 18446744073709551616 - 17"
  shows "op_ok (make_put (owned_slice_vector k) (owned_slice_vector v))"
    "op_known (make_put (owned_slice_vector k) (owned_slice_vector v))"
    "kv_apply mg (make_put (owned_slice_vector k) (owned_slice_vector v)) m = m(k \<mapsto> v)"
  using op_ok_make(1) [of "owned_slice_vector k" "owned_slice_vector v"] assms
  by (simp_all add: owned_slice_vector_def op_known_def make_put_def kv_apply_def)

lemma delete_operation:
  assumes "length k < 18446744073709551616 - 17"
  shows "op_ok (make_delete (owned_slice_vector k))" "op_known (make_delete (owned_slice_vector k))"
    "kv_apply mg (make_delete (owned_slice_vector k)) m = m(k := None)"
  using op_ok_make_delete [of "owned_slice_vector k"] assms
  by (simp_all add: owned_slice_vector_def op_known_def make_delete_def kv_apply_def)

lemma handle_get_map:
  assumes "kv_laws D kv mg" "never_fails D"
  shows "case srv_kv kv s key of
      Some v \<Rightarrow> handle_get D key s = (v, 0)
    | None \<Rightarrow> \<exists>rc. rc \<noteq> 0 \<and> handle_get D key s = ([], rc)"
  using replica_read_map [OF assms, of key "replica_instance s"]
  by (auto simp: handle_get_def srv_kv_def take_data_def owned_slice_slice_def owned_slice_range_def split: option.splits)

text \<open>
  An update through the server's procedure overwrites the value, whatever the store's merge
  function would make of the old and the new one: the handler appends a put operation.
\<close>

theorem server_update_overwrites:
  assumes laws: "buffer_laws N e64 e32" "serializer_laws N e64 e32" "kv_laws D kv mg" "never_fails D"
    and leads: "srv_leads N D R s" and fits: "length k + length v < 18446744073709551616 - 17"
  shows "\<exists>res s'. handle_update N R k v s = (Inr res, s') \<and> is_success res \<and> srv_kv kv s' k = Some v \<and>
    (mg (srv_kv kv s k) v \<noteq> Some v \<longrightarrow>
      srv_kv kv s' \<noteq> kv_apply mg (make_update (owned_slice_vector k) (owned_slice_vector v)) (srv_kv kv s))"
proof -
  note p = put_operation [OF fits]
  obtain res s' where s': "handle_update N R k v s = (Inr res, s')" "is_success res" "srv_kv kv s' = (srv_kv kv s)(k \<mapsto> v)"
    using append_and_extract_ok [OF laws p(1,2) leads] p(3) by (auto simp: handle_update_def)
  have "kv_apply mg (make_update (owned_slice_vector k) (owned_slice_vector v)) (srv_kv kv s) k = mg (srv_kv kv s k) v"
    by (simp add: kv_apply_def make_update_def owned_slice_vector_def Let_def)
  moreover have "srv_kv kv s' k = Some v" by (simp add: s'(3))
  ultimately have "srv_kv kv s' \<noteq> kv_apply mg (make_update (owned_slice_vector k) (owned_slice_vector v)) (srv_kv kv s)"
    if "mg (srv_kv kv s k) v \<noteq> Some v" using that by metis
  then show ?thesis using s'(1,2) \<open>srv_kv kv s' k = Some v\<close> by blast
qed

text \<open>A leading server of the concrete instance.\<close>

lemma ref_raft_leads: "leader_commits ref_nuraft ref_splinterdb ref_raft (True, l, log) sm"
proof -
  have "\<exists>r rf'. append_entries ref_raft [b] ((True, l, log), sm) = (Some r, rf', sm') \<and> get_accepted ref_raft r \<and>
      get_result_code ref_raft r = 0 \<and> has_result ref_raft r \<and> rr_get ref_raft r = Some out"
    if "sm_commit ref_nuraft ref_splinterdb (word_of_nat (Suc (length log))) b sm = (Inr out, sm')" for b out sm'
    using that by (auto simp: ref_raft_def ref_append_def)
  then show ?thesis unfolding leader_commits_def by blast
qed

type_synonym rserver = "(rdb, unit, rmgr, rraft, unit, unit) server"

definition demo_server :: "rserver res" where
  "demo_server = server_new ref_nuraft ref_conf ref_splinterdb ref_raft False 10003 10002 demo_config"

lemma demo_server_ok: "\<exists>s. demo_server = Inr s \<and> srv_leads ref_nuraft ref_splinterdb ref_raft s"
proof -
  obtain rp where rp: "demo_replica = Inr rp" "rp_config rp = demo_config" "rp_raft_instance rp = (True, 1, [])"
    using demo_replica_ok by blast
  then have "cfg_return_method (rp_config rp) = Blocking" by (simp add: demo_config_def replica_config_new_def)
  moreover have "demo_server = Inr \<lparr>replica_instance = rp, client_port = 10003, join_port = 10002\<rparr>"
    unfolding demo_server_def server_new_def demo_replica_def [symmetric] rp(1) by simp
  moreover have "srv_leads ref_nuraft ref_splinterdb ref_raft \<lparr>replica_instance = rp, client_port = 10003, join_port = 10002\<rparr>"
    using calculation(1) ref_raft_leads by (simp add: srv_leads_def rp(3))
  ultimately show ?thesis by blast
qed

theorem server_update_overwrites_witness:
  "\<exists>s res s'. demo_server = Inr s \<and> handle_update ref_nuraft ref_raft [1] [2] s = (Inr res, s') \<and> is_success res \<and>
     srv_kv map_of s' [1] = Some [2]"
proof -
  obtain s where s: "demo_server = Inr s" "srv_leads ref_nuraft ref_splinterdb ref_raft s" using demo_server_ok by blast
  show ?thesis
    using server_update_overwrites [OF ref_buffer_laws ref_serializer_laws ref_kv_laws ref_never_fails s(2), of "[1]" "[2]"] s(1)
    by auto
qed

end
