(* ===== verification/Read_Policy.thy ===== *)
theory Read_Policy
  imports Prelude
begin

section \<open>\<open>read_policy\<close>: which server a client reads from\<close>

text \<open>
  \<open>include/client/read_policy.h\<close>: the abstract class \<open>read_policy\<close>, here the locale of the same
  name, and its one implementation, the round robin over a queue of server ids.
\<close>

type_synonym round_robin_read_policy = "int list"

definition round_robin_new :: "int list \<Rightarrow> round_robin_read_policy" where
  "round_robin_new server_ids = fold (\<lambda>i q. q @ [i]) server_ids []"

definition next_server :: "(round_robin_read_policy, int) act" where
  "next_server q = (case q of [] \<Rightarrow> (Inl Empty_container, []) | i # q \<Rightarrow> (Inr i, q @ [i]))"

text \<open>
  The contract of a policy: as long as there is a server, it names one of them and keeps the set of
  servers.
\<close>

locale read_policy =
  fixes servers :: "'p \<Rightarrow> int set" and pick :: "('p, int) act"
  assumes pick: "servers p \<noteq> {} \<Longrightarrow> \<exists>i p'. pick p = (Inr i, p') \<and> i \<in> servers p \<and> servers p' = servers p"
begin

fun choices :: "nat \<Rightarrow> ('p, int list) act" where
  "choices 0 p = (Inr [], p)"
| "choices (Suc n) p = abind pick (\<lambda>i. abind (choices n) (\<lambda>is p. (Inr (i # is), p))) p"

lemma choices_ok:
  "servers p \<noteq> {} \<Longrightarrow> \<exists>is p'. choices n p = (Inr is, p') \<and> length is = n \<and> set is \<subseteq> servers p \<and> servers p' = servers p"
proof (induction n arbitrary: p)
  case (Suc n)
  obtain i p1 where c: "pick p = (Inr i, p1)" "i \<in> servers p" "servers p1 = servers p"
    using pick [OF Suc.prems] by blast
  then obtain "is" p2 where "choices n p1 = (Inr is, p2)" "length is = n" "set is \<subseteq> servers p" "servers p2 = servers p"
    using Suc.IH [of p1] Suc.prems by auto
  then show ?case using c by simp
qed simp

end

interpretation round_robin: read_policy set next_server
proof (unfold_locales, goal_cases)
  case (1 q)
  then show ?case by (cases q) (auto simp: next_server_def)
qed

lemma round_robin_new [simp]: "round_robin_new ids = ids"
proof -
  have "fold (\<lambda>i q. q @ [i]) ids q = q @ ids" for q by (induction ids arbitrary: q) simp_all
  then show ?thesis by (simp add: round_robin_new_def)
qed

text \<open>The next \<open>n\<close> calls of \<open>next_server\<close>.\<close>

fun next_servers :: "nat \<Rightarrow> (round_robin_read_policy, int list) act" where
  "next_servers 0 q = (Inr [], q)"
| "next_servers (Suc n) q = abind next_server (\<lambda>i. abind (next_servers n) (\<lambda>is q. (Inr (i # is), q))) q"

lemma next_servers_rotate:
  "q \<noteq> [] \<Longrightarrow> next_servers n q = (Inr (map (\<lambda>k. q ! (k mod length q)) [0 ..< n]), rotate n q)"
proof (induction n arbitrary: q)
  case (Suc n)
  then obtain i r where q: "q = i # r" by (cases q) auto
  have "(i # r) ! (Suc k mod length (i # r)) = (r @ [i]) ! (k mod length (r @ [i]))" for k
    using rotate1_rotate_swap [of 0] nth_rotate1 [of "k mod length (i # r)" "i # r"] by (simp add: mod_Suc_eq)
  then have m: "map (\<lambda>k. q ! (k mod length q)) [0 ..< Suc n] = i # map (\<lambda>k. (r @ [i]) ! (k mod length (r @ [i]))) [0 ..< n]"
    by (simp add: q map_upt_Suc del: upt_Suc)
  have "next_servers n (r @ [i]) = (Inr (map (\<lambda>k. (r @ [i]) ! (k mod length (r @ [i]))) [0 ..< n]), rotate n (r @ [i]))"
    by (rule Suc.IH) simp
  then show ?case using m by (simp add: q next_server_def rotate1_rotate_swap)
qed simp

text \<open>
  The round robin policy over a nonempty list of ids names them in turn: the \<open>k\<close>-th choice is
  the id at position \<open>k\<close> modulo their number, so in every run of as many choices as there are ids
  each of them is chosen once, and after it the queue is as before.
\<close>

theorem round_robin_fair:
  assumes "ids \<noteq> []"
  shows "\<exists>is q. next_servers n (round_robin_new ids) = (Inr is, q) \<and>
    (\<forall>k < n. is ! k = ids ! (k mod length ids)) \<and>
    next_servers (length ids) (round_robin_new ids) = (Inr ids, round_robin_new ids)"
  using next_servers_rotate [OF assms, of n] next_servers_rotate [OF assms, of "length ids"]
  by (auto intro!: nth_equalityI)

theorem round_robin_fair_witness:
  "\<exists>is q. next_servers 3 (round_robin_new [5, 7]) = (Inr is, q) \<and> is ! 2 = 5"
proof -
  obtain "is" q where "next_servers 3 (round_robin_new [5, 7]) = (Inr is, q)"
    "\<forall>k < 3. is ! k = [5, 7] ! (k mod length [5 :: int, 7])"
    using round_robin_fair [of "[5, 7]" 3] by auto
  moreover from this have "is ! 2 = 5" by (simp add: spec [of _ 2] eval_nat_numeral)
  ultimately show ?thesis by blast
qed

end
