(* ===== verification/Client.thy ===== *)
theory Client
  imports Rpc Read_Policy Std_Map Std_String
begin

section \<open>\<open>client\<close>: the client library\<close>

text \<open>
  \<open>src/client/client.cpp\<close>: a client holds a connection to every server of the cluster by server id,
  a read policy, and the id of the server it takes for the leader. rpclib is a git submodule: its
  \<open>rpc::client\<close> is a parameter, a connection (\<open>'h\<close>) and a call over it that changes the rest of
  the world (\<open>'w\<close>: the servers and the network). The pauses between retries and the messages on
  the console are not part of the model.
\<close>

record ('h, 'w) rpc_api =
  rpc_connect :: "string \<Rightarrow> u16 \<Rightarrow> ('w, 'h) act"
  rpc_call :: "'h \<Rightarrow> rpc_request \<Rightarrow> ('w, rpc_response) act"
  rpc_set_timeout :: "u64 \<Rightarrow> 'h \<Rightarrow> 'h"

record 'h client =
  clients :: "(int, 'h) smap"
  rd_policy :: round_robin_read_policy
  leader_id :: int
  num_retries :: u16

definition GET_LEADER_NO_LIVE_LEADER :: int where "GET_LEADER_NO_LIVE_LEADER = - 1"
definition CMD_RESULT_NOT_LEADER :: int where "CMD_RESULT_NOT_LEADER = - 3"
definition CMD_RESULT_REQUEST_CANCELLED :: int where "CMD_RESULT_REQUEST_CANCELLED = - 1"
definition CMD_RESULT_WEIRD_CASE :: int where "CMD_RESULT_WEIRD_CASE = 999"

text \<open>A call whose response is read as a type.\<close>

definition call_as :: "('h, 'w) rpc_api \<Rightarrow> 'h \<Rightarrow> rpc_request \<Rightarrow> (rpc_response \<Rightarrow> 'a res) \<Rightarrow> ('w, 'a) act" where
  "call_as P h req conv w = (case rpc_call P h req w of (resp, w) \<Rightarrow> (rbind resp conv, w))"

text \<open>The constructor's questions to the server it is given, inside its first \<open>try\<close>.\<close>

definition introduce :: "('h, 'w) rpc_api \<Rightarrow> 'h \<Rightarrow> ('w, (int \<times> string) list \<times> int) act" where
  "introduce P cl =
     abind (call_as P cl Ping as_text) (\<lambda>pong.
     if pong \<noteq> ''pong'' then (\<lambda>w. (Inl (Runtime_error ''server returned unexpected response''), w))
     else abind (call_as P cl Get_all_servers as_servers) (\<lambda>srvs.
          abind (call_as P cl Get_leader_id as_number) (\<lambda>leader w. (Inr (srvs, leader), w))))"

text \<open>
  The loop that connects to the servers. \<open>emplace\<close> makes the connection and keeps an older entry
  with the same id; a server that cannot be connected is skipped.
\<close>

fun connect_all :: "('h, 'w) rpc_api \<Rightarrow> (int \<times> string) list \<Rightarrow> (int, 'h) smap \<Rightarrow> ('w, (int, 'h) smap) act" where
  "connect_all P [] cs w = (Inr cs, w)"
| "connect_all P ((srv_id, endpoint) # srvs) cs w =
     (let srv_host = fst (split_endpoint endpoint) in
      case rbind (stoi (snd (split_endpoint endpoint))) (checked_port srv_host) of
        Inl e \<Rightarrow> (Inl e, w)
      | Inr port \<Rightarrow>
          (case rpc_connect P srv_host port w of
             (Inl e, w) \<Rightarrow> if std_exception e then connect_all P srvs cs w else (Inl e, w)
           | (Inr h, w) \<Rightarrow>
               connect_all P srvs (case sm_find cs srv_id of None \<Rightarrow> sm_put srv_id h cs | Some _ \<Rightarrow> cs) w))"

definition client_new :: "('h, 'w) rpc_api \<Rightarrow> string \<Rightarrow> u16 \<Rightarrow> u64 \<Rightarrow> u16 \<Rightarrow> ('w, 'h client) act" where
  "client_new P host port timeout_ms retries =
     abind (rpc_connect P host port) (\<lambda>cl w.
       case introduce P cl w of
         (Inl e, w) \<Rightarrow> if std_exception e then (Inl (Exit 1), w) else (Inl e, w)
       | (Inr (srvs, leader), w) \<Rightarrow>
           abind (connect_all P srvs []) (\<lambda>cs w.
             let cs = map (\<lambda>(i, c). (i, rpc_set_timeout P timeout_ms c)) cs in
             (Inr \<lparr>clients = cs, rd_policy = round_robin_new (map fst cs), leader_id = leader,
                   num_retries = retries\<rparr>, w)) w)"

text \<open>The calls of \<open>trigger_cache_dumps\<close> and \<open>trigger_cache_clear\<close>, whose answers are only printed.\<close>

fun call_each :: "('h, 'w) rpc_api \<Rightarrow> rpc_request \<Rightarrow> (int, 'h) smap \<Rightarrow> ('w, unit) act" where
  "call_each P req [] w = (Inr (), w)"
| "call_each P req ((i, c) # cs) w = abind (call_as P c req as_flag) (\<lambda>_. call_each P req cs) w"

definition trigger_cache_dumps :: "('h, 'w) rpc_api \<Rightarrow> 'h client \<Rightarrow> ('w, unit) act" where
  "trigger_cache_dumps P cl = call_each P Splinterdb_dumpcache (clients cl)"

definition trigger_cache_clear :: "('h, 'w) rpc_api \<Rightarrow> 'h client \<Rightarrow> ('w, unit) act" where
  "trigger_cache_clear P cl = call_each P Splinterdb_clearcache (clients cl)"

text \<open>\<open>clients_.at(leader_id_)\<close>.\<close>

definition get_leader_handle :: "'h client \<Rightarrow> 'h res" where
  "get_leader_handle cl = (case sm_find (clients cl) (leader_id cl) of Some h \<Rightarrow> Inr h | None \<Rightarrow> Inl Out_of_range)"

fun client_get_all_servers_loop :: "('h, 'w) rpc_api \<Rightarrow> (int, 'h) smap \<Rightarrow> ('w, (int \<times> string) list) act" where
  "client_get_all_servers_loop P [] w = (Inl (Runtime_error ''failed to connect to any server''), w)"
| "client_get_all_servers_loop P ((i, c) # cs) w =
     (case call_as P c Get_all_servers as_servers w of
        (Inr srvs, w) \<Rightarrow> (Inr srvs, w)
      | (Inl e, w) \<Rightarrow> if std_exception e then client_get_all_servers_loop P cs w else (Inl e, w))"

definition client_get_all_servers :: "('h, 'w) rpc_api \<Rightarrow> 'h client \<Rightarrow> ('w, (int \<times> string) list) act" where
  "client_get_all_servers P cl = client_get_all_servers_loop P (clients cl)"

text \<open>The polls of one server in \<open>get_leader_id\<close>, \<open>k\<close> of them left.\<close>

fun poll_leader :: "('h, 'w) rpc_api \<Rightarrow> 'h \<Rightarrow> nat \<Rightarrow> ('w, int) act" where
  "poll_leader P c 0 w = (Inl (Runtime_error ''no live leader''), w)"
| "poll_leader P c (Suc k) w =
     (case call_as P c Get_leader_id as_number w of
        (Inl e, w) \<Rightarrow> (Inl e, w)
      | (Inr leader, w) \<Rightarrow>
          if leader \<noteq> GET_LEADER_NO_LIVE_LEADER then (Inr leader, w) else poll_leader P c k w)"

fun get_leader_id_loop :: "('h, 'w) rpc_api \<Rightarrow> nat \<Rightarrow> (int, 'h) smap \<Rightarrow> ('w, int) act" where
  "get_leader_id_loop P retries [] w = (Inl (Runtime_error ''failed to connect to any server''), w)"
| "get_leader_id_loop P retries ((i, c) # cs) w =
     (case poll_leader P c retries w of
        (Inr leader, w) \<Rightarrow> (Inr leader, w)
      | (Inl e, w) \<Rightarrow> if std_exception e then get_leader_id_loop P retries cs w else (Inl e, w))"

definition get_leader_id :: "('h, 'w) rpc_api \<Rightarrow> 'h client \<Rightarrow> ('w, int) act" where
  "get_leader_id P cl = get_leader_id_loop P (unat (num_retries cl)) (clients cl)"

definition try_handle_leader_change :: "('h, 'w) rpc_api \<Rightarrow> int \<Rightarrow> ('h client \<times> 'w, bool) act" where
  "try_handle_leader_change P raft_rc st =
     (if raft_rc = CMD_RESULT_NOT_LEADER \<or> raft_rc = CMD_RESULT_REQUEST_CANCELLED
      then (case get_leader_id P (fst st) (snd st) of
              (Inl e, w) \<Rightarrow> (Inl e, (fst st, w))
            | (Inr leader, w) \<Rightarrow> (Inr True, ((fst st)\<lparr>leader_id := leader\<rparr>, w)))
      else (Inr False, st))"

text \<open>\<open>clients_.find(...)->second\<close> on a missing id dereferences the end iterator.\<close>

definition client_get :: "('h, 'w) rpc_api \<Rightarrow> byte list \<Rightarrow> ('h client \<times> 'w, rpc_read_result) act" where
  "client_get P key st =
     (case next_server (rd_policy (fst st)) of
        (Inl e, q) \<Rightarrow> (Inl e, st)
      | (Inr i, q) \<Rightarrow>
          let cl = (fst st)\<lparr>rd_policy := q\<rparr> in
          (case sm_find (clients cl) i of
             None \<Rightarrow> (Inl Null_deref, (cl, snd st))
           | Some h \<Rightarrow> (case call_as P h (Splinterdb_get key) as_read (snd st) of (r, w) \<Rightarrow> (r, (cl, w)))))"

text \<open>
  The retry loop that \<open>put\<close>, \<open>update\<close> and \<open>del\<close> share, with the request they send; \<open>k\<close> tries are
  left and \<open>result\<close> is the last result so far.
\<close>

fun mutate_loop :: "('h, 'w) rpc_api \<Rightarrow> rpc_request \<Rightarrow> nat \<Rightarrow> rpc_mutation_result \<Rightarrow>
    ('h client \<times> 'w, rpc_mutation_result) act" where
  "mutate_loop P req 0 result st = (Inr result, st)"
| "mutate_loop P req (Suc k) result st =
     (case get_leader_handle (fst st) of
        Inl e \<Rightarrow> (Inl e, st)
      | Inr h \<Rightarrow>
          (case call_as P h req as_mutation (snd st) of
             (Inl e, w) \<Rightarrow> (Inl e, (fst st, w))
           | (Inr result, w) \<Rightarrow>
               if was_accepted result then (Inr result, (fst st, w))
               else if get_nuraft_return_code result = CMD_RESULT_WEIRD_CASE
               then (Inr (fst result, 0, snd (snd result)), (fst st, w))
               else abind (try_handle_leader_change P (get_nuraft_return_code result))
                      (\<lambda>_. mutate_loop P req k result) (fst st, w)))"

text \<open>A value-initialised \<open>rpc_mutation_result\<close>: two zeros and the empty message.\<close>

definition initial_result :: rpc_mutation_result where
  "initial_result = (0, 0, '''')"

definition client_put :: "('h, 'w) rpc_api \<Rightarrow> byte list \<Rightarrow> byte list \<Rightarrow> ('h client \<times> 'w, rpc_mutation_result) act" where
  "client_put P key val st = mutate_loop P (Splinterdb_put key val) (unat (num_retries (fst st))) initial_result st"

definition client_update :: "('h, 'w) rpc_api \<Rightarrow> byte list \<Rightarrow> byte list \<Rightarrow> ('h client \<times> 'w, rpc_mutation_result) act" where
  "client_update P key val st = mutate_loop P (Splinterdb_update key val) (unat (num_retries (fst st))) initial_result st"

definition client_del :: "('h, 'w) rpc_api \<Rightarrow> byte list \<Rightarrow> ('h client \<times> 'w, rpc_mutation_result) act" where
  "client_del P key st = mutate_loop P (Splinterdb_delete key) (unat (num_retries (fst st))) initial_result st"

subsection \<open>The tables of a client\<close>

text \<open>The read policy goes over exactly the ids of the connected servers.\<close>

definition client_ok :: "'h client \<Rightarrow> bool" where
  "client_ok cl \<longleftrightarrow> sm_ok (clients cl) \<and> set (rd_policy cl) = dom (sm_find (clients cl)) \<and> distinct (rd_policy cl)"

lemma connect_all_ok:
  "connect_all P srvs cs w = (Inr cs', w') \<Longrightarrow> sm_ok cs \<Longrightarrow>
   sm_ok cs' \<and> dom (sm_find cs') \<subseteq> dom (sm_find cs) \<union> fst ` set srvs"
proof (induction srvs arbitrary: cs w)
  case (Cons p srvs)
  obtain srv_id endpoint where p: "p = (srv_id, endpoint)" by force
  obtain port where port: "rbind (stoi (snd (split_endpoint endpoint))) (checked_port (fst (split_endpoint endpoint))) = Inr port"
    using Cons.prems(1) by (auto simp: p Let_def split: sum.splits)
  obtain r w1 where c: "rpc_connect P (fst (split_endpoint endpoint)) port w = (r, w1)" by force
  show ?case
  proof (cases r)
    case (Inl e)
    then show ?thesis using Cons.IH [of cs w1] Cons.prems port c by (auto simp: p split: if_splits)
  next
    case (Inr h)
    let ?cs = "case sm_find cs srv_id of None \<Rightarrow> sm_put srv_id h cs | Some _ \<Rightarrow> cs"
    have ok: "sm_ok ?cs" using Cons.prems(2) by (simp split: option.split)
    have "dom (sm_find ?cs) \<subseteq> dom (sm_find cs) \<union> {srv_id}" by (auto split: option.split)
    moreover have "connect_all P srvs ?cs w1 = (Inr cs', w')" using Cons.prems(1) port c Inr by (simp add: p)
    then have "sm_ok cs'" "dom (sm_find cs') \<subseteq> dom (sm_find ?cs) \<union> fst ` set srvs" using Cons.IH [OF _ ok] by auto
    ultimately have "dom (sm_find cs') \<subseteq> (dom (sm_find cs) \<union> {srv_id}) \<union> fst ` set srvs" by (meson Un_mono order_refl order_trans)
    then show ?thesis using \<open>sm_ok cs'\<close> by (auto simp: p)
  qed
qed simp

lemma sm_find_map_val: "sm_find (map (\<lambda>(i, c). (i, f c)) m) = map_option f \<circ> sm_find m"
  by (auto simp: sm_find_def map_of_map fun_eq_iff)

text \<open>
  C30. A client that its constructor returns is connected to servers of the list that the first
  server gave, has at most one connection per id, and reads round robin over exactly the connected
  ones.
\<close>

theorem client_new_tables:
  assumes "client_new P host port timeout retries w = (Inr cl, w')"
  shows "client_ok cl \<and> num_retries cl = retries \<and>
    (\<exists>h w1 w2 srvs. introduce P h w1 = (Inr (srvs, leader_id cl), w2) \<and> dom (sm_find (clients cl)) \<subseteq> fst ` set srvs)"
proof -
  obtain h w1 where h: "rpc_connect P host port w = (Inr h, w1)"
    using assms by (cases "rpc_connect P host port w"; cases "fst (rpc_connect P host port w)") (auto simp: client_new_def)
  obtain srvs leader w2 where i: "introduce P h w1 = (Inr (srvs, leader), w2)"
    using assms h by (auto simp: client_new_def split: sum.splits prod.splits if_splits)
  obtain cs where c: "connect_all P srvs [] w2 = (Inr cs, w')"
    and cl: "cl = \<lparr>clients = map (\<lambda>(i, c). (i, rpc_set_timeout P timeout c)) cs,
      rd_policy = map fst cs, leader_id = leader, num_retries = retries\<rparr>"
    using assms h i
    by (cases "connect_all P srvs [] w2"; cases "fst (connect_all P srvs [] w2)")
      (auto simp: client_new_def Let_def comp_def case_prod_beta)
  have ok: "sm_ok cs" "dom (sm_find cs) \<subseteq> fst ` set srvs" using connect_all_ok [OF c] by auto
  have "sm_ok (clients cl)" using ok(1) by (simp add: cl sm_ok_def comp_def case_prod_beta)
  moreover have "dom (sm_find (clients cl)) = dom (sm_find cs)" by (simp add: cl sm_find_map_val)
  moreover have "distinct (rd_policy cl)" "set (rd_policy cl) = dom (sm_find cs)"
    using sm_ok_distinct [OF ok(1)] by (simp_all add: cl dom_sm_find)
  ultimately show ?thesis using ok(2) i by (auto simp: client_ok_def cl)
qed

text \<open>
  C29. A read goes to the server that is next in turn, over the connection to that server; it uses
  no missing connection, whatever the server answers, and leaves the client's tables in order with
  the turn moved on. (A client without a connection has no server to read from: taking the front
  of its empty queue is undefined.)
\<close>

theorem client_get_in_turn:
  assumes ok: "client_ok cl"
  shows "(clients cl = [] \<longrightarrow> client_get P key (cl, w) = (Inl Empty_container, (cl, w))) \<and>
    (clients cl \<noteq> [] \<longrightarrow>
      (\<exists>i h. rd_policy cl = i # tl (rd_policy cl) \<and> sm_find (clients cl) i = Some h \<and>
        client_get P key (cl, w) =
          (fst (call_as P h (Splinterdb_get key) as_read w),
           cl\<lparr>rd_policy := tl (rd_policy cl) @ [i]\<rparr>, snd (call_as P h (Splinterdb_get key) as_read w)) \<and>
        client_ok (cl\<lparr>rd_policy := tl (rd_policy cl) @ [i]\<rparr>)))"
proof (cases "rd_policy cl")
  case Nil
  then have "clients cl = []" using ok by (auto simp: client_ok_def dom_sm_find)
  then show ?thesis using Nil by (simp add: client_get_def next_server_def)
next
  case (Cons i q)
  then have "i \<in> dom (sm_find (clients cl))" using ok by (auto simp: client_ok_def)
  then obtain h where h: "sm_find (clients cl) i = Some h" by blast
  then have "clients cl \<noteq> []" by auto
  moreover have "client_ok (cl\<lparr>rd_policy := q @ [i]\<rparr>)" using ok Cons by (auto simp: client_ok_def)
  ultimately show ?thesis using h Cons by (simp add: client_get_def next_server_def case_prod_beta)
qed

subsection \<open>Finding the leader\<close>

lemma poll_leader_live: "poll_leader P c k w = (Inr leader, w') \<Longrightarrow>
    leader \<noteq> GET_LEADER_NO_LIVE_LEADER \<and> (\<exists>w1. call_as P c Get_leader_id as_number w1 = (Inr leader, w'))"
  by (induction P c k w rule: poll_leader.induct) (auto split: prod.splits sum.splits if_splits)

lemma get_leader_id_loop_live: "get_leader_id_loop P k cs w = (Inr leader, w') \<Longrightarrow>
    leader \<noteq> GET_LEADER_NO_LIVE_LEADER \<and> (\<exists>i c w1. (i, c) \<in> set cs \<and> call_as P c Get_leader_id as_number w1 = (Inr leader, w'))"
proof (induction cs arbitrary: w)
  case (Cons p cs)
  obtain i c where p: "p = (i, c)" by force
  obtain x w1 where poll: "poll_leader P c k w = (x, w1)" by force
  show ?case
  proof (cases x)
    case (Inl e)
    then have "get_leader_id_loop P k cs w1 = (Inr leader, w')" using Cons.prems poll by (auto simp: p split: if_splits)
    from Cons.IH [OF this] show ?thesis by auto
  next
    case (Inr l)
    then show ?thesis using Cons.prems poll poll_leader_live [of P c k w] by (auto simp: p)
  qed
qed simp

text \<open>
  A leader id that the client finds is one that a server it is connected to has just named,
  and never the value that stands for no live leader.
\<close>

theorem client_leader_live:
  assumes "get_leader_id P cl w = (Inr leader, w')"
  shows "leader \<noteq> GET_LEADER_NO_LIVE_LEADER \<and>
    (\<exists>i c w1. (i, c) \<in> set (clients cl) \<and> call_as P c Get_leader_id as_number w1 = (Inr leader, w'))"
  by (rule get_leader_id_loop_live [OF assms [unfolded get_leader_id_def]])

subsection \<open>Mutations\<close>

lemma leader_change_clients:
  "try_handle_leader_change P rc st = (r, st') \<Longrightarrow> clients (fst st') = clients (fst st) \<and> num_retries (fst st') = num_retries (fst st)"
  by (auto simp: try_handle_leader_change_def split: if_splits prod.splits sum.splits)

lemma mutate_loop_accepted:
  "mutate_loop P req k result st = (Inr r, st') \<Longrightarrow> 0 < k \<Longrightarrow> was_accepted r \<Longrightarrow>
   \<exists>i h w w' r0. sm_find (clients (fst st)) i = Some h \<and> call_as P h req as_mutation w = (Inr r0, w') \<and>
     (r = r0 \<or> get_nuraft_return_code r0 = CMD_RESULT_WEIRD_CASE \<and> fst r = fst r0)"
proof (induction k arbitrary: result st)
  case (Suc k)
  obtain cl w where st: "st = (cl, w)" by force
  obtain h where h: "sm_find (clients cl) (leader_id cl) = Some h" "get_leader_handle cl = Inr h"
    using Suc.prems(1) by (auto simp: st get_leader_handle_def split: option.splits)
  obtain r0 w1 where c: "call_as P h req as_mutation w = (Inr r0, w1)"
    using Suc.prems(1) h by (auto simp: st split: prod.splits sum.splits)
  show ?case
  proof (cases "was_accepted r0 \<or> get_nuraft_return_code r0 = CMD_RESULT_WEIRD_CASE")
    case True
    then have "r = r0 \<or> get_nuraft_return_code r0 = CMD_RESULT_WEIRD_CASE \<and> fst r = fst r0"
      using Suc.prems(1) h c by (auto simp: st split: if_splits)
    then show ?thesis using h(1) c unfolding st fst_conv by blast
  next
    case False
    obtain b st1 where t: "try_handle_leader_change P (get_nuraft_return_code r0) (cl, w1) = (Inr b, st1)"
      and m: "mutate_loop P req k r0 st1 = (Inr r, st')"
      using Suc.prems(1) h c False
      by (cases "try_handle_leader_change P (get_nuraft_return_code r0) (cl, w1)";
          cases "fst (try_handle_leader_change P (get_nuraft_return_code r0) (cl, w1))") (auto simp: st)
    show ?thesis
    proof (cases "k = 0")
      case True
      then show ?thesis using m False Suc.prems(3) by simp
    next
      case k: False
      then show ?thesis using Suc.IH [OF m _ Suc.prems(3)] leader_change_clients [OF t] by (simp add: st)
    qed
  qed
qed simp

text \<open>
  C27. With at least one try, a put, update or delete that the client reports as accepted was
  answered so by a server it is connected to, in a call with exactly this request; the only other
  answer that the client turns into an acceptance is the code 999.
\<close>

theorem client_mutations_answered:
  assumes "0 < num_retries (fst st)"
    and "client_put P k v st = (Inr r, st') \<and> req = Splinterdb_put k v \<or>
      client_update P k v st = (Inr r, st') \<and> req = Splinterdb_update k v \<or>
      client_del P k st = (Inr r, st') \<and> req = Splinterdb_delete k"
    and "was_accepted r"
  shows "\<exists>i h w w' r0. sm_find (clients (fst st)) i = Some h \<and> call_as P h req as_mutation w = (Inr r0, w') \<and>
     (r = r0 \<or> get_nuraft_return_code r0 = CMD_RESULT_WEIRD_CASE \<and> fst r = fst r0)"
proof -
  have "0 < unat (num_retries (fst st))" using assms(1) by (simp add: unat_gt_0 word_neq_0_conv)
  then show ?thesis
    using mutate_loop_accepted [of P req "unat (num_retries (fst st))" initial_result st r st'] assms(2,3)
    by (auto simp: client_put_def client_update_def client_del_def)
qed

text \<open>
  A client made with no retries reports the success of every put, update and delete without
  calling any server.
\<close>

theorem client_no_retries:
  assumes "num_retries (fst st) = 0"
  shows "client_put P k v st = (Inr initial_result, st) \<and> client_update P k v st = (Inr initial_result, st) \<and>
    client_del P k st = (Inr initial_result, st) \<and> is_success initial_result"
  using assms by (simp add: client_put_def client_update_def client_del_def initial_result_def is_success_def)

text \<open>
  C28. When the server that the client takes for the leader answers that it is not, or that the
  request was cancelled, the client asks for the leader, takes the answer as its leader, and sends
  the same request there: a put that the new leader accepts returns the new leader's result.
\<close>

theorem client_put_follows_leader:
  assumes retries: "2 \<le> unat (num_retries cl)"
    and old: "sm_find (clients cl) (leader_id cl) = Some h0"
      "call_as P h0 (Splinterdb_put k v) as_mutation w0 = (Inr (spl, code, msg), w1)"
      "code = CMD_RESULT_NOT_LEADER \<or> code = CMD_RESULT_REQUEST_CANCELLED"
    and found: "get_leader_id P cl w1 = (Inr leader, w2)" "sm_find (clients cl) leader = Some h1"
    and accepted: "call_as P h1 (Splinterdb_put k v) as_mutation w2 = (Inr r, w3)" "was_accepted r"
  shows "client_put P k v (cl, w0) = (Inr r, (cl\<lparr>leader_id := leader\<rparr>, w3))"
proof -
  obtain n where n: "unat (num_retries cl) = Suc (Suc n)" using retries by (metis Suc_le_D numeral_2_eq_2 Suc_le_mono)
  have code: "code \<noteq> 0" "code \<noteq> CMD_RESULT_WEIRD_CASE"
    using old(3) by (auto simp: CMD_RESULT_NOT_LEADER_def CMD_RESULT_REQUEST_CANCELLED_def CMD_RESULT_WEIRD_CASE_def)
  have "try_handle_leader_change P code (cl, w1) = (Inr True, (cl\<lparr>leader_id := leader\<rparr>, w2))"
    using old(3) found(1) by (auto simp: try_handle_leader_change_def)
  then show ?thesis
    using n old(1,2) code found(2) accepted
    by (simp add: client_put_def get_leader_handle_def was_accepted_def get_nuraft_return_code_def)
qed

subsection \<open>Concrete runs\<close>

definition byte_of_server :: "int \<Rightarrow> byte" where
  "byte_of_server h = word_of_int h"

text \<open>Two servers, \<open>a\<close> with id 1 and \<open>b\<close> with id 2; the world is the id of the leader.\<close>

definition two_servers :: "(int, int) rpc_api" where
  "two_servers = \<lparr>
     rpc_connect = (\<lambda>host port w. (Inr (if host = ''a'' then 1 else 2), w)),
     rpc_call = (\<lambda>h req w. (Inr (case req of
        Ping \<Rightarrow> Text ''pong''
      | Get_leader_id \<Rightarrow> Number w
      | Get_all_servers \<Rightarrow> Servers [(1, ''a:10''), (2, ''b:20'')]
      | Splinterdb_get k \<Rightarrow> Read ([byte_of_server h], 0)
      | _ \<Rightarrow> Mutation (0, if h = w then 0 else CMD_RESULT_NOT_LEADER, [])), w)),
     rpc_set_timeout = (\<lambda>_ h. h)\<rparr>"

definition two_client :: "int client" where
  "two_client = \<lparr>clients = [(1, 1), (2, 2)], rd_policy = [1, 2], leader_id = 1, num_retries = 3\<rparr>"

lemma two_servers_simps [simp]:
  "rpc_connect two_servers host port w = (Inr (if host = ''a'' then 1 else 2), w)"
  "call_as two_servers h Ping as_text w = (Inr ''pong'', w)"
  "call_as two_servers h Get_leader_id as_number w = (Inr w, w)"
  "call_as two_servers h Get_all_servers as_servers w = (Inr [(1, ''a:10''), (2, ''b:20'')], w)"
  "call_as two_servers h (Splinterdb_get k) as_read w = (Inr ([byte_of_server h], 0), w)"
  "call_as two_servers h (Splinterdb_put k v) as_mutation w = (Inr (0, if h = w then 0 else CMD_RESULT_NOT_LEADER, []), w)"
  "rpc_set_timeout two_servers t h = h"
  by (simp_all add: two_servers_def call_as_def)

lemma two_client_ok: "client_ok two_client"
  by (auto simp: client_ok_def two_client_def sm_ok_def split: if_splits)

theorem client_new_tables_witness:
  "\<exists>cl. client_new two_servers ''a'' 10 10000 3 1 = (Inr cl, 1) \<and> client_ok cl \<and> num_retries cl = 3"
proof -
  have parse: "split_endpoint ''a:10'' = (''a'', ''10'')" "split_endpoint ''b:20'' = (''b'', ''20'')"
    "stoi ''10'' = Inr 10" "stoi ''20'' = Inr 20"
    by (simp_all add: split_endpoint_def stoi_def is_space_def is_digit_def digits_val_def)
  obtain cl where cl: "client_new two_servers ''a'' 10 10000 3 1 = (Inr cl, 1)"
    by (simp add: client_new_def introduce_def abind_def parse checked_port_def)
  from client_new_tables [OF cl] cl show ?thesis by auto
qed

theorem client_get_in_turn_witness:
  "client_get two_servers [9] (two_client, 1) = (Inr ([byte_of_server 1], 0), (two_client\<lparr>rd_policy := [2, 1]\<rparr>, 1))"
  using client_get_in_turn [OF two_client_ok, of two_servers "[9]" 1] by (auto simp: two_client_def)

theorem client_mutations_answered_witness:
  "\<exists>i h w w' r0. sm_find (clients two_client) i = Some h \<and>
     call_as two_servers h (Splinterdb_put [1] [2]) as_mutation w = (Inr r0, w') \<and> get_nuraft_return_code r0 = 0"
proof -
  have put: "client_put two_servers [1] [2] (two_client, 1) = (Inr (0, 0, []), (two_client, 1))"
    by (simp add: client_put_def two_client_def)
      (simp add: numeral_3_eq_3 get_leader_handle_def was_accepted_def get_nuraft_return_code_def)
  have "\<exists>i h w w' r0. sm_find (clients two_client) i = Some h \<and>
     call_as two_servers h (Splinterdb_put [1] [2]) as_mutation w = (Inr r0, w') \<and>
     ((0, 0, []) = r0 \<or> get_nuraft_return_code r0 = CMD_RESULT_WEIRD_CASE \<and> fst (0 :: i32, 0 :: int, [] :: string) = fst r0)"
    using client_mutations_answered [of "(two_client, 1)" two_servers "[1]" "[2]" "(0, 0, [])" "(two_client, 1)" "Splinterdb_put [1] [2]"] put
    by (simp add: two_client_def was_accepted_def get_nuraft_return_code_def)
  then show ?thesis
    by (auto simp: get_nuraft_return_code_def CMD_RESULT_WEIRD_CASE_def CMD_RESULT_NOT_LEADER_def)
qed

theorem client_no_retries_witness:
  "client_put two_servers [1] [2] (two_client\<lparr>num_retries := 0\<rparr>, 1) = (Inr initial_result, (two_client\<lparr>num_retries := 0\<rparr>, 1))"
  using client_no_retries [of "(two_client\<lparr>num_retries := 0\<rparr>, 1)" two_servers "[1]" "[2]"] by simp

theorem client_put_follows_leader_witness:
  "client_put two_servers [1] [2] (two_client, 2) = (Inr (0, 0, []), (two_client\<lparr>leader_id := 2\<rparr>, 2))"
proof -
  have "get_leader_id two_servers two_client 2 = (Inr 2, 2)"
    by (simp add: get_leader_id_def two_client_def) (simp add: numeral_3_eq_3 GET_LEADER_NO_LIVE_LEADER_def)
  then show ?thesis
    using client_put_follows_leader [of two_client 1 two_servers "[1]" "[2]" 2 0 CMD_RESULT_NOT_LEADER "[]" 2 2 2 2 "(0, 0, [])" 2]
    by (simp add: two_client_def was_accepted_def get_nuraft_return_code_def)
qed

lemma two_leader: "get_leader_id two_servers two_client 2 = (Inr 2, 2)"
  by (simp add: get_leader_id_def two_client_def) (simp add: numeral_3_eq_3 GET_LEADER_NO_LIVE_LEADER_def)

theorem client_leader_live_witness:
  "(2 :: int) \<noteq> GET_LEADER_NO_LIVE_LEADER \<and>
   (\<exists>i c w1. (i, c) \<in> set (clients two_client) \<and> call_as two_servers c Get_leader_id as_number w1 = (Inr 2, 2))"
  by (rule client_leader_live [OF two_leader])

end
