(* ===== verification/Session.thy ===== *)
theory Session
  imports Server Client
begin

section \<open>Sessions: a client, the servers, and the replication between them\<close>

text \<open>
  The parts put together: the client library (\<open>src/client/client.cpp\<close>) calls the handlers of the
  servers (\<open>src/server/server.cpp\<close>) over a network that loses nothing, and between any two calls
  NuRaft may commit the next entry of the leader's log on any server
  (\<open>splinterdb_state_machine::commit\<close>) or make another server the leader, which the client does not
  hear of: it finds out when the old leader turns a mutation down. The specification is one list of
  operations, of which every server has applied a prefix, and the current leader, which has applied
  them all; a simulation shows that every session of the code is one of the specification.
\<close>

subsection \<open>Runs of events and their simulation\<close>

fun run_acts :: "('e \<Rightarrow> ('s, 'a) act) \<Rightarrow> 'e list \<Rightarrow> ('s, 'a list) act" where
  "run_acts f [] s = (Inr [], s)"
| "run_acts f (e # es) s = abind (f e) (\<lambda>a. abind (run_acts f es) (\<lambda>rest s. (Inr (a # rest), s))) s"

fun run_spec :: "('e \<Rightarrow> 't \<Rightarrow> 'o \<times> 't) \<Rightarrow> 'e list \<Rightarrow> 't \<Rightarrow> 'o list \<times> 't" where
  "run_spec g [] t = ([], t)"
| "run_spec g (e # es) t = (case g e t of (x, t) \<Rightarrow> (case run_spec g es t of (xs, t) \<Rightarrow> (x # xs, t)))"

lemma run_spec_append:
  "run_spec g (es @ fs) t =
     (fst (run_spec g es t) @ fst (run_spec g fs (snd (run_spec g es t))), snd (run_spec g fs (snd (run_spec g es t))))"
  by (induction es arbitrary: t) (simp_all add: case_prod_beta)

text \<open>
  An implementation step answers every event that is legal, shows what the specification says, and
  keeps the relation between the two states. Then so does every run.
\<close>

locale event_simulation =
  fixes istep :: "'e \<Rightarrow> ('s, 'a) act" and sstep :: "'e \<Rightarrow> 't \<Rightarrow> 'o \<times> 't"
    and rel :: "'s \<Rightarrow> 't \<Rightarrow> bool" and legal :: "'e \<Rightarrow> bool" and matches :: "'a \<Rightarrow> 'o \<Rightarrow> bool"
  assumes step: "rel s t \<Longrightarrow> legal e \<Longrightarrow>
      \<exists>a s'. istep e s = (Inr a, s') \<and> matches a (fst (sstep e t)) \<and> rel s' (snd (sstep e t))"
begin

lemma run:
  "rel s t \<Longrightarrow> list_all legal es \<Longrightarrow>
   \<exists>xs s'. run_acts istep es s = (Inr xs, s') \<and> list_all2 matches xs (fst (run_spec sstep es t)) \<and>
     rel s' (snd (run_spec sstep es t))"
proof (induction es arbitrary: s t)
  case (Cons e es)
  obtain a s1 where a: "istep e s = (Inr a, s1)" "matches a (fst (sstep e t))" "rel s1 (snd (sstep e t))"
    using step [OF Cons.prems(1), of e] Cons.prems(2) by auto
  with Cons.IH [OF a(3)] Cons.prems(2) show ?case by (auto simp: case_prod_beta)
qed simp

end

subsection \<open>The code: events of a cluster\<close>

text \<open>
  A cluster on a network that loses nothing: the world holds the servers by id, a connection is a
  server's id, and a call runs that server's handler.
\<close>

type_synonym ('db, 'snp, 'mgr, 'rf, 'dcfg, 'cfg) servers = "(int, ('db, 'snp, 'mgr, 'rf, 'dcfg, 'cfg) server) smap"

definition cluster_rpc :: "('b, 's, 'z) buffer_api_scheme \<Rightarrow> ('sc, 'cc, 'ss, 'cb) raft_conf_api \<Rightarrow>
    ('db, 'r, 'cfg) splinterdb_api \<Rightarrow>
    ('rf, 'rr, 'sc, 'b, ('db, 'snp) splinterdb_state_machine, 'mgr) raft_api \<Rightarrow>
    (int, ('db, 'snp, 'mgr, 'rf, 'dcfg, 'cfg) servers) rpc_api" where
  "cluster_rpc N C D R = \<lparr>
     rpc_connect = (\<lambda>host port w.
       case find (\<lambda>p. rp_client_endpoint (replica_instance (snd p)) = host @ '':'' @ show_nat (unat port)) w of
         Some p \<Rightarrow> (Inr (fst p), w) | None \<Rightarrow> (Inl (Rpc_error ''connection refused''), w)),
     rpc_call = (\<lambda>h req w.
       case sm_find w h of
         None \<Rightarrow> (Inl (Rpc_error ''connection lost''), w)
       | Some s \<Rightarrow> (case client_dispatch N C D R req s of (r, s') \<Rightarrow> (r, sm_put h s' w))),
     rpc_set_timeout = (\<lambda>_ h. h)\<rparr>"

datatype kv_cmd = Put "byte list" "byte list" | Update "byte list" "byte list" | Del "byte list" | Get "byte list"

datatype event = Cmd kv_cmd | Commit_next int | Elect int

datatype answer = Wrote rpc_mutation_result | Got rpc_read_result | Applied

fun run_cmd :: "('h, 'w) rpc_api \<Rightarrow> kv_cmd \<Rightarrow> ('h client \<times> 'w, answer) act" where
  "run_cmd P (Put k v) = abind (client_put P k v) (\<lambda>r st. (Inr (Wrote r), st))"
| "run_cmd P (Update k v) = abind (client_update P k v) (\<lambda>r st. (Inr (Wrote r), st))"
| "run_cmd P (Del k) = abind (client_del P k) (\<lambda>r st. (Inr (Wrote r), st))"
| "run_cmd P (Get k) = abind (client_get P k) (\<lambda>r st. (Inr (Got r), st))"

text \<open>
  What NuRaft does of itself to a Raft server, beyond the calls of \<open>raft_api\<close>: the log it holds, the
  server once it has been elected with an id and a log, and once it follows a leader.
\<close>

record ('rf, 'b) raft_ctl =
  rc_log :: "'rf \<Rightarrow> 'b list"
  rc_lead :: "int \<Rightarrow> 'b list \<Rightarrow> 'rf \<Rightarrow> 'rf"
  rc_follow :: "int \<Rightarrow> 'rf \<Rightarrow> 'rf"

abbreviation raft_of :: "('db, 'snp, 'mgr, 'rf, 'dcfg, 'cfg) server \<Rightarrow> 'rf" where
  "raft_of s \<equiv> rp_raft_instance (replica_instance s)"

abbreviation sm_of :: "('db, 'snp, 'mgr, 'rf, 'dcfg, 'cfg) server \<Rightarrow> ('db, 'snp) splinterdb_state_machine" where
  "sm_of s \<equiv> rp_sm (replica_instance s)"

definition set_sm :: "('db, 'snp) splinterdb_state_machine \<Rightarrow> ('db, 'snp, 'mgr, 'rf, 'dcfg, 'cfg) server \<Rightarrow>
    ('db, 'snp, 'mgr, 'rf, 'dcfg, 'cfg) server" where
  "set_sm sm s = s\<lparr>replica_instance := (replica_instance s)\<lparr>rp_sm := sm\<rparr>\<rparr>"

definition set_raft :: "'rf \<Rightarrow> ('db, 'snp, 'mgr, 'rf, 'dcfg, 'cfg) server \<Rightarrow> ('db, 'snp, 'mgr, 'rf, 'dcfg, 'cfg) server" where
  "set_raft rf s = s\<lparr>replica_instance := (replica_instance s)\<lparr>rp_raft_instance := rf\<rparr>\<rparr>"

text \<open>
  NuRaft calls \<open>commit\<close> on server \<open>i\<close> with the next entry of the log of the leader \<open>l\<close> that \<open>i\<close> knows
  and has not applied; \<open>applied\<close> counts the entries applied by each server but the leader, which
  applies an entry while it appends it.
\<close>

definition commit_next :: "('b, 's, 'z) buffer_api_scheme \<Rightarrow> ('db, 'r, 'cfg) splinterdb_api \<Rightarrow>
    ('rf, 'rr, 'sc, 'b, ('db, 'snp) splinterdb_state_machine, 'mgr) raft_api \<Rightarrow> ('rf, 'b) raft_ctl \<Rightarrow> int \<Rightarrow>
    (('db, 'snp, 'mgr, 'rf, 'dcfg, 'cfg) servers \<times> (int \<Rightarrow> nat), answer) act" where
  "commit_next N D R G i = (\<lambda>(w, applied).
     case sm_find w i of
       None \<Rightarrow> (Inr Applied, (w, applied))
     | Some s \<Rightarrow>
         let l = rf_get_leader R (raft_of s) in
         (case sm_find w l of
            None \<Rightarrow> (Inr Applied, (w, applied))
          | Some ld \<Rightarrow>
              let entries = rc_log G (raft_of ld) in
              if i = l \<or> length entries \<le> applied i then (Inr Applied, (w, applied))
              else (case sm_commit N D (word_of_nat (Suc (applied i))) (entries ! applied i) (sm_of s) of
                      (Inl e, sm) \<Rightarrow> (Inl e, (sm_put i (set_sm sm s) w, applied))
                    | (Inr out, sm) \<Rightarrow> (Inr Applied, (sm_put i (set_sm sm s) w, applied(i := Suc (applied i)))))))"

fun commit_many :: "('b, 's, 'z) buffer_api_scheme \<Rightarrow> ('db, 'r, 'cfg) splinterdb_api \<Rightarrow>
    ('rf, 'rr, 'sc, 'b, ('db, 'snp) splinterdb_state_machine, 'mgr) raft_api \<Rightarrow> ('rf, 'b) raft_ctl \<Rightarrow> int \<Rightarrow> nat \<Rightarrow>
    (('db, 'snp, 'mgr, 'rf, 'dcfg, 'cfg) servers \<times> (int \<Rightarrow> nat), answer) act" where
  "commit_many N D R G i 0 st = (Inr Applied, st)"
| "commit_many N D R G i (Suc n) st = abind (commit_next N D R G i) (\<lambda>_. commit_many N D R G i n) st"

text \<open>
  Server \<open>i\<close> becomes the leader: it has the whole log and commits what it has not applied yet, and
  all other servers follow it. The old leader has applied everything.
\<close>

definition elect :: "('b, 's, 'z) buffer_api_scheme \<Rightarrow> ('db, 'r, 'cfg) splinterdb_api \<Rightarrow>
    ('rf, 'rr, 'sc, 'b, ('db, 'snp) splinterdb_state_machine, 'mgr) raft_api \<Rightarrow> ('rf, 'b) raft_ctl \<Rightarrow> int \<Rightarrow>
    (('db, 'snp, 'mgr, 'rf, 'dcfg, 'cfg) servers \<times> (int \<Rightarrow> nat), answer) act" where
  "elect N D R G i = (\<lambda>(w, applied).
     case sm_find w i of
       None \<Rightarrow> (Inr Applied, (w, applied))
     | Some s \<Rightarrow>
         let l = rf_get_leader R (raft_of s) in
         (case sm_find w l of
            None \<Rightarrow> (Inr Applied, (w, applied))
          | Some ld \<Rightarrow>
              let entries = rc_log G (raft_of ld) in
              if i = l then (Inr Applied, (w, applied))
              else abind (commit_many N D R G i (length entries - applied i)) (\<lambda>_ (w, applied).
                (Inr Applied,
                 (map (\<lambda>(j, s). (j, set_raft (if j = i then rc_lead G i entries (raft_of s) else rc_follow G i (raft_of s)) s)) w,
                  applied(l := length entries)))) (w, applied)))"

fun event_step :: "('b, 's, 'z) buffer_api_scheme \<Rightarrow> ('sc, 'cc, 'ss, 'cb) raft_conf_api \<Rightarrow>
    ('db, 'r, 'cfg) splinterdb_api \<Rightarrow> ('rf, 'rr, 'sc, 'b, ('db, 'snp) splinterdb_state_machine, 'mgr) raft_api \<Rightarrow>
    ('rf, 'b) raft_ctl \<Rightarrow> event \<Rightarrow>
    (int client \<times> ('db, 'snp, 'mgr, 'rf, 'dcfg, 'cfg) servers \<times> (int \<Rightarrow> nat), answer) act" where
  "event_step N C D R G (Cmd c) (cl, w, applied) =
     (case run_cmd (cluster_rpc N C D R) c (cl, w) of (r, (cl, w)) \<Rightarrow> (r, (cl, w, applied)))"
| "event_step N C D R G (Commit_next i) (cl, st) = (case commit_next N D R G i st of (r, st) \<Rightarrow> (r, (cl, st)))"
| "event_step N C D R G (Elect i) (cl, st) = (case elect N D R G i st of (r, st) \<Rightarrow> (r, (cl, st)))"

subsection \<open>The specification: one list of operations, every server at a prefix of it\<close>

record cluster_spec =
  sp_ops :: "splinterdb_operation list"
  sp_applied :: "int \<Rightarrow> nat"
  sp_turn :: "int list"
  sp_leader :: int

datatype outcome = Ok | Value "byte list option" | Silent

text \<open>The map of server \<open>i\<close>: the operations it has applied, from the map all servers started with.\<close>

definition spec_map :: "(byte list option \<Rightarrow> byte list \<Rightarrow> byte list option) \<Rightarrow> kvmap \<Rightarrow> int \<Rightarrow> cluster_spec \<Rightarrow> kvmap" where
  "spec_map mg m0 i sp =
     fold (kv_apply mg) (if i = sp_leader sp then sp_ops sp else take (sp_applied sp i) (sp_ops sp)) m0"

definition spec_append :: "splinterdb_operation \<Rightarrow> cluster_spec \<Rightarrow> outcome \<times> cluster_spec" where
  "spec_append op sp = (Ok, sp\<lparr>sp_ops := sp_ops sp @ [op]\<rparr>)"

fun spec_event :: "(byte list option \<Rightarrow> byte list \<Rightarrow> byte list option) \<Rightarrow> kvmap \<Rightarrow> event \<Rightarrow> cluster_spec \<Rightarrow> outcome \<times> cluster_spec" where
  "spec_event mg m0 (Cmd (Put k v)) sp = spec_append (make_put (owned_slice_vector k) (owned_slice_vector v)) sp"
| "spec_event mg m0 (Cmd (Update k v)) sp = spec_append (make_put (owned_slice_vector k) (owned_slice_vector v)) sp"
| "spec_event mg m0 (Cmd (Del k)) sp = spec_append (make_delete (owned_slice_vector k)) sp"
| "spec_event mg m0 (Cmd (Get k)) sp =
     (Value (spec_map mg m0 (hd (sp_turn sp)) sp k), sp\<lparr>sp_turn := rotate1 (sp_turn sp)\<rparr>)"
| "spec_event mg m0 (Commit_next i) sp =
     (Silent, sp\<lparr>sp_applied := (sp_applied sp)(i := min (length (sp_ops sp)) (Suc (sp_applied sp i)))\<rparr>)"
| "spec_event mg m0 (Elect i) sp =
     (Silent, if i \<in> set (sp_turn sp) \<and> i \<noteq> sp_leader sp
              then sp\<lparr>sp_leader := i, sp_applied := (sp_applied sp)(sp_leader sp := length (sp_ops sp))\<rparr>
              else sp)"

fun matches :: "answer \<Rightarrow> outcome \<Rightarrow> bool" where
  "matches (Wrote r) Ok = is_success r"
| "matches (Got (v, rc)) (Value (Some x)) = (v = x \<and> rc = 0)"
| "matches (Got (v, rc)) (Value None) = (v = [] \<and> rc \<noteq> 0)"
| "matches Applied Silent = True"
| "matches _ _ = False"

text \<open>Keys and values that fit into an operation.\<close>

fun fits :: "event \<Rightarrow> bool" where
  "fits (Cmd (Put k v)) = (length k + length v < 18446744073709551616 - 17)"
| "fits (Cmd (Update k v)) = (length k + length v < 18446744073709551616 - 17)"
| "fits (Cmd (Del k)) = (length k < 18446744073709551616 - 17)"
| "fits _ = True"

subsection \<open>The simulation\<close>

text \<open>
  What the parts outside the repository promise: the laws of buffers and of the store, and of Raft
  servers: one that leads (in a state \<open>I\<close>) commits what it is given, goes on leading, and has added the
  entry to its log; one that has been elected leads with its log; and one that follows names its
  leader and turns an append down as not the leader's or cancelled, changing nothing. (NuRaft may
  also forward such an append to the leader, since \<open>auto_forwarding\<close> is set, and the client then
  does not notice; what the client has to cope with is the case that it does not.)
\<close>

definition rejects :: "('rf, 'rr, 'sc, 'b, 'sm, 'mgr) raft_api \<Rightarrow> 'rf \<Rightarrow> bool" where
  "rejects R rf \<longleftrightarrow> (\<forall>b sm. \<exists>r. append_entries R [b] (rf, sm) = (Some r, (rf, sm)) \<and> \<not> get_accepted R r \<and>
     get_result_code R r \<in> {CMD_RESULT_NOT_LEADER, CMD_RESULT_REQUEST_CANCELLED})"

definition raft_laws :: "('b, 's, 'z) buffer_api_scheme \<Rightarrow> ('db, 'r, 'cfg) splinterdb_api \<Rightarrow>
    ('rf, 'rr, 'sc, 'b, ('db, 'snp) splinterdb_state_machine, 'mgr) raft_api \<Rightarrow> ('rf, 'b) raft_ctl \<Rightarrow>
    ('rf \<Rightarrow> ('db, 'snp) splinterdb_state_machine \<Rightarrow> bool) \<Rightarrow> bool" where
  "raft_laws N D R G I \<longleftrightarrow>
     (\<forall>rf sm. I rf sm \<longrightarrow> leader_commits N D R rf sm \<and>
       (\<forall>b r rf' sm'. append_entries R [b] (rf, sm) = (Some r, rf', sm') \<and> get_accepted R r \<longrightarrow>
          I rf' sm' \<and> rc_log G rf' = rc_log G rf @ [b] \<and> rf_get_leader R rf' = rf_get_leader R rf)) \<and>
     (\<forall>i es rf. rc_log G (rc_lead G i es rf) = es \<and> rf_get_leader R (rc_lead G i es rf) = i \<and>
        (\<forall>sm. I (rc_lead G i es rf) sm)) \<and>
     (\<forall>i rf. rejects R (rc_follow G i rf) \<and> rf_get_leader R (rc_follow G i rf) = i)"

definition outside_laws :: "('b, 's, 'z) buffer_api_scheme \<Rightarrow> (u64 \<Rightarrow> byte list) \<Rightarrow> (i32 \<Rightarrow> byte list) \<Rightarrow>
    ('db, 'r, 'cfg) splinterdb_api \<Rightarrow> ('db \<Rightarrow> kvmap) \<Rightarrow> (byte list option \<Rightarrow> byte list \<Rightarrow> byte list option) \<Rightarrow>
    ('rf, 'rr, 'sc, 'b, ('db, 'snp) splinterdb_state_machine, 'mgr) raft_api \<Rightarrow> ('rf, 'b) raft_ctl \<Rightarrow>
    ('rf \<Rightarrow> ('db, 'snp) splinterdb_state_machine \<Rightarrow> bool) \<Rightarrow> bool" where
  "outside_laws N e64 e32 D kv mg R G I \<longleftrightarrow> buffer_laws N e64 e32 \<and> serializer_laws N e64 e32 \<and>
     kv_laws D kv mg \<and> never_fails D \<and> raft_laws N D R G I"

text \<open>The Raft server of the leader: in a state \<open>I\<close>, its log carries the operations.\<close>

definition leads_with :: "('b, 's, 'z) buffer_api_scheme \<Rightarrow> (u64 \<Rightarrow> byte list) \<Rightarrow> ('rf, 'b) raft_ctl \<Rightarrow>
    ('rf \<Rightarrow> ('db, 'snp) splinterdb_state_machine \<Rightarrow> bool) \<Rightarrow> splinterdb_operation list \<Rightarrow>
    ('db, 'snp, 'mgr, 'rf, 'dcfg, 'cfg) server \<Rightarrow> bool" where
  "leads_with N e64 G I ops s \<longleftrightarrow> I (raft_of s) (sm_of s) \<and>
     list_all2 (\<lambda>b op. op_ok op \<and> op_known op \<and> data_begin N b = op_wire e64 op) (rc_log G (raft_of s)) ops"

text \<open>
  A client of the servers \<open>ids\<close>: connected to each of them and reading from each, with at least two
  tries for a mutation. The server it takes for the leader need not be it.
\<close>

definition connected :: "int client \<Rightarrow> int set \<Rightarrow> bool" where
  "connected cl ids \<longleftrightarrow> 2 \<le> unat (num_retries cl) \<and> set (rd_policy cl) = ids \<and> leader_id cl \<in> ids \<and>
     GET_LEADER_NO_LIVE_LEADER \<notin> ids \<and> (\<forall>i. sm_find (clients cl) i = (if i \<in> ids then Some i else None))"

definition follows_spec :: "('b, 's, 'z) buffer_api_scheme \<Rightarrow> (u64 \<Rightarrow> byte list) \<Rightarrow> ('db \<Rightarrow> kvmap) \<Rightarrow>
    (byte list option \<Rightarrow> byte list \<Rightarrow> byte list option) \<Rightarrow>
    ('rf, 'rr, 'sc, 'b, ('db, 'snp) splinterdb_state_machine, 'mgr) raft_api \<Rightarrow> ('rf, 'b) raft_ctl \<Rightarrow>
    ('rf \<Rightarrow> ('db, 'snp) splinterdb_state_machine \<Rightarrow> bool) \<Rightarrow> kvmap \<Rightarrow>
    int client \<times> ('db, 'snp, 'mgr, 'rf, 'dcfg, 'cfg) servers \<times> (int \<Rightarrow> nat) \<Rightarrow> cluster_spec \<Rightarrow> bool" where
  "follows_spec N e64 kv mg R G I m0 = (\<lambda>(cl, w, applied) sp.
     rd_policy cl = sp_turn sp \<and> connected cl (dom (sm_find w)) \<and>
     (\<exists>ld. sm_find w (sp_leader sp) = Some ld \<and> leads_with N e64 G I (sp_ops sp) ld) \<and>
     (\<forall>i s. sm_find w i = Some s \<longrightarrow>
        cfg_return_method (rp_config (replica_instance s)) = Blocking \<and> rf_get_leader R (raft_of s) = sp_leader sp \<and>
        srv_kv kv s = spec_map mg m0 i sp \<and>
        (i \<noteq> sp_leader sp \<longrightarrow> rejects R (raft_of s) \<and> applied i = sp_applied sp i \<and> sp_applied sp i \<le> length (sp_ops sp))))"

text \<open>What the relation says of one server and of the leader.\<close>

lemma follows_server:
  assumes "follows_spec N e64 kv mg R G I m0 (cl, w, applied) sp" "sm_find w i = Some s"
  shows "cfg_return_method (rp_config (replica_instance s)) = Blocking" "rf_get_leader R (raft_of s) = sp_leader sp"
    "srv_kv kv s = spec_map mg m0 i sp" "i \<noteq> sp_leader sp \<Longrightarrow> rejects R (raft_of s)"
    "i \<noteq> sp_leader sp \<Longrightarrow> applied i = sp_applied sp i" "i \<noteq> sp_leader sp \<Longrightarrow> sp_applied sp i \<le> length (sp_ops sp)"
  using assms unfolding follows_spec_def prod.case by blast+

lemma follows_cluster:
  assumes "follows_spec N e64 kv mg R G I m0 (cl, w, applied) sp"
  shows "rd_policy cl = sp_turn sp" "connected cl (dom (sm_find w))" "dom (sm_find w) = set (sp_turn sp)"
    "\<exists>ld. sm_find w (sp_leader sp) = Some ld \<and> leads_with N e64 G I (sp_ops sp) ld"
  using assms by (auto simp: follows_spec_def connected_def)

text \<open>The relation sees of the table of servers only what a lookup gives.\<close>

lemma follows_find:
  "sm_find w' = sm_find w \<Longrightarrow> follows_spec N e64 kv mg R G I m0 (cl, w', applied) sp = follows_spec N e64 kv mg R G I m0 (cl, w, applied) sp"
  by (simp add: follows_spec_def)

subsection \<open>Mutations\<close>

text \<open>One try on a server that accepts.\<close>

lemma mutate_accepted:
  assumes "sm_find (clients cl) (leader_id cl) = Some (leader_id cl)" "sm_find w (leader_id cl) = Some s"
    and "client_dispatch N C D R req s = (Inr (Mutation res), s')" "is_success res"
  shows "mutate_loop (cluster_rpc N C D R) req (Suc n) start (cl, w) = (Inr res, (cl, sm_put (leader_id cl) s' w))"
proof -
  have "was_accepted res" using assms(4) by (simp add: is_success_def was_accepted_def get_nuraft_return_code_def)
  then show ?thesis using assms(1-3) by (simp add: get_leader_handle_def call_as_def cluster_rpc_def)
qed

text \<open>Every server names the leader, so the first one that is asked does.\<close>

lemma leader_found:
  assumes "connected cl ids" "\<And>i. i \<in> ids \<Longrightarrow> \<exists>s. sm_find w i = Some s \<and> rf_get_leader R (raft_of s) = l" "l \<in> ids"
  shows "\<exists>w'. get_leader_id (cluster_rpc N C D R) cl w = (Inr l, w') \<and> sm_find w' = sm_find w"
proof -
  have "sm_find (clients cl) (leader_id cl) \<noteq> None" using assms(1) by (simp add: connected_def)
  then obtain i h cs where cs: "clients cl = (i, h) # cs" by (cases "clients cl") auto
  then have "sm_find (clients cl) i = Some h" by (simp add: sm_find_def)
  then have i: "h = i" "i \<in> ids" using assms(1) by (auto simp: connected_def split: if_splits)
  obtain s where s: "sm_find w i = Some s" "rf_get_leader R (raft_of s) = l" using assms(2) i by blast
  obtain n where n: "unat (num_retries cl) = Suc n" using assms(1) by (cases "unat (num_retries cl)") (auto simp: connected_def)
  have "l \<noteq> GET_LEADER_NO_LIVE_LEADER" using assms(1,3) by (auto simp: connected_def)
  then have "get_leader_id (cluster_rpc N C D R) cl w = (Inr l, sm_put i s w)"
    using s i by (simp add: get_leader_id_def cs n call_as_def cluster_rpc_def client_dispatch_def handle_get_leader_id_def get_leader_def)
  moreover have "sm_find (sm_put i s w) = sm_find w" using s(1) by auto
  ultimately show ?thesis by blast
qed

text \<open>A server that follows answers a mutation with the code of its Raft server and stays as it is.\<close>

lemma append_rejected:
  assumes "buffer_laws N e64 e32" "serializer_laws N e64 e32" "op_ok op" "rejects R (raft_of s)"
    and "cfg_return_method (rp_config (replica_instance s)) = Blocking"
  shows "\<exists>res. append_and_extract N R op s = (Inr res, s) \<and>
    get_nuraft_return_code res \<in> {CMD_RESULT_NOT_LEADER, CMD_RESULT_REQUEST_CANCELLED}"
proof -
  obtain b where b: "op_serialize N op = Inr b" using op_serialize_wire [OF assms(1-3)] by blast
  obtain r where r: "append_entries R [b] (raft_of s, sm_of s) = (Some r, (raft_of s, sm_of s))" "\<not> get_accepted R r"
    "get_result_code R r \<in> {CMD_RESULT_NOT_LEADER, CMD_RESULT_REQUEST_CANCELLED}"
    using assms(4) unfolding rejects_def by blast
  have "append_and_extract N R op s = (Inr (0, get_result_code R r, get_result_str R r), s)"
    using b r(1,2) assms(5) by (simp add: append_and_extract_def append_log_def get_return_method_def Let_def extract_result_def)
  then show ?thesis using r(3) by (simp add: get_nuraft_return_code_def)
qed

lemma append_leads:
  fixes D :: "('db, 'r, 'cfg) splinterdb_api" and s :: "('db, 'snp, 'mgr, 'rf, 'dcfg, 'cfg) server"
    and R :: "('rf, 'rr, 'sc, 'b, ('db, 'snp) splinterdb_state_machine, 'mgr) raft_api"
  assumes laws: "outside_laws N e64 e32 D kv mg R G I" and op: "op_ok op" "op_known op"
    and s: "leads_with N e64 G I ops s" "cfg_return_method (rp_config (replica_instance s)) = Blocking"
  shows "\<exists>res s'. append_and_extract N R op s = (Inr res, s') \<and> is_success res \<and>
    srv_kv kv s' = kv_apply mg op (srv_kv kv s) \<and> leads_with N e64 G I (ops @ [op]) s' \<and>
    rp_config (replica_instance s') = rp_config (replica_instance s) \<and> rf_get_leader R (raft_of s') = rf_get_leader R (raft_of s)"
proof -
  have l: "buffer_laws N e64 e32" "serializer_laws N e64 e32" "kv_laws D kv mg" "never_fails D" "raft_laws N D R G I"
    using laws by (simp_all add: outside_laws_def)
  have "leader_commits N D R (raft_of s) (sm_of s)" using l(5) s(1) unfolding raft_laws_def leads_with_def by blast
  then have "srv_leads N D R s" using s(2) by (simp add: srv_leads_def)
  from append_and_extract_run [OF l(1-4) op this] obtain res s' b r rf' sm' where
    r: "append_and_extract N R op s = (Inr res, s')" "is_success res" "srv_kv kv s' = kv_apply mg op (srv_kv kv s)"
    "data_begin N b = op_wire e64 op" "get_accepted R r" "append_entries R [b] (raft_of s, sm_of s) = (Some r, rf', sm')"
    "s' = s\<lparr>replica_instance := (replica_instance s)\<lparr>rp_raft_instance := rf', rp_sm := sm'\<rparr>\<rparr>"
    by blast
  have "I rf' sm' \<and> rc_log G rf' = rc_log G (raft_of s) @ [b] \<and> rf_get_leader R rf' = rf_get_leader R (raft_of s)"
    using l(5) s(1) r(5,6) unfolding raft_laws_def leads_with_def by blast
  moreover from this have "leads_with N e64 G I (ops @ [op]) s'"
    using s(1) r(4) op by (simp add: leads_with_def r(7) list_all2_appendI)
  ultimately show ?thesis using r(1-3) by (simp add: r(7))
qed

text \<open>
  A mutation reaches the leader: at once when the client knows it, and otherwise on the second try,
  after the client has asked for the leader and remembered it.
\<close>

lemma mutate_reaches_leader:
  fixes D :: "('db, 'r, 'cfg) splinterdb_api" and w :: "('db, 'snp, 'mgr, 'rf, 'dcfg, 'cfg) servers"
    and R :: "('rf, 'rr, 'sc, 'b, ('db, 'snp) splinterdb_state_machine, 'mgr) raft_api"
  assumes laws: "buffer_laws N e64 e32" "serializer_laws N e64 e32" "op_ok op"
    and rel: "follows_spec N e64 kv mg R G I m0 (cl, w, applied) sp"
    and req: "\<And>s :: ('db, 'snp, 'mgr, 'rf, 'dcfg, 'cfg) server.
      client_dispatch N C D R req s = as_response (append_and_extract N R op) s"
    and ld: "sm_find w (sp_leader sp) = Some ld" "append_and_extract N R op ld = (Inr res, ld')" "is_success res"
  shows "\<exists>w'. mutate_loop (cluster_rpc N C D R) req (unat (num_retries cl)) start (cl, w) =
      (Inr res, (cl\<lparr>leader_id := sp_leader sp\<rparr>, w')) \<and> sm_find w' = (sm_find w)(sp_leader sp \<mapsto> ld')"
proof -
  let ?l = "sp_leader sp" and ?P = "cluster_rpc N C D R"
  have cl: "connected cl (dom (sm_find w))" by (rule follows_cluster(2) [OF rel])
  then have "2 \<le> unat (num_retries cl)" by (simp add: connected_def)
  then obtain n where n: "unat (num_retries cl) = Suc (Suc n)" using Suc_le_D by (metis Suc_le_mono numeral_2_eq_2)
  have find: "sm_find (clients cl) i = Some i" if "i \<in> dom (sm_find w)" for i using cl that by (simp add: connected_def)
  have l: "?l \<in> dom (sm_find w)" using ld(1) by blast
  have disp: "client_dispatch N C D R req ld = (Inr (Mutation res), ld')" using ld(2) by (simp add: req as_response_def)
  have last: "mutate_loop ?P req (Suc k) st (cl\<lparr>leader_id := ?l\<rparr>, w1) = (Inr res, (cl\<lparr>leader_id := ?l\<rparr>, sm_put ?l ld' w1))"
    if "sm_find w1 = sm_find w" for k st w1
    using mutate_accepted [OF _ _ disp ld(3), of "cl\<lparr>leader_id := ?l\<rparr>" w1 k st] that ld(1) find [OF l] by simp
  show ?thesis
  proof (cases "leader_id cl = ?l")
    case True
    then have "cl\<lparr>leader_id := ?l\<rparr> = cl" by (cases cl) simp
    then show ?thesis using last [of w "Suc n" start] by (auto simp: n)
  next
    case False
    let ?i = "leader_id cl"
    have i: "?i \<in> dom (sm_find w)" using cl by (simp add: connected_def)
    then obtain s where s: "sm_find w ?i = Some s" by blast
    obtain r where r: "append_and_extract N R op s = (Inr r, s)"
      "get_nuraft_return_code r \<in> {CMD_RESULT_NOT_LEADER, CMD_RESULT_REQUEST_CANCELLED}"
      using append_rejected [OF laws follows_server(4,1) [OF rel s]] False follows_server(1) [OF rel s] by blast
    have w1: "sm_find (sm_put ?i s w) = sm_find w" using s by auto
    have h: "get_leader_handle cl = Inr ?i" "call_as ?P ?i req as_mutation w = (Inr r, sm_put ?i s w)"
      using find [OF i] s r(1) by (simp_all add: get_leader_handle_def call_as_def cluster_rpc_def req as_response_def)
    have "\<exists>s'. sm_find (sm_put ?i s w) j = Some s' \<and> rf_get_leader R (raft_of s') = ?l" if "j \<in> dom (sm_find w)" for j
      using that follows_server(2) [OF rel] unfolding w1 by blast
    from leader_found [OF cl this l] obtain w2 where
      g: "get_leader_id ?P cl (sm_put ?i s w) = (Inr ?l, w2)" "sm_find w2 = sm_find w"
      unfolding w1 by blast
    have "mutate_loop ?P req (Suc (Suc n)) start (cl, w) = mutate_loop ?P req (Suc n) r (cl\<lparr>leader_id := ?l\<rparr>, w2)"
      using h g(1) r(2)
      by (subst mutate_loop.simps)
        (auto simp: was_accepted_def try_handle_leader_change_def CMD_RESULT_NOT_LEADER_def
          CMD_RESULT_REQUEST_CANCELLED_def CMD_RESULT_WEIRD_CASE_def simp del: mutate_loop.simps)
    then show ?thesis using last [OF g(2), of n r] g(2) by (auto simp: n simp del: mutate_loop.simps)
  qed
qed

lemma spec_map_append:
  "i \<noteq> sp_leader sp \<Longrightarrow> sp_applied sp i \<le> length (sp_ops sp) \<Longrightarrow> spec_map mg m0 i (sp\<lparr>sp_ops := sp_ops sp @ [op]\<rparr>) = spec_map mg m0 i sp"
  "spec_map mg m0 (sp_leader sp) (sp\<lparr>sp_ops := sp_ops sp @ [op]\<rparr>) = kv_apply mg op (spec_map mg m0 (sp_leader sp) sp)"
  by (simp_all add: spec_map_def)

lemma spec_map_turn [simp]: "spec_map mg m0 i (sp\<lparr>sp_turn := q\<rparr>) = spec_map mg m0 i sp"
  by (simp add: spec_map_def)

lemma mutation_step:
  fixes D :: "('db, 'r, 'cfg) splinterdb_api" and w :: "('db, 'snp, 'mgr, 'rf, 'dcfg, 'cfg) servers"
    and R :: "('rf, 'rr, 'sc, 'b, ('db, 'snp) splinterdb_state_machine, 'mgr) raft_api"
  assumes laws: "outside_laws N e64 e32 D kv mg R G I" and op: "op_ok op" "op_known op"
    and rel: "follows_spec N e64 kv mg R G I m0 (cl, w, applied) sp"
    and req: "\<And>s :: ('db, 'snp, 'mgr, 'rf, 'dcfg, 'cfg) server.
      client_dispatch N C D R req s = as_response (append_and_extract N R op) s"
  shows "\<exists>res cl' w'. mutate_loop (cluster_rpc N C D R) req (unat (num_retries cl)) start (cl, w) = (Inr res, (cl', w')) \<and>
    is_success res \<and> follows_spec N e64 kv mg R G I m0 (cl', w', applied) (snd (spec_append op sp))"
proof -
  let ?l = "sp_leader sp" and ?sp = "sp\<lparr>sp_ops := sp_ops sp @ [op]\<rparr>"
  obtain s where s: "sm_find w ?l = Some s" "leads_with N e64 G I (sp_ops sp) s" using follows_cluster(4) [OF rel] by blast
  obtain res s' where a: "append_and_extract N R op s = (Inr res, s')" "is_success res"
    "srv_kv kv s' = kv_apply mg op (srv_kv kv s)" "leads_with N e64 G I (sp_ops sp @ [op]) s'"
    "rp_config (replica_instance s') = rp_config (replica_instance s)" "rf_get_leader R (raft_of s') = rf_get_leader R (raft_of s)"
    using append_leads [OF laws op s(2) follows_server(1) [OF rel s(1)]] by blast
  have "buffer_laws N e64 e32" "serializer_laws N e64 e32" using laws by (simp_all add: outside_laws_def)
  from mutate_reaches_leader [OF this op(1) rel req s(1) a(1,2), of start] obtain w' where
    m: "mutate_loop (cluster_rpc N C D R) req (unat (num_retries cl)) start (cl, w) = (Inr res, (cl\<lparr>leader_id := ?l\<rparr>, w'))"
    and w': "sm_find w' = (sm_find w)(?l \<mapsto> s')"
    by blast
  have "dom (sm_find w') = dom (sm_find w)" using s(1) by (auto simp: w')
  then have "connected (cl\<lparr>leader_id := ?l\<rparr>) (dom (sm_find w'))"
    using follows_cluster(2) [OF rel] s(1) by (auto simp: connected_def)
  moreover have "srv_kv kv s' = spec_map mg m0 ?l ?sp"
    using a(3) follows_server(3) [OF rel s(1)] by (simp add: spec_map_append(2))
  moreover have "srv_kv kv t = spec_map mg m0 i ?sp \<and> sp_applied sp i \<le> Suc (length (sp_ops sp))"
    if "sm_find w i = Some t" "i \<noteq> ?l" for i t
    using follows_server(3,6) [OF rel that(1)] that(2) by (simp add: spec_map_append(1))
  ultimately have "follows_spec N e64 kv mg R G I m0 (cl\<lparr>leader_id := ?l\<rparr>, w', applied) ?sp"
    using follows_cluster(1) [OF rel] follows_server [OF rel] follows_server(1,2) [OF rel s(1)] a(4-6)
    by (auto simp: follows_spec_def w')
  then show ?thesis using m a(2) by (auto simp: spec_append_def)
qed

subsection \<open>Reads, commits and elections\<close>

lemma get_step:
  assumes laws: "kv_laws D kv mg" "never_fails D"
    and rel: "follows_spec N e64 kv mg R G I m0 (cl, w, applied) sp"
  shows "\<exists>r cl' w'. client_get (cluster_rpc N C D R) k (cl, w) = (Inr r, (cl', w')) \<and>
    matches (Got r) (fst (spec_event mg m0 (Cmd (Get k)) sp)) \<and>
    follows_spec N e64 kv mg R G I m0 (cl', w', applied) (snd (spec_event mg m0 (Cmd (Get k)) sp))"
proof -
  have cl: "connected cl (dom (sm_find w))" by (rule follows_cluster(2) [OF rel])
  obtain i q where q: "rd_policy cl = i # q" using cl by (cases "rd_policy cl") (auto simp: connected_def)
  have turn: "sp_turn sp = i # q" using follows_cluster(1) [OF rel] q by simp
  then obtain s where s: "sm_find w i = Some s" using follows_cluster(3) [OF rel] by fastforce
  then have h: "sm_find (clients cl) i = Some i" using cl by (auto simp: connected_def)
  have "client_get (cluster_rpc N C D R) k (cl, w) = (Inr (handle_get D k s), (cl\<lparr>rd_policy := q @ [i]\<rparr>, sm_put i s w))"
    using s h by (simp add: client_get_def q next_server_def call_as_def cluster_rpc_def client_dispatch_def)
  moreover have "matches (Got (handle_get D k s)) (Value (spec_map mg m0 i sp k))"
    using handle_get_map [OF laws, of k s] follows_server(3) [OF rel s] by (auto split: option.splits)
  moreover have "follows_spec N e64 kv mg R G I m0 (cl\<lparr>rd_policy := q @ [i]\<rparr>, w, applied) (sp\<lparr>sp_turn := q @ [i]\<rparr>)"
    using rel q turn by (auto simp: follows_spec_def connected_def)
  then have "follows_spec N e64 kv mg R G I m0 (cl\<lparr>rd_policy := q @ [i]\<rparr>, sm_put i s w, applied) (sp\<lparr>sp_turn := q @ [i]\<rparr>)"
    using s by (subst follows_find [of _ w]) auto
  ultimately show ?thesis by (auto simp: turn)
qed

lemma set_sm_simps [simp]: "raft_of (set_sm sm s) = raft_of s" "sm_of (set_sm sm s) = sm"
    "rp_config (replica_instance (set_sm sm s)) = rp_config (replica_instance s)" "srv_kv kv (set_sm sm s) = kv (spl_handle sm)"
  by (simp_all add: set_sm_def srv_kv_def)

lemma set_raft_simps [simp]: "raft_of (set_raft rf s) = rf" "sm_of (set_raft rf s) = sm_of s"
    "rp_config (replica_instance (set_raft rf s)) = rp_config (replica_instance s)" "srv_kv kv (set_raft rf s) = srv_kv kv s"
  by (simp_all add: set_raft_def srv_kv_def)

text \<open>The specification after \<open>n\<close> commits on server \<open>i\<close>.\<close>

definition spec_commit :: "int \<Rightarrow> nat \<Rightarrow> cluster_spec \<Rightarrow> cluster_spec" where
  "spec_commit i n sp = sp\<lparr>sp_applied := (sp_applied sp)(i := min (length (sp_ops sp)) (sp_applied sp i + n))\<rparr>"

lemma leader_log_length: "leads_with N e64 G I ops s \<Longrightarrow> length (rc_log G (raft_of s)) = length ops"
  by (auto simp: leads_with_def dest: list_all2_lengthD)

lemma commit_step:
  assumes laws: "buffer_laws N e64 e32" "serializer_laws N e64 e32" "kv_laws D kv mg" "never_fails D"
    and rel: "follows_spec N e64 kv mg R G I m0 (cl, w, applied) sp"
  shows "\<exists>w' applied'. commit_next N D R G i (w, applied) = (Inr Applied, (w', applied')) \<and>
    follows_spec N e64 kv mg R G I m0 (cl, w', applied') (spec_commit i 1 sp)"
proof (cases "sm_find w i = None \<or> i = sp_leader sp \<or> length (sp_ops sp) \<le> applied i")
  case True
  obtain ld where ld: "sm_find w (sp_leader sp) = Some ld" "leads_with N e64 G I (sp_ops sp) ld"
    using follows_cluster(4) [OF rel] by blast
  have "commit_next N D R G i (w, applied) = (Inr Applied, (w, applied))"
    using True ld(1) follows_server(2) [OF rel, of i] leader_log_length [OF ld(2)]
    by (auto simp: commit_next_def Let_def split: option.split)
  moreover have "follows_spec N e64 kv mg R G I m0 (cl, w, applied) (spec_commit i 1 sp)"
    using rel True by (fastforce simp: follows_spec_def spec_map_def spec_commit_def)
  ultimately show ?thesis by blast
next
  case False
  then obtain s where s: "sm_find w i = Some s" and i: "i \<noteq> sp_leader sp" by auto
  obtain ld where ld: "sm_find w (sp_leader sp) = Some ld" "leads_with N e64 G I (sp_ops sp) ld"
    using follows_cluster(4) [OF rel] by blast
  let ?n = "applied i" and ?es = "rc_log G (raft_of ld)" and ?sp = "spec_commit i 1 sp"
  have n: "?n = sp_applied sp i" "?n < length (sp_ops sp)" using False follows_server(5) [OF rel s i] by simp_all
  have op: "op_ok (sp_ops sp ! ?n)" "op_known (sp_ops sp ! ?n)" "data_begin N (?es ! ?n) = op_wire e64 (sp_ops sp ! ?n)"
    using ld(2) n(2) leader_log_length [OF ld(2)] by (auto simp: leads_with_def list_all2_conv_all_nth)
  obtain out sm where c: "sm_commit N D (word_of_nat (Suc ?n)) (?es ! ?n) (sm_of s) = (Inr out, sm)"
    "kv (spl_handle sm) = kv_apply mg (sp_ops sp ! ?n) (srv_kv kv s)"
    using commit_ok [OF laws(1-3) op, of "word_of_nat (Suc ?n)" "sm_of s"] laws(4) by (auto simp: srv_kv_def)
  have "commit_next N D R G i (w, applied) = (Inr Applied, (sm_put i (set_sm sm s) w, applied(i := Suc ?n)))"
    using s i ld(1) c(1) n leader_log_length [OF ld(2)] follows_server(2) [OF rel s] by (simp add: commit_next_def Let_def)
  moreover have "srv_kv kv (set_sm sm s) = spec_map mg m0 i ?sp"
    using c(2) n i follows_server(3) [OF rel s] by (simp add: spec_map_def spec_commit_def take_Suc_conv_app_nth)
  then have "follows_spec N e64 kv mg R G I m0 (cl, sm_put i (set_sm sm s) w, applied(i := Suc ?n)) ?sp"
    using rel s i n by (auto simp: follows_spec_def spec_map_def spec_commit_def connected_def insert_absorb domI)
  ultimately show ?thesis by blast
qed

lemma spec_commit_Suc: "spec_commit i n (spec_commit i 1 sp) = spec_commit i (Suc n) sp"
  by (simp add: spec_commit_def min_def)

lemma commit_many_step:
  assumes laws: "buffer_laws N e64 e32" "serializer_laws N e64 e32" "kv_laws D kv mg" "never_fails D"
    and rel: "follows_spec N e64 kv mg R G I m0 (cl, w, applied) sp" "sp_applied sp i \<le> length (sp_ops sp)"
  shows "\<exists>w' applied'. commit_many N D R G i n (w, applied) = (Inr Applied, (w', applied')) \<and>
    follows_spec N e64 kv mg R G I m0 (cl, w', applied') (spec_commit i n sp)"
  using rel
proof (induction n arbitrary: w applied sp)
  case 0
  then show ?case by (simp add: spec_commit_def min_absorb2)
next
  case (Suc n)
  obtain w1 a1 where 1: "commit_next N D R G i (w, applied) = (Inr Applied, (w1, a1))"
    "follows_spec N e64 kv mg R G I m0 (cl, w1, a1) (spec_commit i 1 sp)"
    using commit_step [OF laws Suc.prems(1)] by blast
  have "sp_applied (spec_commit i 1 sp) i \<le> length (sp_ops (spec_commit i 1 sp))" by (simp add: spec_commit_def)
  from Suc.IH [OF 1(2) this, unfolded spec_commit_Suc] show ?case using 1(1) by (simp add: abind_def)
qed

lemma sm_find_map_key: "sm_find (map (\<lambda>(j, s). (j, f j s)) m) i = map_option (f i) (sm_find m i)"
  unfolding sm_find_def by (induction m) auto

text \<open>Once \<open>i\<close> has applied everything and has the log, it can lead and the others follow it.\<close>

abbreviation elected :: "('rf, 'b) raft_ctl \<Rightarrow> int \<Rightarrow> 'b list \<Rightarrow> int \<Rightarrow> ('db, 'snp, 'mgr, 'rf, 'dcfg, 'cfg) server \<Rightarrow>
    ('db, 'snp, 'mgr, 'rf, 'dcfg, 'cfg) server" where
  "elected G i es j s \<equiv> set_raft (if j = i then rc_lead G i es (raft_of s) else rc_follow G i (raft_of s)) s"

lemma elected_follows:
  assumes R: "raft_laws N D R G I" and rel: "follows_spec N e64 kv mg R G I m0 (cl, w, applied) sp"
    and i: "i \<in> set (sp_turn sp)" "sp_applied sp i = length (sp_ops sp)" "i \<noteq> sp_leader sp"
    and es: "list_all2 (\<lambda>b op. op_ok op \<and> op_known op \<and> data_begin N b = op_wire e64 op) es (sp_ops sp)"
  shows "follows_spec N e64 kv mg R G I m0
    (cl, map (\<lambda>(j, s). (j, elected G i es j s)) w, applied(sp_leader sp := length (sp_ops sp)))
    (sp\<lparr>sp_leader := i, sp_applied := (sp_applied sp)(sp_leader sp := length (sp_ops sp))\<rparr>)"
proof -
  let ?w = "map (\<lambda>(j, s). (j, elected G i es j s)) w"
  let ?sp = "sp\<lparr>sp_leader := i, sp_applied := (sp_applied sp)(sp_leader sp := length (sp_ops sp))\<rparr>"
  have find: "sm_find ?w j = map_option (elected G i es j) (sm_find w j)" for j by (rule sm_find_map_key)
  have dom: "dom (sm_find ?w) = dom (sm_find w)" by (auto simp: domIff find)
  have map: "spec_map mg m0 j ?sp = spec_map mg m0 j sp" for j using i by (simp add: spec_map_def)
  obtain s where s: "sm_find w i = Some s" using follows_cluster(3) [OF rel] i(1) by blast
  have lead: "rc_log G (rc_lead G i es rf) = es" "rf_get_leader R (rc_lead G i es rf) = i" "I (rc_lead G i es rf) sm"
    "rejects R (rc_follow G i rf)" "rf_get_leader R (rc_follow G i rf) = i" for rf sm
    using R unfolding raft_laws_def by blast+
  have "leads_with N e64 G I (sp_ops ?sp) (elected G i es i s)" using es by (simp add: leads_with_def lead)
  then have "\<exists>ld. sm_find ?w (sp_leader ?sp) = Some ld \<and> leads_with N e64 G I (sp_ops ?sp) ld" using s by (simp add: find)
  moreover have "cfg_return_method (rp_config (replica_instance t)) = Blocking \<and> rf_get_leader R (raft_of t) = sp_leader ?sp \<and>
      srv_kv kv t = spec_map mg m0 j ?sp \<and>
      (j \<noteq> sp_leader ?sp \<longrightarrow> rejects R (raft_of t) \<and> (applied(sp_leader sp := length (sp_ops sp))) j = sp_applied ?sp j \<and>
        sp_applied ?sp j \<le> length (sp_ops ?sp))" if t: "sm_find ?w j = Some t" for j t
  proof -
    obtain u where u: "sm_find w j = Some u" "t = elected G i es j u" using t unfolding find map_option_eq_Some by blast
    show ?thesis unfolding map using follows_server [OF rel u(1)] by (auto simp: u(2) lead)
  qed
  moreover have "rd_policy cl = sp_turn ?sp" using follows_cluster(1) [OF rel] by simp
  ultimately show ?thesis
    unfolding follows_spec_def prod.case dom using follows_cluster(2) [OF rel] by blast
qed

text \<open>How much the leader has applied is not counted.\<close>

lemma follows_leader_applied:
  "follows_spec N e64 kv mg R G I m0 st (sp\<lparr>sp_applied := (sp_applied sp)(sp_leader sp := n)\<rparr>) =
   follows_spec N e64 kv mg R G I m0 st sp"
  by (auto simp: follows_spec_def spec_map_def split: prod.splits)

lemma elect_step:
  assumes laws: "outside_laws N e64 e32 D kv mg R G I" and rel: "follows_spec N e64 kv mg R G I m0 (cl, w, applied) sp"
  shows "\<exists>w' applied'. elect N D R G i (w, applied) = (Inr Applied, (w', applied')) \<and>
    follows_spec N e64 kv mg R G I m0 (cl, w', applied') (snd (spec_event mg m0 (Elect i) sp))"
proof -
  let ?l = "sp_leader sp" and ?len = "length (sp_ops sp)"
  have l: "buffer_laws N e64 e32" "serializer_laws N e64 e32" "kv_laws D kv mg" "never_fails D" "raft_laws N D R G I"
    using laws by (simp_all add: outside_laws_def)
  obtain ld where ld: "sm_find w ?l = Some ld" "leads_with N e64 G I (sp_ops sp) ld" using follows_cluster(4) [OF rel] by blast
  show ?thesis
  proof (cases "i \<in> set (sp_turn sp) \<and> i \<noteq> ?l")
    case False
    then have "elect N D R G i (w, applied) = (Inr Applied, (w, applied))"
      using follows_cluster(3) [OF rel] follows_server(2) [OF rel, of i] ld(1)
      by (auto simp: elect_def Let_def split: option.split)
    then show ?thesis using rel False by auto
  next
    case True
    then obtain s where s: "sm_find w i = Some s" and i: "i \<noteq> ?l" using follows_cluster(3) [OF rel] by (metis domD)
    let ?es = "rc_log G (raft_of ld)"
    have n: "applied i = sp_applied sp i" "sp_applied sp i \<le> ?len" using follows_server(5,6) [OF rel s i] by simp_all
    let ?sp1 = "sp\<lparr>sp_applied := (sp_applied sp)(i := ?len)\<rparr>"
    obtain w1 a1 where 1: "commit_many N D R G i (?len - applied i) (w, applied) = (Inr Applied, (w1, a1))"
      "follows_spec N e64 kv mg R G I m0 (cl, w1, a1) ?sp1"
      using commit_many_step [OF l(1-4) rel n(2), of "?len - applied i"] n by (auto simp: spec_commit_def)
    let ?w = "map (\<lambda>(j, s). (j, elected G i ?es j s)) w1"
    have "elect N D R G i (w, applied) = (Inr Applied, (?w, a1(?l := ?len)))"
      using s ld(1) follows_server(2) [OF rel s] i 1(1) leader_log_length [OF ld(2)] by (simp add: elect_def Let_def abind_def)
    moreover have "follows_spec N e64 kv mg R G I m0 (cl, ?w, a1(?l := ?len))
        (?sp1\<lparr>sp_leader := i, sp_applied := (sp_applied ?sp1)(?l := ?len)\<rparr>)"
      using elected_follows [OF l(5) 1(2), of i ?es] True ld(2) by (simp add: leads_with_def)
    then have "follows_spec N e64 kv mg R G I m0 (cl, ?w, a1(?l := ?len)) (snd (spec_event mg m0 (Elect i) sp))"
      using follows_leader_applied [of N e64 kv mg R G I m0 "(cl, ?w, a1(?l := ?len))"
          "sp\<lparr>sp_leader := i, sp_applied := (sp_applied sp)(?l := ?len)\<rparr>" ?len] True
      by (simp add: fun_upd_twist [OF i])
    ultimately show ?thesis by blast
  qed
qed

subsection \<open>Every event\<close>

definition simulates :: "('b, 's, 'z) buffer_api_scheme \<Rightarrow> (u64 \<Rightarrow> byte list) \<Rightarrow> (i32 \<Rightarrow> byte list) \<Rightarrow>
    ('db, 'r, 'cfg) splinterdb_api \<Rightarrow> ('db \<Rightarrow> kvmap) \<Rightarrow> (byte list option \<Rightarrow> byte list \<Rightarrow> byte list option) \<Rightarrow>
    ('rf, 'rr, 'sc, 'b, ('db, 'snp) splinterdb_state_machine, 'mgr) raft_api \<Rightarrow> ('rf, 'b) raft_ctl \<Rightarrow>
    ('rf \<Rightarrow> ('db, 'snp) splinterdb_state_machine \<Rightarrow> bool) \<Rightarrow> kvmap \<Rightarrow>
    int client \<times> ('db, 'snp, 'mgr, 'rf, 'dcfg, 'cfg) servers \<times> (int \<Rightarrow> nat) \<Rightarrow> cluster_spec \<Rightarrow> bool" where
  "simulates N e64 e32 D kv mg R G I m0 st sp \<longleftrightarrow>
     outside_laws N e64 e32 D kv mg R G I \<and> follows_spec N e64 kv mg R G I m0 st sp"

lemma event_step_simulates:
  assumes sim: "simulates N e64 e32 D kv mg R G I m0 st sp" and fits: "fits e"
  shows "\<exists>a st'. event_step N C D R G e st = (Inr a, st') \<and> matches a (fst (spec_event mg m0 e sp)) \<and>
    simulates N e64 e32 D kv mg R G I m0 st' (snd (spec_event mg m0 e sp))"
proof -
  obtain cl w applied where st: "st = (cl, w, applied)" by (cases st) auto
  have laws: "outside_laws N e64 e32 D kv mg R G I" and rel: "follows_spec N e64 kv mg R G I m0 (cl, w, applied) sp"
    using sim by (auto simp: simulates_def st)
  have l: "buffer_laws N e64 e32" "serializer_laws N e64 e32" "kv_laws D kv mg" "never_fails D"
    using laws by (simp_all add: outside_laws_def)
  note mut = mutation_step [OF laws _ _ rel, where C = C and start = initial_result]
  show ?thesis
  proof (cases e)
    case (Cmd c)
    show ?thesis
    proof (cases c)
      case (Put k v)
      then show ?thesis using mut [OF put_operation(1,2), of k v "Splinterdb_put k v"] fits laws
        by (auto simp: Cmd st client_put_def client_dispatch_def handle_put_def simulates_def spec_append_def)
    next
      case (Update k v)
      then show ?thesis using mut [OF put_operation(1,2), of k v "Splinterdb_update k v"] fits laws
        by (auto simp: Cmd st client_update_def client_dispatch_def handle_update_def simulates_def spec_append_def)
    next
      case (Del k)
      then show ?thesis using mut [OF delete_operation(1,2), of k "Splinterdb_delete k"] fits laws
        by (auto simp: Cmd st client_del_def client_dispatch_def handle_delete_def simulates_def spec_append_def)
    next
      case (Get k)
      then show ?thesis using get_step [OF l(3,4) rel, of C k] laws
        by (auto simp: Cmd st simulates_def simp del: spec_event.simps)
    qed
  next
    case (Commit_next i)
    then show ?thesis using commit_step [OF l rel, of i] laws by (auto simp: st simulates_def spec_commit_def)
  next
    case (Elect i)
    then show ?thesis using elect_step [OF laws rel, of i] laws by (auto simp: st simulates_def)
  qed
qed

interpretation session: event_simulation "event_step N C D R G" "spec_event mg m0"
    "simulates N e64 e32 D kv mg R G I m0" fits matches
  for N C D R G mg m0 e64 e32 kv I
  by unfold_locales (rule event_step_simulates)

subsection \<open>What sessions show\<close>


text \<open>The operations that an event adds to the log.\<close>

fun event_ops :: "event \<Rightarrow> splinterdb_operation list" where
  "event_ops (Cmd (Put k v)) = [make_put (owned_slice_vector k) (owned_slice_vector v)]"
| "event_ops (Cmd (Update k v)) = [make_put (owned_slice_vector k) (owned_slice_vector v)]"
| "event_ops (Cmd (Del k)) = [make_delete (owned_slice_vector k)]"
| "event_ops _ = []"

lemma spec_event_ops:
  "sp_ops (snd (spec_event mg m0 e sp)) = sp_ops sp @ event_ops e"
  "set (sp_turn (snd (spec_event mg m0 e sp))) = set (sp_turn sp)"
  by (cases "(mg, m0, e, sp)" rule: spec_event.cases; simp add: spec_append_def)+

lemma run_spec_ops:
  "sp_ops (snd (run_spec (spec_event mg m0) es sp)) = sp_ops sp @ concat (map event_ops es)"
  "set (sp_turn (snd (run_spec (spec_event mg m0) es sp))) = set (sp_turn sp)"
  by (induction es arbitrary: sp) (simp_all add: case_prod_beta spec_event_ops)

lemma run_spec_commits:
  "min (length (sp_ops sp)) (sp_applied sp i + n) \<le> sp_applied (snd (run_spec (spec_event mg m0) (replicate n (Commit_next i)) sp)) i"
proof (induction n arbitrary: sp)
  case (Suc n)
  show ?case
    using Suc.IH [of "snd (spec_event mg m0 (Commit_next i) sp)"] by (auto simp: case_prod_beta)
qed simp

lemma length_event_ops: "length (concat (map event_ops es)) \<le> length es"
proof (induction es)
  case (Cons e es)
  have "length (event_ops e) \<le> 1" by (cases e rule: event_ops.cases) auto
  then show ?case using Cons by simp
qed simp


subsection \<open>A cluster of two\<close>

definition ref_ctl :: "(rraft, rbuf) raft_ctl" where
  "ref_ctl = \<lparr>rc_log = (\<lambda>rf. snd (snd rf)), rc_lead = (\<lambda>i es _. (True, i, es)), rc_follow = (\<lambda>i rf. (False, i, snd (snd rf)))\<rparr>"

definition ref_leads :: "rraft \<Rightarrow> rsm \<Rightarrow> bool" where
  "ref_leads rf sm = fst rf"

lemma ref_raft_laws: "raft_laws ref_nuraft ref_splinterdb ref_raft ref_ctl ref_leads"
  using ref_raft_leads
  by (auto simp: raft_laws_def ref_leads_def ref_ctl_def ref_raft_def ref_append_def rejects_def CMD_RESULT_NOT_LEADER_def
      split: prod.splits sum.splits)

lemma ref_outside_laws: "outside_laws ref_nuraft u64_bytes i32_bytes ref_splinterdb map_of (\<lambda>_ v. Some v) ref_raft ref_ctl ref_leads"
  using ref_buffer_laws ref_serializer_laws ref_kv_laws ref_never_fails ref_raft_laws by (simp add: outside_laws_def)

lemma ref_server:
  assumes "cfg_server_id cfg \<noteq> 0" "2 < unat (cfg_initialization_retries cfg)" "cfg_return_method cfg = Blocking"
  shows "\<exists>s :: rserver. server_new ref_nuraft ref_conf ref_splinterdb ref_raft False cp jp cfg = Inr s \<and>
    srv_kv map_of s = Map.empty \<and> raft_of s = (True, 1, []) \<and> cfg_return_method (rp_config (replica_instance s)) = Blocking"
  using ref_replica_new [OF assms(1,2)] assms(3) by (auto simp: server_new_def srv_kv_def)

text \<open>The second server has joined the cluster of the first and follows it.\<close>

definition demo_start :: "rserver \<Rightarrow> rserver \<Rightarrow> int client \<times> (int, rserver) smap \<times> (int \<Rightarrow> nat)" where
  "demo_start s1 s2 = (\<lparr>clients = [(1, 1), (2, 2)], rd_policy = [1, 2], leader_id = 1, num_retries = 3\<rparr>,
     [(1, s1), (2, set_raft (rc_follow ref_ctl 1 (raft_of s2)) s2)], \<lambda>_. 0)"

definition demo_spec :: cluster_spec where
  "demo_spec = \<lparr>sp_ops = [], sp_applied = \<lambda>_. 0, sp_turn = [1, 2], sp_leader = 1\<rparr>"

definition demo_session :: "event list" where
  "demo_session = [Cmd (Put [1] [2]), Cmd (Get [1]), Cmd (Get [1]), Elect 2, Cmd (Put [1] [3]), Cmd (Get [1]), Cmd (Get [1])]"

lemma demo_start_follows:
  "\<exists>s1 s2. demo_server = Inr s1 \<and>
     follows_spec ref_nuraft u64_bytes map_of (\<lambda>_ v. Some v) ref_raft ref_ctl ref_leads Map.empty (demo_start s1 s2) demo_spec"
proof -
  let ?cfg2 = "demo_config\<lparr>cfg_server_id := 2\<rparr>"
  have c: "cfg_server_id demo_config \<noteq> 0" "2 < unat (cfg_initialization_retries demo_config)" "cfg_return_method demo_config = Blocking"
    "cfg_server_id ?cfg2 \<noteq> 0" "2 < unat (cfg_initialization_retries ?cfg2)" "cfg_return_method ?cfg2 = Blocking"
    by (simp_all add: demo_config_def replica_config_new_def)
  obtain s1 :: rserver where s1: "demo_server = Inr s1" "srv_kv map_of s1 = Map.empty" "raft_of s1 = (True, 1, [])"
    "cfg_return_method (rp_config (replica_instance s1)) = Blocking"
    using ref_server [OF c(1-3), of 10003 10002] unfolding demo_server_def by blast
  obtain s2 :: rserver where s2: "srv_kv map_of s2 = Map.empty" "cfg_return_method (rp_config (replica_instance s2)) = Blocking"
    using ref_server [OF c(4-6)] by blast
  have f: "rejects ref_raft (rc_follow ref_ctl 1 rf)" "rf_get_leader ref_raft (rc_follow ref_ctl 1 rf) = 1" for rf
    using ref_raft_laws unfolding raft_laws_def by blast+
  have l: "leads_with ref_nuraft u64_bytes ref_ctl ref_leads [] s1" "rf_get_leader ref_raft (raft_of s1) = 1"
    by (simp_all add: leads_with_def s1(3) ref_leads_def ref_ctl_def ref_raft_def)
  have d: "sm_find [(1 :: int, a), (2, b)] = [1 \<mapsto> a, 2 \<mapsto> b]" for a b :: rserver by (auto simp: sm_find_def)
  have "connected \<lparr>clients = [(1, 1), (2, 2)], rd_policy = [1, 2], leader_id = 1, num_retries = 3\<rparr> {1, 2}"
    by (auto simp: connected_def sm_find_def GET_LEADER_NO_LIVE_LEADER_def)
  then have "follows_spec ref_nuraft u64_bytes map_of (\<lambda>_ v. Some v) ref_raft ref_ctl ref_leads Map.empty (demo_start s1 s2) demo_spec"
    using s1 s2 f l
    by (auto simp: follows_spec_def demo_start_def demo_spec_def d spec_map_def insert_commute split: if_splits)
  then show ?thesis using s1(1) by blast
qed



end
