(* ===== verification/Rpc_Typing.thy ===== *)
theory Rpc_Typing
  imports Session
begin

section \<open>The types of calls and responses\<close>

text \<open>
  rpclib checks the type of a response only when it is read: \<open>.as<T>()\<close> throws when the response is
  not a \<open>T\<close>. Nothing in the language relates the types that the handlers of \<open>src/server/server.cpp\<close>
  return to the types that \<open>src/client/client.cpp\<close> asks for. Here they are compared: every procedure
  has a result type, every handler returns it, and so no call of the client is read at a wrong type.
\<close>

subsection \<open>Result types\<close>

datatype rpc_type = T_text | T_number | T_flag | T_servers | T_read | T_mutation | T_joined

fun type_of :: "rpc_response \<Rightarrow> rpc_type" where
  "type_of (Text _) = T_text"
| "type_of (Number _) = T_number"
| "type_of (Flag _) = T_flag"
| "type_of (Servers _) = T_servers"
| "type_of (Read _) = T_read"
| "type_of (Mutation _) = T_mutation"
| "type_of (Joined _ _) = T_joined"

text \<open>The \<open>T\<close> of the call sites.\<close>

fun result_type :: "rpc_request \<Rightarrow> rpc_type" where
  "result_type (Join_replica_group _ _ _) = T_joined"
| "result_type Ping = T_text"
| "result_type Get_srv_id = T_number"
| "result_type Get_leader_id = T_number"
| "result_type Get_all_servers = T_servers"
| "result_type (Get_srv_endpoint _) = T_text"
| "result_type (Splinterdb_get _) = T_read"
| "result_type (Splinterdb_put _ _) = T_mutation"
| "result_type (Splinterdb_update _ _) = T_mutation"
| "result_type (Splinterdb_delete _) = T_mutation"
| "result_type Splinterdb_dumpcache = T_flag"
| "result_type Splinterdb_clearcache = T_flag"

text \<open>A response of a type is read at this type, and at no other.\<close>

lemma as_type:
  "as_text resp = Inl bad_cast \<longleftrightarrow> type_of resp \<noteq> T_text" "as_number resp = Inl bad_cast \<longleftrightarrow> type_of resp \<noteq> T_number"
  "as_flag resp = Inl bad_cast \<longleftrightarrow> type_of resp \<noteq> T_flag" "as_servers resp = Inl bad_cast \<longleftrightarrow> type_of resp \<noteq> T_servers"
  "as_read resp = Inl bad_cast \<longleftrightarrow> type_of resp \<noteq> T_read" "as_mutation resp = Inl bad_cast \<longleftrightarrow> type_of resp \<noteq> T_mutation"
  "as_joined resp = Inl bad_cast \<longleftrightarrow> type_of resp \<noteq> T_joined"
  by (cases resp; simp)+

subsection \<open>Clients of a typed network\<close>

text \<open>
  A network (with the servers behind it) is typed when every response has the type of the request
  and no error of the network or of a handler is that of a failed conversion.
\<close>

locale typed_rpc =
  fixes typed :: "('h, 'w) rpc_api \<Rightarrow> bool"
  assumes response: "typed P \<Longrightarrow> rpc_call P h req w = (Inr resp, w') \<Longrightarrow> type_of resp = result_type req"
    and errors: "typed P \<Longrightarrow> rpc_call P h req w = (Inl e, w') \<Longrightarrow> e \<noteq> bad_cast"
    and connect: "typed P \<Longrightarrow> rpc_connect P host port w = (Inl e, w') \<Longrightarrow> e \<noteq> bad_cast"
begin

lemma call_as_typed:
  assumes "typed P" "\<And>resp. type_of resp = result_type req \<Longrightarrow> conv resp \<noteq> Inl bad_cast"
  shows "call_as P h req conv w \<noteq> (Inl bad_cast, w')"
proof -
  obtain r w1 where r: "rpc_call P h req w = (r, w1)" by force
  show ?thesis
  proof (cases r)
    case (Inl e)
    then show ?thesis using errors [OF assms(1)] r by (auto simp: call_as_def)
  next
    case (Inr resp)
    then have "conv resp \<noteq> Inl bad_cast" using response [OF assms(1)] assms(2) r by blast
    then show ?thesis using r Inr by (simp add: call_as_def)
  qed
qed

lemma call_typed:
  assumes "typed P"
  shows "call_as P h Ping as_text w \<noteq> (Inl bad_cast, w')"
    "call_as P h Get_leader_id as_number w \<noteq> (Inl bad_cast, w')"
    "call_as P h Get_all_servers as_servers w \<noteq> (Inl bad_cast, w')"
    "call_as P h (Splinterdb_get key) as_read w \<noteq> (Inl bad_cast, w')"
    "result_type req = T_mutation \<Longrightarrow> call_as P h req as_mutation w \<noteq> (Inl bad_cast, w')"
    "result_type req = T_flag \<Longrightarrow> call_as P h req as_flag w \<noteq> (Inl bad_cast, w')"
  by (rule call_as_typed [OF assms]; simp add: as_type)+

lemma client_get_typed: "typed P \<Longrightarrow> client_get P key st \<noteq> (Inl bad_cast, st')"
  using call_typed(4) [of P _ key]
  by (auto simp: client_get_def next_server_def bad_cast_def Let_def split: prod.splits list.splits option.splits)

lemma poll_leader_typed: "typed P \<Longrightarrow> poll_leader P c k w \<noteq> (Inl bad_cast, w')"
proof (induction k arbitrary: w)
  case (Suc k)
  then show ?case using call_typed(2) [OF Suc.prems] by (auto split: prod.splits sum.splits if_splits)
qed (simp add: bad_cast_def)

lemma get_leader_id_typed: "typed P \<Longrightarrow> get_leader_id P cl w \<noteq> (Inl bad_cast, w')"
proof -
  assume t: "typed P"
  have "get_leader_id_loop P k cs w \<noteq> (Inl bad_cast, w')" for k cs w
  proof (induction cs arbitrary: w)
    case (Cons p cs)
    then show ?case using poll_leader_typed [OF t] by (cases p) (auto split: prod.splits sum.splits if_splits)
  qed (simp add: bad_cast_def)
  then show ?thesis by (simp add: get_leader_id_def)
qed

lemma mutate_loop_typed:
  assumes t: "typed P" and req: "result_type req = T_mutation"
  shows "mutate_loop P req k result st \<noteq> (Inl bad_cast, st')"
proof (induction k arbitrary: result st)
  case (Suc k)
  have "try_handle_leader_change P rc st1 \<noteq> (Inl bad_cast, st2)" for rc st1 st2
    using get_leader_id_typed [OF t] by (auto simp: try_handle_leader_change_def split: prod.splits sum.splits)
  then show ?case using Suc call_typed(5) [OF t req]
    by (auto simp: get_leader_handle_def bad_cast_def abind_def split: prod.splits sum.splits if_splits option.splits)
qed simp

lemma call_each_typed: "typed P \<Longrightarrow> result_type req = T_flag \<Longrightarrow> call_each P req cs w \<noteq> (Inl bad_cast, w')"
proof (induction cs arbitrary: w)
  case (Cons p cs)
  then show ?case using call_typed(6) [OF Cons.prems] by (cases p) (auto simp: abind_def split: prod.splits sum.splits)
qed simp

lemma get_all_servers_typed: "typed P \<Longrightarrow> client_get_all_servers P cl w \<noteq> (Inl bad_cast, w')"
proof -
  assume t: "typed P"
  have "client_get_all_servers_loop P cs w \<noteq> (Inl bad_cast, w')" for cs w
  proof (induction cs arbitrary: w)
    case (Cons p cs)
    then show ?case using call_typed(3) [OF t] by (cases p) (auto split: prod.splits sum.splits if_splits)
  qed (simp add: bad_cast_def)
  then show ?thesis by (simp add: client_get_all_servers_def)
qed

lemma connect_all_typed: "typed P \<Longrightarrow> connect_all P srvs cs w \<noteq> (Inl bad_cast, w')"
proof (induction srvs arbitrary: cs w)
  case (Cons p srvs)
  have "rbind (stoi s) (checked_port h) \<noteq> Inl bad_cast" for s h
    by (auto simp: rbind_eq_Inl stoi_def checked_port_def bad_cast_def Let_def split: if_splits)
  then show ?case using Cons connect [OF Cons.prems]
    by (cases p) (auto simp: Let_def split: prod.splits sum.splits if_splits)
qed simp

lemma client_new_typed: "typed P \<Longrightarrow> client_new P host port timeout retries w \<noteq> (Inl bad_cast, w')"
proof
  assume t: "typed P" and n: "client_new P host port timeout retries w = (Inl bad_cast, w')"
  obtain r w1 where c: "rpc_connect P host port w = (r, w1)" by force
  then obtain h where h: "r = Inr h" using n connect [OF t, of host port w] by (cases r) (auto simp: client_new_def)
  obtain x w2 where i: "introduce P h w1 = (x, w2)" by force
  then obtain srvs leader where x: "x = Inr (srvs, leader)"
    using n c h by (cases x) (auto simp: client_new_def bad_cast_def split: if_splits)
  show False using n c h i x connect_all_typed [OF t, of srvs "[]" w2]
    by (auto simp: client_new_def abind_def Let_def split: prod.splits sum.splits)
qed

end

subsection \<open>The servers of a cluster\<close>

text \<open>The buffers of NuRaft throw errors of their own, not those of rpclib.\<close>

definition no_cast :: "('b, 's, 'z) buffer_api_scheme \<Rightarrow> bool" where
  "no_cast N \<longleftrightarrow> (\<forall>b. get_int N b \<noteq> Inl bad_cast) \<and> (\<forall>s v. bs_put_u8 N s v \<noteq> Inl bad_cast) \<and>
     (\<forall>s v. bs_put_u64 N s v \<noteq> Inl bad_cast) \<and> (\<forall>s v. bs_put_raw N s v \<noteq> Inl bad_cast)"

lemma client_dispatch_typed: "client_dispatch N C D R req s = (Inr resp, s') \<Longrightarrow> type_of resp = result_type req"
  by (cases req)
    (auto simp: client_dispatch_def handle_dumpcache_def handle_clearcache_def handle_ping_def handle_get_srv_id_def
      handle_get_leader_id_def handle_get_all_servers_def handle_get_srv_endpoint_def as_response_def abind_def
      split: option.splits prod.splits sum.splits)

lemma join_dispatch_typed: "join_dispatch C R req s = (Inr resp, s') \<Longrightarrow> type_of resp = result_type req"
  by (cases req) (auto simp: join_dispatch_def handle_join_def rbind_eq_Inr split: prod.splits)

lemma append_errors:
  assumes "no_cast N"
  shows "append_and_extract N R op s \<noteq> (Inl bad_cast, s')"
proof -
  have "op_serialize N op \<noteq> Inl bad_cast"
    using assms by (auto simp: no_cast_def op_serialize_def op_write_def os_serialize_def rbind_eq_Inl split: option.splits)
  then have "append_log N R op rp \<noteq> (Inl bad_cast, rp')" for rp rp'
    by (auto simp: append_log_def bad_cast_def Let_def split: sum.splits prod.splits)
  moreover have "extract_result N R r \<noteq> Inl bad_cast" for r
    using assms by (cases r) (auto simp: no_cast_def extract_result_def rbind_eq_Inl bad_cast_def split: if_splits option.splits)
  ultimately show ?thesis by (auto simp: append_and_extract_def rbind_eq_Inl split: prod.splits)
qed

lemma client_dispatch_errors: "no_cast N \<Longrightarrow> client_dispatch N C D R req s \<noteq> (Inl bad_cast, s')"
  using append_errors [of N R]
  by (cases req)
    (auto simp: client_dispatch_def handle_dumpcache_def handle_clearcache_def handle_get_srv_endpoint_def as_response_def
      abind_def handle_put_def handle_update_def handle_delete_def bad_cast_def split: option.splits prod.splits sum.splits)

definition cluster_typed :: "(int, ('db, 'snp, 'mgr, 'rf, 'dcfg, 'cfg) servers) rpc_api \<Rightarrow>
    ('b, 's, 'z) buffer_api_scheme \<Rightarrow> ('sc, 'cc, 'ss, 'cb) raft_conf_api \<Rightarrow> ('db, 'r, 'cfg) splinterdb_api \<Rightarrow>
    ('rf, 'rr, 'sc, 'b, ('db, 'snp) splinterdb_state_machine, 'mgr) raft_api \<Rightarrow> bool" where
  "cluster_typed P N C D R \<longleftrightarrow> no_cast N \<and> P = cluster_rpc N C D R"

interpretation cluster: typed_rpc "\<lambda>P. cluster_typed P N C D R" for N C D R
proof (unfold_locales, goal_cases)
  case (1 P h req w resp w')
  then show ?case
    by (auto simp: cluster_typed_def cluster_rpc_def dest: client_dispatch_typed split: option.splits prod.splits)
next
  case (2 P h req w e w')
  then show ?case using client_dispatch_errors [of N C D R req]
    by (auto simp: cluster_typed_def cluster_rpc_def bad_cast_def split: option.splits prod.splits)
next
  case (3 P host port w e w')
  then show ?case by (auto simp: cluster_typed_def cluster_rpc_def bad_cast_def split: option.splits)
qed

text \<open>
  C22. Calls are well typed. On every server, in every state, the response to a request has the result
  type of the request, on the client port and on the join port; and therefore no operation of the
  client library, over any number of calls to the servers of a cluster, ends with the error of a
  response read at a wrong type.
\<close>

theorem rpc_well_typed:
  fixes w :: "('db, 'snp, 'mgr, 'rf, 'dcfg, 'cfg) servers" and s :: "('db, 'snp, 'mgr, 'rf, 'dcfg, 'cfg) server"
    and D :: "('db, 'r, 'cfg) splinterdb_api"
  assumes "no_cast N" "P = cluster_rpc N C D R"
  shows "(client_dispatch N C D R req s = (Inr resp, s') \<or> join_dispatch C R req s = (Inr resp, s') \<longrightarrow>
      type_of resp = result_type req) \<and>
    fst (client_new P host port timeout retries w) \<noteq> Inl bad_cast \<and>
    fst (client_get P key (cl, w)) \<noteq> Inl bad_cast \<and> fst (client_put P key val (cl, w)) \<noteq> Inl bad_cast \<and>
    fst (client_update P key val (cl, w)) \<noteq> Inl bad_cast \<and> fst (client_del P key (cl, w)) \<noteq> Inl bad_cast \<and>
    fst (get_leader_id P cl w) \<noteq> Inl bad_cast \<and> fst (client_get_all_servers P cl w) \<noteq> Inl bad_cast \<and>
    fst (trigger_cache_dumps P cl w) \<noteq> Inl bad_cast \<and> fst (trigger_cache_clear P cl w) \<noteq> Inl bad_cast"
proof -
  have t: "cluster_typed P N C D R" using assms by (simp add: cluster_typed_def)
  note ops = cluster.client_new_typed [OF t, of host port timeout retries w] cluster.client_get_typed [OF t, of key "(cl, w)"]
    cluster.mutate_loop_typed [OF t, of "Splinterdb_put key val"] cluster.mutate_loop_typed [OF t, of "Splinterdb_update key val"]
    cluster.mutate_loop_typed [OF t, of "Splinterdb_delete key"] cluster.get_leader_id_typed [OF t, of cl w]
    cluster.get_all_servers_typed [OF t, of cl w] cluster.call_each_typed [OF t, of Splinterdb_dumpcache "clients cl" w]
    cluster.call_each_typed [OF t, of Splinterdb_clearcache "clients cl" w]
  have eq: "(\<And>y. x \<noteq> (Inl bad_cast, y)) \<Longrightarrow> fst x \<noteq> Inl bad_cast" for x :: "'x res \<times> 'y" by (cases x) auto
  show ?thesis
    using client_dispatch_typed [of N C D R req s resp s'] join_dispatch_typed [of C R req s resp s'] ops
    unfolding client_put_def client_update_def client_del_def trigger_cache_dumps_def trigger_cache_clear_def
    by (intro conjI eq) auto
qed

lemma ref_no_cast: "no_cast ref_nuraft"
  by (auto simp: no_cast_def ref_nuraft_def bad_cast_def rbind_eq_Inl ref_get_def ser_put_def ref_put_def split: if_splits)

theorem rpc_well_typed_witness:
  "\<exists>s1 s2. demo_server = Inr s1 \<and>
     fst (client_put (cluster_rpc ref_nuraft ref_conf ref_splinterdb ref_raft) [1] [2] (fst (demo_start s1 s2), fst (snd (demo_start s1 s2)))) \<noteq> Inl bad_cast"
proof -
  obtain s1 s2 :: rserver where "demo_server = Inr s1" using demo_start_follows by blast
  moreover have "fst (client_put (cluster_rpc ref_nuraft ref_conf ref_splinterdb ref_raft) [1] [2]
      (fst (demo_start s1 s2), fst (snd (demo_start s1 s2)))) \<noteq> Inl bad_cast"
    using rpc_well_typed [OF ref_no_cast refl, where key = "[1]" and val = "[2]" and cl = "fst (demo_start s1 s2)" and
        w = "fst (snd (demo_start s1 s2))" and C = ref_conf and R = ref_raft and D = ref_splinterdb]
    by blast
  ultimately show ?thesis by blast
qed

end
