(* ===== verification/Spl_Client.thy ===== *)
theory Spl_Client
  imports Client
begin

section \<open>\<open>spl_client\<close>: the command line client\<close>

text \<open>
  \<open>apps/spl_client.cpp\<close>: it splits a line into words, runs the command the first word names, and
  does so for one command given as a flag or for the lines of its input. gflags is a submodule: the
  values of the two flags are arguments. What is printed is not part of the model.
\<close>

definition handle_mutation_result :: "rpc_mutation_result \<Rightarrow> bool" where
  "handle_mutation_result result =
     (case result of (spl_rc, raft_rc, msg) \<Rightarrow>
        if raft_rc = 0 \<and> spl_rc = 0 then True
        else if raft_rc \<noteq> 0 then False
        else if spl_rc \<noteq> 0 then False else False)"

text \<open>The characters of a C string up to its terminating NUL.\<close>

definition c_str :: "string \<Rightarrow> string" where
  "c_str s = takeWhile (\<lambda>c. c \<noteq> CHR 0x00) s"

function tokenize :: "string \<Rightarrow> char \<Rightarrow> string list" where
  "tokenize str c =
     (let word = takeWhile (\<lambda>x. x \<noteq> c) str;
          rest = dropWhile (\<lambda>x. x \<noteq> c) str
      in (if word \<noteq> [] then [word] else []) @
         (case rest of [] \<Rightarrow> [] | _ # str \<Rightarrow> tokenize str c))"
  by pat_completeness auto

termination
proof (relation "measure (length \<circ> fst)")
  fix str :: string and c word rest x r
  assume "rest = dropWhile (\<lambda>x. x \<noteq> c) str" "rest = x # r"
  then have "length (x # r) \<le> length str" by (metis length_dropWhile_le)
  then show "((r, c), (str, c)) \<in> measure (length \<circ> fst)" by simp
qed simp

declare tokenize.simps [simp del]

text \<open>\<open>std::tolower\<close> in the C locale.\<close>

definition to_lower :: "char \<Rightarrow> char" where
  "to_lower c = (if 65 \<le> (of_char c :: nat) \<and> (of_char c :: nat) \<le> 90 then char_of (of_char c + 32 :: nat) else c)"

definition bytes_of :: "string \<Rightarrow> byte list" where
  "bytes_of s = map of_char s"

text \<open>The state is the client with the world of the servers; a call may throw.\<close>

definition handle_command :: "('h, 'w) rpc_api \<Rightarrow> string list \<Rightarrow> ('h client \<times> 'w, bool) act" where
  "handle_command P tokens st =
     (if tokens = [] then (Inr False, st)
      else
        let cmd = map to_lower (tokens ! 0); n = length tokens in
        if cmd = ''put'' \<and> n \<ge> 3 then
          abind (client_put P (bytes_of (tokens ! 1)) (bytes_of (tokens ! 2)))
            (\<lambda>res st. (Inr (handle_mutation_result res), st)) st
        else if cmd = ''update'' \<and> n \<ge> 3 then
          abind (client_update P (bytes_of (tokens ! 1)) (bytes_of (tokens ! 2)))
            (\<lambda>res st. (Inr (handle_mutation_result res), st)) st
        else if cmd = ''delete'' \<and> n \<ge> 2 then
          abind (client_del P (bytes_of (tokens ! 1))) (\<lambda>res st. (Inr (handle_mutation_result res), st)) st
        else if cmd = ''get'' \<and> n \<ge> 2 then
          abind (client_get P (bytes_of (tokens ! 1))) (\<lambda>(val, spl_rc) st. (Inr (spl_rc = 0), st)) st
        else if cmd = ''ls'' then
          (case abind (client_get_all_servers P (fst st)) (\<lambda>srvs. get_leader_id P (fst st)) (snd st) of
             (Inl e, w) \<Rightarrow> (Inl e, (fst st, w)) | (Inr leader, w) \<Rightarrow> (Inr True, (fst st, w)))
        else if cmd = ''dumpcache'' then
          (case trigger_cache_dumps P (fst st) (snd st) of
             (Inl e, w) \<Rightarrow> (Inl e, (fst st, w)) | (Inr _, w) \<Rightarrow> (Inr True, (fst st, w)))
        else if cmd = ''clearcache'' then
          (case trigger_cache_clear P (fst st) (snd st) of
             (Inl e, w) \<Rightarrow> (Inl e, (fst st, w)) | (Inr _, w) \<Rightarrow> (Inr True, (fst st, w)))
        else if cmd = ''help'' then (Inr True, st)
        else (Inr False, st))"

text \<open>
  The interactive loop over the lines of the input. \<open>getline\<close> into 1000 characters fails for a line
  of 1000 or more and the loop ends; on a line without a word \<open>tokens[0]\<close> is undefined.
\<close>

fun repl :: "('h, 'w) rpc_api \<Rightarrow> string list \<Rightarrow> int \<Rightarrow> ('h client \<times> 'w, int) act" where
  "repl P [] rc st = (Inr rc, st)"
| "repl P (cmd # inputs) rc st =
     (if length cmd \<ge> 1000 then (Inr rc, st)
      else
        let tokens = tokenize (c_str cmd) CHR '' '' in
        if tokens = [] then (Inl Empty_container, st)
        else if tokens ! 0 = ''exit'' then (Inr rc, st)
        else abind (handle_command P tokens) (\<lambda>ok. repl P inputs (if ok then 0 else 1)) st)"

definition spl_client_main :: "('h, 'w) rpc_api \<Rightarrow> string \<Rightarrow> string \<Rightarrow> string list \<Rightarrow> ('w, int) act" where
  "spl_client_main P flags_endpoint flags_e inputs w =
     (if flags_endpoint = [] then (Inr 1, w)
      else if CHR '':'' \<notin> set flags_endpoint then (Inr 1, w)
      else
        let host = fst (split_endpoint flags_endpoint) in
        case stoi (snd (split_endpoint flags_endpoint)) of
          Inl e \<Rightarrow> (Inl e, w)
        | Inr port \<Rightarrow>
            if port < 1024 \<or> port > 65535 then (Inr 1, w)
            else
              (case client_new P host (word_of_int port) 10000 3 w of
                 (Inl e, w) \<Rightarrow> (Inl e, w)
               | (Inr cl, w) \<Rightarrow>
                   if flags_e \<noteq> []
                   then (case handle_command P (tokenize (c_str flags_e) CHR '' '') (cl, w) of
                           (Inl e, _, w) \<Rightarrow> (Inl e, w) | (Inr ok, _, w) \<Rightarrow> (Inr (if ok then 0 else 1), w))
                   else (case repl P inputs 0 (cl, w) of (r, _, w) \<Rightarrow> (r, w))))"

subsection \<open>Words\<close>

lemma tokenize_last: "c \<notin> set word \<Longrightarrow> tokenize word c = (if word = [] then [] else [word])"
proof -
  assume "c \<notin> set word"
  then have "\<forall>x \<in> set word. x \<noteq> c" by blast
  then have split: "takeWhile (\<lambda>x. x \<noteq> c) word = word" "dropWhile (\<lambda>x. x \<noteq> c) word = []"
    by (simp_all add: takeWhile_eq_all_conv dropWhile_eq_Nil_conv)
  show ?thesis unfolding tokenize.simps [of word c] Let_def split by simp
qed

lemma tokenize_word: "c \<notin> set word \<Longrightarrow> tokenize (word @ c # r) c = (if word = [] then [] else [word]) @ tokenize r c"
proof -
  assume "c \<notin> set word"
  then have "\<forall>x \<in> set word. x \<noteq> c" by blast
  then have "takeWhile (\<lambda>x. x \<noteq> c) (word @ c # r) = word" "dropWhile (\<lambda>x. x \<noteq> c) (word @ c # r) = c # r"
    by (simp_all add: takeWhile_append2 dropWhile_append2)
  then show ?thesis by (subst tokenize.simps) (simp add: Let_def)
qed

text \<open>A line is its first word alone, or its first word, a separator and the rest.\<close>

lemma first_word: "c \<notin> set s \<or> (\<exists>word r. c \<notin> set word \<and> s = word @ c # r)"
  using split_list_first by fastforce

lemma tokenize_induct [case_names last word]:
  assumes "\<And>w. c \<notin> set w \<Longrightarrow> Q w" "\<And>w r. c \<notin> set w \<Longrightarrow> Q r \<Longrightarrow> Q (w @ c # r)"
  shows "Q (s :: string)"
proof (induction s rule: length_induct)
  case (1 s)
  from first_word [of c s] show ?case
  proof
    assume "\<exists>word r. c \<notin> set word \<and> s = word @ c # r"
    then obtain word r where "c \<notin> set word" "s = word @ c # r" by blast
    then show ?thesis using 1 assms(2) by simp
  qed (rule assms(1))
qed

text \<open>Words with one separator between them.\<close>

fun join_words :: "char \<Rightarrow> string list \<Rightarrow> string" where
  "join_words c [] = []"
| "join_words c [w] = w"
| "join_words c (w # ws) = w @ c # join_words c ws"

lemma tokenize_join:
  "\<forall>w \<in> set ws. w \<noteq> [] \<and> c \<notin> set w \<Longrightarrow> tokenize (join_words c ws) c = ws"
  by (induction c ws rule: join_words.induct) (simp_all add: tokenize_last tokenize_word)

lemma tokenize_parts: "(\<forall>w \<in> set (tokenize s c). w \<noteq> [] \<and> c \<notin> set w) \<and> concat (tokenize s c) = filter (\<lambda>x. x \<noteq> c) s"
proof (induction s rule: tokenize_induct [of c])
  case (last w)
  then have "filter (\<lambda>x. x \<noteq> c) w = w" by (auto simp: filter_id_conv)
  then show ?case using last by (simp add: tokenize_last)
next
  case (word w r)
  then have "filter (\<lambda>x. x \<noteq> c) w = w" by (auto simp: filter_id_conv)
  then show ?case using word by (auto simp: tokenize_word)
qed

text \<open>
  Splitting a line gives its words: none is empty or contains the separator, together they are
  the line without its separators, and words joined by single separators are found again.
\<close>

theorem tokenize_words:
  "(\<forall>w \<in> set (tokenize s c). w \<noteq> [] \<and> c \<notin> set w) \<and> concat (tokenize s c) = filter (\<lambda>x. x \<noteq> c) s \<and>
   ((\<forall>w \<in> set ws. w \<noteq> [] \<and> c \<notin> set w) \<longrightarrow> tokenize (join_words c ws) c = ws)"
  using tokenize_parts [of s c] tokenize_join [of ws c] by blast

theorem tokenize_words_witness:
  "tokenize ''put a b'' CHR '' '' = [''put'', ''a'', ''b''] \<and> concat (tokenize '' x  y'' CHR '' '') = ''xy''"
  using tokenize_words [of "'' x  y''" "CHR '' ''" "[''put'', ''a'', ''b'']"] by simp

subsection \<open>Commands\<close>

lemma to_lower_idem [simp]: "to_lower (to_lower c) = to_lower c"
proof (cases "65 \<le> (of_char c :: nat) \<and> (of_char c :: nat) \<le> 90")
  case True
  then have "(of_char (char_of (of_char c + 32 :: nat) :: char) :: nat) = of_char c + 32"
    by (simp add: of_char_of)
  then show ?thesis using True by (simp add: to_lower_def)
qed (auto simp: to_lower_def)



subsection \<open>The program\<close>

lemma repl_status: "repl P inputs rc st = (Inr r, st') \<Longrightarrow> r = rc \<or> r = 0 \<or> r = 1"
proof (induction inputs arbitrary: rc st)
  case (Cons cmd inputs)
  show ?case
  proof (cases "1000 \<le> length cmd \<or> tokenize (c_str cmd) CHR '' '' = [] \<or> tokenize (c_str cmd) CHR '' '' ! 0 = ''exit''")
    case True
    then show ?thesis using Cons.prems by (auto simp: Let_def split: if_splits)
  next
    case False
    obtain x st1 where h: "handle_command P (tokenize (c_str cmd) CHR '' '') st = (x, st1)" by (meson surj_pair)
    then obtain ok where "x = Inr ok" "repl P inputs (if ok then 0 else 1) st1 = (Inr r, st')"
      using Cons.prems False by (cases x) (auto simp: Let_def)
    then show ?thesis using Cons.IH [of "if ok then 0 else 1" st1] by (auto split: if_splits)
  qed
qed simp

text \<open>
  The program ends with status 0 or 1 unless an exception ends it; without a well-formed
  endpoint whose port is between 1024 and 65535 it ends with 1 before any connection is made (or
  with the exception of a port that is no number).
\<close>

theorem spl_client_status:
  assumes "spl_client_main P ep e inputs w = (Inr status, w')"
  shows "(status = 0 \<or> status = 1) \<and>
    (status = 0 \<longrightarrow> CHR '':'' \<in> set ep \<and>
      (\<exists>port. stoi (snd (split_endpoint ep)) = Inr port \<and> 1024 \<le> port \<and> port \<le> 65535)) \<and>
    (CHR '':'' \<notin> set ep \<longrightarrow> w' = w)"
proof -
  have r: "status = 0 \<or> status = 1" if "repl P inputs 0 (cl, w1) = (Inr status, st')" for cl w1 st'
    using repl_status [OF that] by auto
  show ?thesis
    using assms r by (auto simp: spl_client_main_def Let_def split: if_splits sum.splits prod.splits)
qed

theorem spl_client_status_witness:
  "spl_client_main two_servers ''a'' ''ls'' [] 1 = (Inr 1, 1) \<and> ((1 :: int) = 0 \<or> (1 :: int) = 1)"
proof -
  have m: "spl_client_main two_servers ''a'' ''ls'' [] 1 = (Inr 1, 1)" by (simp add: spl_client_main_def)
  from spl_client_status [OF m] m show ?thesis by blast
qed

end
