(* ===== verification/Spl_Server.thy ===== *)
theory Spl_Server
  imports Server Client
begin

section \<open>\<open>spl_server\<close>: the server program\<close>

text \<open>
  \<open>apps/spl_server.cpp\<close>: validated flags, the configuration made from them, the server, and the call
  that joins a cluster through a seed server. gflags and rpclib are submodules: the values of the
  flags are a record, and the connection to the seed is the \<open>rpc_api\<close> of the client. The
  configuration types of SplinterDB are opaque: \<open>mk_data_cfg\<close> stands for
  \<open>default_data_config_init\<close>, and \<open>mk_cfg\<close> for the assignments to the four members of
  \<open>splinterdb_config\<close>. The name that \<open>gethostname\<close> gives is an argument.
\<close>

definition validate_port :: "int \<Rightarrow> bool" where
  "validate_port val \<longleftrightarrow> val > 0 \<and> val < 32768"

definition validate_nthreads :: "int \<Rightarrow> bool" where
  "validate_nthreads val \<longleftrightarrow> val \<ge> 4 \<and> val \<le> 50"

record flags =
  FLAGS_serverid :: int
  FLAGS_raftport :: int
  FLAGS_joinport :: int
  FLAGS_clientport :: int
  FLAGS_seed :: string
  FLAGS_nthreads :: int
  FLAGS_dbfilesize :: u64
  FLAGS_cachesize :: u64
  FLAGS_maxkeysize :: u64

definition default_flags :: flags where
  "default_flags = \<lparr>FLAGS_serverid = - 1, FLAGS_raftport = 10001, FLAGS_joinport = 10002,
     FLAGS_clientport = 10003, FLAGS_seed = [], FLAGS_nthreads = 4, FLAGS_dbfilesize = 1024,
     FLAGS_cachesize = 64, FLAGS_maxkeysize = 100\<rparr>"

text \<open>The validators that \<open>DEFINE_validator\<close> registers.\<close>

definition flags_valid :: "flags \<Rightarrow> bool" where
  "flags_valid fl \<longleftrightarrow> validate_port (FLAGS_raftport fl) \<and> validate_port (FLAGS_clientport fl) \<and>
     validate_port (FLAGS_joinport fl) \<and> validate_nthreads (FLAGS_nthreads fl)"

definition try_join_cluster :: "('h, 'w) rpc_api \<Rightarrow> string \<Rightarrow> ('dcfg, 'cfg) replica_config \<Rightarrow> ('w, unit) act" where
  "try_join_cluster P seed cfg w =
     (let join_srv_host = fst (split_endpoint seed) in
      case rbind (stoi (snd (split_endpoint seed))) (checked_port join_srv_host) of
        Inl e \<Rightarrow> (Inl e, w)
      | Inr port \<Rightarrow>
          abind (rpc_connect P join_srv_host port) (\<lambda>cl.
          abind (call_as P cl (Join_replica_group (cfg_server_id cfg)
                   (cfg_addr cfg @ '':'' @ show_nat (unat (cfg_raft_port cfg)))
                   (cfg_addr cfg @ '':'' @ show_nat (unat (cfg_client_port cfg)))) as_joined) (\<lambda>(rc, msg) w.
          if rc \<noteq> 0 then (Inl (Exit 1), w) else (Inr (), w))) w)"

text \<open>The configuration that \<open>main\<close> makes from the flags.\<close>

definition flags_config :: "('cfg \<Rightarrow> 'dcfg \<Rightarrow> 'cfg) \<Rightarrow> (u64 \<Rightarrow> 'dcfg) \<Rightarrow> (string \<Rightarrow> u64 \<Rightarrow> u64 \<Rightarrow> 'dcfg \<Rightarrow> 'cfg) \<Rightarrow>
    string \<Rightarrow> flags \<Rightarrow> ('dcfg, 'cfg) replica_config" where
  "flags_config with_data_cfg mk_data_cfg mk_cfg hostname fl =
     (let splinter_data_cfg = mk_data_cfg (FLAGS_maxkeysize fl);
          dbname = ''sm-state-'' @ show_int (FLAGS_serverid fl) @ ''.db'';
          splinterdb_cfg = mk_cfg dbname (FLAGS_dbfilesize fl * 1024 * 1024) (FLAGS_cachesize fl * 1024 * 1024)
            splinter_data_cfg
      in (replica_config_new with_data_cfg splinter_data_cfg splinterdb_cfg)
           \<lparr>cfg_server_id := FLAGS_serverid fl, cfg_addr := hostname,
            cfg_raft_port := word_of_int (FLAGS_raftport fl), cfg_client_port := word_of_int (FLAGS_clientport fl),
            cfg_log_level := TRACE, cfg_display_level := DISABLED\<rparr>)"

text \<open>
  \<open>main\<close> up to \<open>s.run\<close>, which does not return: either an exit status, or the server that is going
  to run with its number of threads.
\<close>

definition spl_server_main :: "('b, 's, 'e, 'ea) nuraft \<Rightarrow> ('sc, 'cc, 'ss, 'cb) raft_conf_api \<Rightarrow>
    ('db, 'r, 'cfg) splinterdb_api \<Rightarrow>
    ('rf, 'rr, 'sc, 'b, ('db, 'snp) splinterdb_state_machine, ('sc, 'cc, 'ss, 'e, 'ea) inmem_state_mgr) raft_api \<Rightarrow>
    'ea \<Rightarrow> ('h, 'w) rpc_api \<Rightarrow> ('cfg \<Rightarrow> 'dcfg \<Rightarrow> 'cfg) \<Rightarrow> (u64 \<Rightarrow> 'dcfg) \<Rightarrow>
    (string \<Rightarrow> u64 \<Rightarrow> u64 \<Rightarrow> 'dcfg \<Rightarrow> 'cfg) \<Rightarrow> string \<Rightarrow> flags \<Rightarrow>
    ('w, int + ('db, 'snp, ('sc, 'cc, 'ss, 'e, 'ea) inmem_state_mgr, 'rf, 'dcfg, 'cfg) server \<times> u64) act" where
  "spl_server_main N C D R ea P with_data_cfg mk_data_cfg mk_cfg hostname fl w =
     (if FLAGS_serverid fl < 1 then (Inr (Inl 1), w)
      else
        let client_port = word_of_int (FLAGS_clientport fl);
            join_port = word_of_int (FLAGS_joinport fl);
            cfg = flags_config with_data_cfg mk_data_cfg mk_cfg hostname fl
        in case server_new N C D R ea client_port join_port cfg of
             Inl e \<Rightarrow> (Inl e, w)
           | Inr s \<Rightarrow>
               if FLAGS_seed fl \<noteq> []
               then abind (try_join_cluster P (FLAGS_seed fl) cfg)
                      (\<lambda>_ w. (Inr (Inr (s, word_of_int (FLAGS_nthreads fl))), w)) w
               else (Inr (Inr (s, word_of_int (FLAGS_nthreads fl))), w))"

subsection \<open>Flags\<close>

lemma valid_port_u16: "validate_port p \<Longrightarrow> int (unat (word_of_int p :: u16)) = p"
  by (simp add: validate_port_def unsigned_of_int take_bit_int_eq_self)

lemma default_flags_valid: "flags_valid default_flags"
  by (simp add: flags_valid_def default_flags_def validate_port_def validate_nthreads_def)

lemma flags_config_fields [simp]:
  "cfg_server_id (flags_config wd md mc hostname fl) = FLAGS_serverid fl" "cfg_addr (flags_config wd md mc hostname fl) = hostname"
  "cfg_raft_port (flags_config wd md mc hostname fl) = word_of_int (FLAGS_raftport fl)"
  "cfg_client_port (flags_config wd md mc hostname fl) = word_of_int (FLAGS_clientport fl)"
  by (simp_all add: flags_config_def Let_def)

lemma valid_flag_ports:
  assumes "flags_valid fl"
  shows "unat (word_of_int (FLAGS_clientport fl) :: u16) = nat (FLAGS_clientport fl)" "0 < FLAGS_clientport fl"
    "unat (word_of_int (FLAGS_joinport fl) :: u16) = nat (FLAGS_joinport fl)" "0 < FLAGS_joinport fl"
    "unat (word_of_int (FLAGS_raftport fl) :: u16) = nat (FLAGS_raftport fl)" "0 < FLAGS_raftport fl"
  using assms valid_port_u16 unfolding flags_valid_def by (metis nat_int validate_port_def)+

text \<open>A run of \<open>main\<close> that gets to \<open>s.run\<close> built a replica from the flags and, given a seed, joined through it.\<close>

lemma spl_server_mainE:
  fixes R :: "('rf, 'rr, 'sc, 'b, ('db, 'snp) splinterdb_state_machine, ('sc, 'cc, 'ss, 'e, 'ea) inmem_state_mgr) raft_api"
  assumes "spl_server_main N C D R ea P wd md mc hostname fl w = (Inr (Inr (s, nthreads)), w')"
  obtains rp where "1 \<le> FLAGS_serverid fl"
    "replica_new N C D R ea (flags_config wd md mc hostname fl) = Inr rp"
    "s = \<lparr>replica_instance = rp, client_port = word_of_int (FLAGS_clientport fl), join_port = word_of_int (FLAGS_joinport fl)\<rparr>"
    "nthreads = word_of_int (FLAGS_nthreads fl)"
    "FLAGS_seed fl \<noteq> [] \<longrightarrow> try_join_cluster P (FLAGS_seed fl) (flags_config wd md mc hostname fl) w = (Inr (), w')"
  using assms
  by (auto simp: spl_server_main_def server_new_def Let_def rbind_def abind_def split: if_splits sum.splits prod.splits)

text \<open>Joining: the seed was asked to add the server under its id with its endpoints, and agreed.\<close>

lemma try_join_clusterE:
  assumes "try_join_cluster P seed (flags_config wd md mc hostname fl) w = (Inr (), w')" "flags_valid fl"
  obtains port h w1 msg where
    "rbind (stoi (snd (split_endpoint seed))) (checked_port (fst (split_endpoint seed))) = Inr port"
    "rpc_connect P (fst (split_endpoint seed)) port w = (Inr h, w1)"
    "call_as P h (Join_replica_group (FLAGS_serverid fl) (hostname @ '':'' @ show_nat (nat (FLAGS_raftport fl)))
         (hostname @ '':'' @ show_nat (nat (FLAGS_clientport fl)))) as_joined w1 = (Inr (0, msg), w')"
  using assms(1) valid_flag_ports [OF assms(2)]
  by (auto simp: try_join_cluster_def Let_def abind_def split: sum.splits prod.splits if_splits)



end
