(* ===== verification/Spl_Demo.thy ===== *)
theory Spl_Demo
  imports Splinterdb_Api Std_String "HOL-Library.List_Lexorder"
begin

section \<open>The SplinterDB example program\<close>

text \<open>
  \<open>apps/splinterdb.cpp\<close>: the program creates a store, inserts three pairs, looks two keys up, closes
  and reopens the store and walks through it with an iterator. The calls it makes beyond those of
  \<open>Splinterdb_Api\<close> are a second record of parameters: closing a handle leaves a file (\<open>'f\<close>), opening
  reads one, and an iterator (\<open>'it\<close>) goes through the pairs. What is printed on the standard output
  is collected in a string; the statistics and the cache dump go to the library's streams.
\<close>

subsection \<open>The calls and their laws\<close>

record ('db, 'cfg, 'f, 'it) splinterdb_more =
  splinterdb_open :: "'cfg \<Rightarrow> 'f \<Rightarrow> i32 \<times> 'db"
  splinterdb_close :: "'db \<Rightarrow> 'f"
  splinterdb_iterator_init :: "'db \<Rightarrow> i32 \<times> 'it"
  splinterdb_iterator_valid :: "'it \<Rightarrow> bool"
  splinterdb_iterator_next :: "'it \<Rightarrow> 'it"
  splinterdb_iterator_get_current :: "'it \<Rightarrow> byte list \<times> byte list"
  splinterdb_iterator_status :: "'it \<Rightarrow> i32"
  splinterdb_stats_print_insertion :: "'db \<Rightarrow> 'db"
  splinterdb_stats_print_lookup :: "'db \<Rightarrow> 'db"

text \<open>
  A closed and reopened store holds what it held; an iterator has a finite rest of the pairs, from
  the start all of them by ascending key (bytes unsigned, a shorter key first), and walks through it.
\<close>

definition more_laws :: "('db, 'cfg, 'f, 'it) splinterdb_more \<Rightarrow> ('db \<Rightarrow> kvmap) \<Rightarrow>
    ('it \<Rightarrow> (byte list \<times> byte list) list) \<Rightarrow> bool" where
  "more_laws M kv rest \<longleftrightarrow>
     (\<forall>cfg db db'. splinterdb_open M cfg (splinterdb_close M db) = (0, db') \<longrightarrow> kv db' = kv db) \<and>
     (\<forall>db it. splinterdb_iterator_init M db = (0, it) \<longrightarrow>
        sorted (map fst (rest it)) \<and> distinct (map fst (rest it)) \<and> map_of (rest it) = kv db) \<and>
     (\<forall>it. splinterdb_iterator_valid M it \<longleftrightarrow> rest it \<noteq> []) \<and>
     (\<forall>it. rest it \<noteq> [] \<longrightarrow> splinterdb_iterator_get_current M it = hd (rest it) \<and>
        rest (splinterdb_iterator_next M it) = tl (rest it)) \<and>
     (\<forall>db. kv (splinterdb_stats_print_insertion M db) = kv db) \<and>
     (\<forall>db. kv (splinterdb_stats_print_lookup M db) = kv db)"

subsection \<open>The program\<close>

definition chars :: "string \<Rightarrow> byte list" where
  "chars s = map of_char s"

text \<open>\<open>printf\<close> of \<open>%.*s\<close> with a slice: its bytes up to a zero byte.\<close>

definition print_slice :: "byte list \<Rightarrow> string" where
  "print_slice s = map (\<lambda>b. char_of (unat b)) (takeWhile (\<lambda>b. b \<noteq> 0) s)"

abbreviation newline :: string where
  "newline \<equiv> [CHR 0x0A]"

definition quoted :: "string \<Rightarrow> string" where
  "quoted s = [CHR 0x27] @ s @ [CHR 0x27]"

definition DB_FILE_NAME :: string where
  "DB_FILE_NAME = ''splinterdb_intro_db''"

definition USER_MAX_KEY_SIZE :: int where
  "USER_MAX_KEY_SIZE = 100"

definition DB_FILE_SIZE_MB :: int where
  "DB_FILE_SIZE_MB = 1024"

definition CACHE_SIZE_MB :: int where
  "CACHE_SIZE_MB = 32"

text \<open>The fields of \<open>splinterdb_config\<close> that the program sets; \<open>default_data_config_init\<close> is the library's.\<close>

record 'dcfg intro_config =
  ic_filename :: string
  ic_disk_size :: u64
  ic_cache_size :: u64
  ic_data_cfg :: 'dcfg
  ic_use_stats :: bool
  ic_cache_use_stats :: bool

definition intro_cfg :: "(int \<Rightarrow> 'dcfg) \<Rightarrow> 'dcfg intro_config" where
  "intro_cfg default_data_config_init = \<lparr>
     ic_filename = DB_FILE_NAME,
     ic_disk_size = word_of_int (DB_FILE_SIZE_MB * 1024 * 1024),
     ic_cache_size = word_of_int (CACHE_SIZE_MB * 1024 * 1024),
     ic_data_cfg = default_data_config_init USER_MAX_KEY_SIZE,
     ic_use_stats = True, ic_cache_use_stats = True\<rparr>"

definition demo_insert :: "('db, 'r, 'cfg) splinterdb_api \<Rightarrow> string \<Rightarrow> string \<Rightarrow> string \<times> 'db \<Rightarrow> string \<times> 'db" where
  "demo_insert D fruit descr = (\<lambda>(out, db).
     case splinterdb_insert D db (chars fruit) (chars descr) of
       (rc, db) \<Rightarrow> (out @ ''Inserted key '' @ quoted fruit @ newline, db))"

definition pair_line :: "nat \<Rightarrow> byte list \<Rightarrow> byte list \<Rightarrow> string" where
  "pair_line i k v =
     ''  ['' @ show_nat i @ ''] key='' @ quoted (print_slice k) @ '', value='' @ quoted (print_slice v) @ newline"

text \<open>The loop over the iterator; it runs as long as the iterator is valid.\<close>

partial_function (option) iterate :: "('db, 'cfg, 'f, 'it) splinterdb_more \<Rightarrow> nat \<Rightarrow> string \<Rightarrow> 'it \<Rightarrow> (nat \<times> string \<times> 'it) option" where
  "iterate M i out it =
     (if splinterdb_iterator_valid M it then
        (case splinterdb_iterator_get_current M it of
           (k, v) \<Rightarrow>
             iterate M (Suc i) (out @ pair_line i k v) (splinterdb_iterator_next M it))
      else Some (i, out, it))"

text \<open>The last of the repeated lookups of one key.\<close>

definition repeat_lookup :: "('db, 'r, 'cfg) splinterdb_api \<Rightarrow> nat \<Rightarrow> 'db \<Rightarrow> byte list \<Rightarrow> i32 \<times> 'r" where
  "repeat_lookup D n db key = last (map (\<lambda>_. splinterdb_lookup D db key) [0 ..< n])"

text \<open>\<open>if (!rc) printf("Found key ...")\<close> and \<open>if (rc) printf("Key not found ...")\<close>.\<close>

definition report_found :: "string \<Rightarrow> i32 \<times> byte list \<Rightarrow> string" where
  "report_found fruit = (\<lambda>(rc, v).
     if rc = 0 then ''Found key: '' @ quoted fruit @ '', value: '' @ quoted (print_slice v) @ newline else [])"

definition report_missing :: "string \<Rightarrow> i32 \<Rightarrow> string" where
  "report_missing fruit rc =
     (if rc \<noteq> 0 then ''Key: '' @ quoted fruit @ '' not found. (rc='' @ show_int (sint rc) @ '')'' @ newline else [])"

definition demo_main :: "('db, 'r, 'dcfg intro_config) splinterdb_api \<Rightarrow> ('db, 'dcfg intro_config, 'f, 'it) splinterdb_more \<Rightarrow>
    (int \<Rightarrow> 'dcfg) \<Rightarrow> (i32 \<times> string) option" where
  "demo_main D M default_data_config_init =
     (let out = ''     **** SplinterDB Basic example program ****'' @ newline @ newline;
          cfg = intro_cfg default_data_config_init;
          (rc, db) = splinterdb_create D cfg;
          out = out @ ''Created SplinterDB instance, dbname '' @ quoted DB_FILE_NAME @ ''.'' @ newline @ newline;
          (out, db) = demo_insert D ''apple'' ''An apple a day keeps the doctor away!'' (out, db);
          (out, db) = demo_insert D ''Orange'' ''Is a good source of vitamin-C.'' (out, db);
          (out, db) = demo_insert D ''Mango'' ''Mango is the king of fruits.'' (out, db);
          (rc, result) = splinterdb_lookup D db (chars ''Orange'');
          out = out @ report_found ''Orange'' (splinterdb_lookup_result_value D result);
          (rc, result) = repeat_lookup D 9 db (chars ''Banana'');
          out = out @ report_missing ''Banana'' (fst (splinterdb_lookup_result_value D result));
          out = out @ newline;
          out = out @ ''Shutdown and reopen SplinterDB instance ...'' @ newline;
          f = splinterdb_close M db;
          (rc, db) = splinterdb_open M cfg f
      in if rc \<noteq> 0 then
           Some (rc, out @ ''Error re-opening SplinterDB instance, dbname '' @ quoted DB_FILE_NAME @
             '' (rc='' @ show_int (sint rc) @ '').'' @ newline)
         else
           let out = out @ ''Iterate through all the key-value pairs returning keys in lexicographic sort order:'' @ newline;
               (rc, it) = splinterdb_iterator_init M db
           in case iterate M 0 out it of
                None \<Rightarrow> None
              | Some (i, out, it) \<Rightarrow>
                  let rc = splinterdb_iterator_status M it;
                      out = out @ ''Found '' @ show_nat i @ '' key-value pairs'' @ newline @ newline;
                      (rc, result) = repeat_lookup D 100 db (chars ''Orange'');
                      (rc, v) = splinterdb_lookup_result_value D result;
                      out = out @ report_found ''Orange'' (rc, v);
                      db = splinterdb_print_cache D db;
                      db = splinterdb_stats_print_insertion M db;
                      db = splinterdb_stats_print_lookup M db;
                      f = splinterdb_close M db;
                      out = out @ ''Shutdown SplinterDB instance, dbname '' @ quoted DB_FILE_NAME @ ''.'' @ newline @ newline
                  in Some (rc, out))"

subsection \<open>What it prints\<close>

text \<open>The lines of the loop over a list of pairs, numbered from \<open>i\<close>.\<close>

fun pair_lines :: "nat \<Rightarrow> (byte list \<times> byte list) list \<Rightarrow> string" where
  "pair_lines i [] = []"
| "pair_lines i ((k, v) # ps) =
     pair_line i k v @ pair_lines (Suc i) ps"

lemma iterate_pairs:
  assumes "more_laws M kv rest"
  shows "\<exists>it'. iterate M i out it = Some (i + length (rest it), out @ pair_lines i (rest it), it')"
proof (induction "rest it" arbitrary: i out it)
  case Nil
  then have "\<not> splinterdb_iterator_valid M it" using assms by (simp add: more_laws_def)
  then show ?case using Nil by (subst iterate.simps) (simp flip: Nil)
next
  case (Cons p ps)
  obtain k v where p: "p = (k, v)" by force
  have it: "splinterdb_iterator_valid M it" "splinterdb_iterator_get_current M it = (k, v)"
    "rest (splinterdb_iterator_next M it) = ps"
    using assms Cons(2) [symmetric] by (simp_all add: more_laws_def p)
  show ?case using Cons(1) [OF it(3) [symmetric], of "Suc i" "out @ pair_line i k v"]
    by (subst iterate.simps) (simp add: it Cons(2) [symmetric] p)
qed

lemma repeat_lookup_eq: "0 < n \<Longrightarrow> repeat_lookup D n db key = splinterdb_lookup D db key"
  by (cases n) (simp_all add: repeat_lookup_def)

lemma print_slice_chars: "CHR 0x00 \<notin> set s \<Longrightarrow> print_slice (chars s) = s"
proof (induction s)
  case (Cons c s)
  have "(of_char c :: byte) \<noteq> 0"
  proof
    assume "(of_char c :: byte) = 0"
    then have "(of_char c :: nat) = of_char (CHR 0x00)" using unat_of_char_byte [of c] by simp
    then have "c = CHR 0x00" by (simp only: of_char_eq_iff)
    then show False using Cons.prems by simp
  qed
  then show ?case using Cons by (simp add: print_slice_def chars_def unat_of_char_byte)
qed (simp add: print_slice_def chars_def)

text \<open>Two pairs in order are determined by the map.\<close>

lemma sorted_pairs_unique:
  assumes "sorted (map fst xs)" "distinct (map fst xs)" "sorted (map fst ys)" "distinct (map fst ys)" "map_of xs = map_of ys"
  shows "xs = (ys :: ('a :: linorder \<times> 'b) list)"
proof -
  have "set xs = set ys" using map_of_inject_set [OF assms(2,4)] assms(5) by simp
  moreover have "inj_on fst (set xs \<union> set ys)" using assms(2) \<open>set xs = set ys\<close> by (simp add: distinct_map)
  ultimately show ?thesis using assms(1-4) by (intro map_sorted_distinct_set_unique)
qed

text \<open>The three pairs in the order of their keys, and what the program prints; \<open>rc\<close> is the code for a missing key.\<close>

definition fruits :: "(byte list \<times> byte list) list" where
  "fruits = [(chars ''Mango'', chars ''Mango is the king of fruits.''),
             (chars ''Orange'', chars ''Is a good source of vitamin-C.''),
             (chars ''apple'', chars ''An apple a day keeps the doctor away!'')]"

definition demo_text :: "i32 \<Rightarrow> string" where
  "demo_text rc =
     ''     **** SplinterDB Basic example program ****'' @ newline @ newline @
     ''Created SplinterDB instance, dbname '' @ quoted DB_FILE_NAME @ ''.'' @ newline @ newline @
     ''Inserted key '' @ quoted ''apple'' @ newline @
     ''Inserted key '' @ quoted ''Orange'' @ newline @
     ''Inserted key '' @ quoted ''Mango'' @ newline @
     ''Found key: '' @ quoted ''Orange'' @ '', value: '' @ quoted ''Is a good source of vitamin-C.'' @ newline @
     ''Key: '' @ quoted ''Banana'' @ '' not found. (rc='' @ show_int (sint rc) @ '')'' @ newline @ newline @
     ''Shutdown and reopen SplinterDB instance ...'' @ newline @
     ''Iterate through all the key-value pairs returning keys in lexicographic sort order:'' @ newline @
     ''  ['' @ show_nat 0 @ ''] key='' @ quoted ''Mango'' @ '', value='' @ quoted ''Mango is the king of fruits.'' @ newline @
     ''  ['' @ show_nat 1 @ ''] key='' @ quoted ''Orange'' @ '', value='' @ quoted ''Is a good source of vitamin-C.'' @ newline @
     ''  ['' @ show_nat 2 @ ''] key='' @ quoted ''apple'' @ '', value='' @ quoted ''An apple a day keeps the doctor away!'' @ newline @
     ''Found '' @ show_nat 3 @ '' key-value pairs'' @ newline @ newline @
     ''Found key: '' @ quoted ''Orange'' @ '', value: '' @ quoted ''Is a good source of vitamin-C.'' @ newline @
     ''Shutdown SplinterDB instance, dbname '' @ quoted DB_FILE_NAME @ ''.'' @ newline @ newline"

lemma fruits_sorted: "sorted (map fst fruits) \<and> distinct (map fst fruits)"
  by code_simp

lemma fruits_text: "pair_lines 0 fruits =
     ''  ['' @ show_nat 0 @ ''] key='' @ quoted ''Mango'' @ '', value='' @ quoted ''Mango is the king of fruits.'' @ newline @
     ''  ['' @ show_nat 1 @ ''] key='' @ quoted ''Orange'' @ '', value='' @ quoted ''Is a good source of vitamin-C.'' @ newline @
     ''  ['' @ show_nat 2 @ ''] key='' @ quoted ''apple'' @ '', value='' @ quoted ''An apple a day keeps the doctor away!'' @ newline"
  by (simp add: fruits_def pair_line_def print_slice_chars numeral_2_eq_2)

lemma insert_ok:
  assumes "kv_laws D kv mg" "never_fails D"
  shows "\<exists>db'. splinterdb_insert D db k v = (0, db') \<and> kv db' = (kv db)(k \<mapsto> v)"
proof -
  obtain rc db' where i: "splinterdb_insert D db k v = (rc, db')" by force
  then show ?thesis using kv_insert [OF assms(1) i] never_fails_rc(1) [OF assms(2) i] by simp
qed

lemma lookup_ok:
  assumes "kv_laws D kv mg" "never_fails D"
  shows "\<exists>r. splinterdb_lookup D db k = (0, r) \<and>
    (case kv db k of None \<Rightarrow> fst (splinterdb_lookup_result_value D r) \<noteq> 0 | Some v \<Rightarrow> splinterdb_lookup_result_value D r = (0, v))"
proof -
  obtain rc r where l: "splinterdb_lookup D db k = (rc, r)" by force
  then have "rc = 0" using never_fails_rc(4) [OF assms(2) l] by simp
  then show ?thesis using l kv_lookup_Some [OF assms(1)] kv_lookup_None [OF assms(1)] by (auto split: option.splits)
qed

lemma three_inserts:
  assumes "kv_laws D kv mg" "never_fails D" "splinterdb_create D cfg = (0, db0)"
  shows "\<exists>db1 db2 db3.
    splinterdb_insert D db0 (chars ''apple'') (chars ''An apple a day keeps the doctor away!'') = (0, db1) \<and>
    splinterdb_insert D db1 (chars ''Orange'') (chars ''Is a good source of vitamin-C.'') = (0, db2) \<and>
    splinterdb_insert D db2 (chars ''Mango'') (chars ''Mango is the king of fruits.'') = (0, db3) \<and> kv db3 = map_of fruits"
proof -
  note ins = insert_ok [OF assms(1,2)]
  obtain db1 where 1: "splinterdb_insert D db0 (chars ''apple'') (chars ''An apple a day keeps the doctor away!'') = (0, db1)"
    "kv db1 = (kv db0)(chars ''apple'' \<mapsto> chars ''An apple a day keeps the doctor away!'')" using ins by blast
  obtain db2 where 2: "splinterdb_insert D db1 (chars ''Orange'') (chars ''Is a good source of vitamin-C.'') = (0, db2)"
    "kv db2 = (kv db1)(chars ''Orange'' \<mapsto> chars ''Is a good source of vitamin-C.'')" using ins by blast
  obtain db3 where 3: "splinterdb_insert D db2 (chars ''Mango'') (chars ''Mango is the king of fruits.'') = (0, db3)"
    "kv db3 = (kv db2)(chars ''Mango'' \<mapsto> chars ''Mango is the king of fruits.'')" using ins by blast
  have "kv db3 = map_of fruits" using kv_create [OF assms(1,3)] by (simp add: 1(2) 2(2) 3(2) fruits_def)
  with 1(1) 2(1) 3(1) show ?thesis by blast
qed

text \<open>
  Over a store that keeps its laws and whose calls succeed, the example program returns, with
  status 0, and prints exactly the expected text: the three insertions, the value found, the key not
  found with the store's code, and after reopening the three pairs in lexicographic order of their
  keys (capital letters first), with their number.
\<close>

theorem demo_prints:
  assumes kv: "kv_laws D kv mg" and nf: "never_fails D" and m: "more_laws M kv rest"
    and ok: "fst (splinterdb_create D (intro_cfg init)) = 0" "\<And>f. fst (splinterdb_open M (intro_cfg init) f) = 0"
      "\<And>db. fst (splinterdb_iterator_init M db) = 0"
  shows "\<exists>rc. rc \<noteq> 0 \<and> demo_main D M init = Some (0, demo_text rc)"
proof -
  obtain db0 where c: "splinterdb_create D (intro_cfg init) = (0, db0)" using ok(1) by (metis prod.collapse)
  obtain db1 db2 db3 where i: "splinterdb_insert D db0 (chars ''apple'') (chars ''An apple a day keeps the doctor away!'') = (0, db1)"
      "splinterdb_insert D db1 (chars ''Orange'') (chars ''Is a good source of vitamin-C.'') = (0, db2)"
      "splinterdb_insert D db2 (chars ''Mango'') (chars ''Mango is the king of fruits.'') = (0, db3)"
    and k: "kv db3 = map_of fruits"
    using three_inserts [OF kv nf c] by blast
  have found: "map_of fruits (chars ''Orange'') = Some (chars ''Is a good source of vitamin-C.'')"
    "map_of fruits (chars ''Banana'') = None"
    by (simp_all add: fruits_def chars_def)
  obtain r1 where r1: "splinterdb_lookup D db3 (chars ''Orange'') = (0, r1)"
      "splinterdb_lookup_result_value D r1 = (0, chars ''Is a good source of vitamin-C.'')"
    using lookup_ok [OF kv nf, of db3 "chars ''Orange''"] by (auto simp: k found)
  obtain r2 where r2: "splinterdb_lookup D db3 (chars ''Banana'') = (0, r2)"
      "fst (splinterdb_lookup_result_value D r2) \<noteq> 0"
    using lookup_ok [OF kv nf, of db3 "chars ''Banana''"] by (auto simp: k found)
  obtain db4 where o: "splinterdb_open M (intro_cfg init) (splinterdb_close M db3) = (0, db4)" using ok(2) by (metis prod.collapse)
  then have k4: "kv db4 = map_of fruits" using m k by (simp add: more_laws_def)
  obtain r3 where r3: "splinterdb_lookup D db4 (chars ''Orange'') = (0, r3)"
      "splinterdb_lookup_result_value D r3 = (0, chars ''Is a good source of vitamin-C.'')"
    using lookup_ok [OF kv nf, of db4 "chars ''Orange''"] by (auto simp: k4 found)
  obtain it where it: "splinterdb_iterator_init M db4 = (0, it)" using ok(3) by (metis prod.collapse)
  then have "sorted (map fst (rest it)) \<and> distinct (map fst (rest it)) \<and> map_of (rest it) = map_of fruits"
    using m k4 by (simp add: more_laws_def)
  then have rest: "rest it = fruits" using fruits_sorted by (intro sorted_pairs_unique) simp_all
  have "length fruits = 3" by (simp add: fruits_def)
  then have "\<exists>it'. iterate M 0 out it = Some (3, out @ pair_lines 0 fruits, it')" for out
    using iterate_pairs [OF m, of 0 out it] by (simp add: rest)
  then obtain it' where loop: "\<And>out. iterate M 0 out it = Some (3, out @ pair_lines 0 fruits, it' out)" by metis
  show ?thesis
  proof (intro exI conjI)
    show "demo_main D M init = Some (0, demo_text (fst (splinterdb_lookup_result_value D r2)))"
      by (simp add: loop demo_main_def demo_insert_def c i r1 r2 repeat_lookup_eq report_found_def report_missing_def
          o it r3 demo_text_def fruits_text print_slice_chars Let_def)
  qed (rule r2(2))
qed

subsection \<open>A concrete instance\<close>

text \<open>The association list of \<open>ref_splinterdb\<close>; the file is the list, an iterator the pairs that are left.\<close>

definition ref_pairs :: "rdb \<Rightarrow> (byte list \<times> byte list) list" where
  "ref_pairs db = map (\<lambda>k. (k, the (map_of db k))) (sort (remdups (map fst db)))"

definition ref_more :: "(rdb, 'cfg, rdb, (byte list \<times> byte list) list) splinterdb_more" where
  "ref_more = \<lparr>
     splinterdb_open = (\<lambda>_ f. (0, f)), splinterdb_close = (\<lambda>db. db),
     splinterdb_iterator_init = (\<lambda>db. (0, ref_pairs db)),
     splinterdb_iterator_valid = (\<lambda>it. it \<noteq> []), splinterdb_iterator_next = tl,
     splinterdb_iterator_get_current = hd, splinterdb_iterator_status = (\<lambda>_. 0),
     splinterdb_stats_print_insertion = (\<lambda>db. db), splinterdb_stats_print_lookup = (\<lambda>db. db)\<rparr>"

lemma ref_more_laws: "more_laws ref_more map_of (\<lambda>it. it)"
proof -
  have f: "map fst (ref_pairs db) = sort (remdups (map fst db))" for db by (simp add: ref_pairs_def comp_def)
  have "map_of (ref_pairs db) k = map_of db k" for db k
  proof (cases "map_of db k")
    case None
    then have "k \<notin> set (map fst (ref_pairs db))" unfolding f by (simp add: map_of_eq_None_iff)
    then have "map_of (ref_pairs db) k = None" unfolding map_of_eq_None_iff by simp
    then show ?thesis using None by simp
  next
    case (Some v)
    then have "k \<in> set (map fst db)" by (metis domI dom_map_of_conv_image_fst list.set_map)
    then have "(k, v) \<in> set (ref_pairs db)" using Some by (auto simp: ref_pairs_def image_iff)
    moreover have "distinct (map fst (ref_pairs db))" unfolding f by simp
    ultimately show ?thesis using Some by (simp add: map_of_is_SomeI)
  qed
  then have "map_of (ref_pairs db) = map_of db" for db by blast
  then show ?thesis by (simp add: more_laws_def ref_more_def f)
qed

definition ref_intro :: "(rdb, byte list option, 'cfg) splinterdb_api" where
  "ref_intro = \<lparr>
     splinterdb_create = (\<lambda>_. splinterdb_create ref_splinterdb ()),
     splinterdb_insert = splinterdb_insert ref_splinterdb, splinterdb_update = splinterdb_update ref_splinterdb,
     splinterdb_delete = splinterdb_delete ref_splinterdb, splinterdb_lookup = splinterdb_lookup ref_splinterdb,
     splinterdb_lookup_result_value = splinterdb_lookup_result_value ref_splinterdb,
     splinterdb_register_thread = splinterdb_register_thread ref_splinterdb,
     splinterdb_print_cache = splinterdb_print_cache ref_splinterdb, splinterdb_clear_cache = splinterdb_clear_cache ref_splinterdb\<rparr>"

lemma ref_intro_laws: "kv_laws ref_intro map_of (\<lambda>_ v. Some v)" "never_fails ref_intro"
  by (auto simp: kv_laws_def never_fails_def ref_intro_def ref_splinterdb_def map_of_filter_neq split: option.splits)

theorem demo_prints_witness:
  "\<exists>rc. rc \<noteq> 0 \<and> demo_main ref_intro ref_more (\<lambda>max_key_size. max_key_size) = Some (0, demo_text rc)"
  by (rule demo_prints [OF ref_intro_laws ref_more_laws]) (simp_all add: ref_intro_def ref_splinterdb_def ref_more_def)

end
