(* ===== verification/Splinterdb_Log_Store.thy ===== *)
theory Splinterdb_Log_Store
  imports Log_Store Splinterdb_Api Std_String
begin

section \<open>\<open>splinterdb_log_store\<close>: the log store on SplinterDB\<close>

text \<open>
  \<open>src/server/splinterdb_log_store.cpp\<close>: the log kept in a SplinterDB instance of its own, one
  key per index, next to the indexes of the first and the last entry. The build does not use it
  (\<open>_USE_SPLINTERDB_LOG_STORE\<close> is 0). The model follows the code, so the theorems also state
  where it departs from the interface comments of its header: \<open>append\<close> stores an entry one index
  below the slot that \<open>next_slot\<close> announced, and so does \<open>write_at\<close>.
\<close>

text \<open>\<open>log_key_compare\<close> reads a \<open>uint64_t\<close> from the address of each key.\<close>

definition log_key_compare :: "byte list \<Rightarrow> byte list \<Rightarrow> int" where
  "log_key_compare key1 key2 =
     (let idx1 = u64_of_bytes key1; idx2 = u64_of_bytes key2
      in if idx1 > idx2 then 1 else if idx1 < idx2 then - 1 else 0)"

definition log_key_create :: "u64 \<Rightarrow> byte list" where
  "log_key_create index = u64_bytes index"

definition slice_to_buffer :: "('b, 's, 'z) buffer_api_scheme \<Rightarrow> byte list \<Rightarrow> 'b res" where
  "slice_to_buffer N val = put_raw N (buffer_alloc N (word_of_nat (length val))) val"

record 'db splinterdb_log_store =
  sls_spl :: 'db
  sls_start_idx :: u64
  sls_last_idx :: u64

definition sls_new :: "('db, 'r, 'cfg) splinterdb_api \<Rightarrow> 'cfg \<Rightarrow> 'db splinterdb_log_store res" where
  "sls_new D cfg =
     (case splinterdb_create D cfg of (rc, db) \<Rightarrow>
        if rc \<noteq> 0 then Inl (Runtime_error ''Failed to create SplinterDB log instance'')
        else Inr \<lparr>sls_spl = db, sls_start_idx = 1, sls_last_idx = 0\<rparr>)"

definition sls_next_slot :: "'db splinterdb_log_store \<Rightarrow> u64" where
  "sls_next_slot ls = sls_last_idx ls + 1"

definition sls_start_index :: "'db splinterdb_log_store \<Rightarrow> u64" where
  "sls_start_index ls = sls_start_idx ls"

text \<open>
  The lookup the reading functions share: the value of a key when both the lookup and the access
  to its result succeed.
\<close>

definition sls_lookup :: "('db, 'r, 'cfg) splinterdb_api \<Rightarrow> 'db splinterdb_log_store \<Rightarrow> u64 \<Rightarrow> byte list option" where
  "sls_lookup D ls index =
     (case splinterdb_lookup D (sls_spl ls) (log_key_create index) of (rc, result) \<Rightarrow>
        if rc = 0
        then (case splinterdb_lookup_result_value D result of (rc, val) \<Rightarrow> if rc = 0 then Some val else None)
        else None)"

definition sls_decode :: "('b, 's, 'e, 'ea) nuraft \<Rightarrow> byte list \<Rightarrow> 'e res" where
  "sls_decode N val = rbind (slice_to_buffer N val) (le_deserialize N)"

definition sls_last_entry :: "('b, 's, 'e, 'ea) nuraft \<Rightarrow> ('db, 'r, 'cfg) splinterdb_api \<Rightarrow>
    'db splinterdb_log_store \<Rightarrow> 'e res" where
  "sls_last_entry N D ls =
     (case sls_lookup D ls (sls_last_idx ls) of
        Some val \<Rightarrow> sls_decode N val
      | None \<Rightarrow> Inr (log_entry_new N 0 None))"

text \<open>\<open>last_idx_++\<close> yields the value before the increment.\<close>

definition sls_append :: "('b, 's, 'e, 'ea) nuraft \<Rightarrow> ('db, 'r, 'cfg) splinterdb_api \<Rightarrow> 'e \<Rightarrow>
    ('db splinterdb_log_store, u64) act" where
  "sls_append N D entry ls =
     (let index = sls_last_idx ls;
          ls = ls\<lparr>sls_last_idx := sls_last_idx ls + 1\<rparr>;
          buf = le_serialize N entry
      in case splinterdb_insert D (sls_spl ls) (log_key_create index) (data_begin N buf) of (rc, db) \<Rightarrow>
           let ls = ls\<lparr>sls_spl := db\<rparr> in
           if rc \<noteq> 0 then (Inl (Runtime_error ''Failed to append log entry''), ls) else (Inr index, ls))"

text \<open>\<open>std::vector<uint64_t>::max_size()\<close>: \<open>PTRDIFF_MAX / 8\<close>.\<close>

definition vector_u64_max :: nat where
  "vector_u64_max = 1152921504606846975"

text \<open>The deletions, whose return codes the code ignores.\<close>

definition sls_delete_all :: "('db, 'r, 'cfg) splinterdb_api \<Rightarrow> u64 list \<Rightarrow> 'db splinterdb_log_store \<Rightarrow>
    'db splinterdb_log_store" where
  "sls_delete_all D to_delete ls =
     fold (\<lambda>key ls. ls\<lparr>sls_spl := snd (splinterdb_delete D (sls_spl ls) (log_key_create key))\<rparr>) to_delete ls"

text \<open>The sizes of the vectors are computed on \<open>uint64_t\<close>; one above the maximum makes the constructor throw.\<close>

definition sls_write_at :: "('b, 's, 'e, 'ea) nuraft \<Rightarrow> ('db, 'r, 'cfg) splinterdb_api \<Rightarrow> u64 \<Rightarrow> 'e \<Rightarrow>
    ('db splinterdb_log_store, unit) act" where
  "sls_write_at N D index entry ls =
     (let old_last_idx = sls_last_idx ls;
          ls = ls\<lparr>sls_last_idx := index - 1\<rparr>;
          n = unat (old_last_idx - index + 1)
      in if n > vector_u64_max then (Inl Length_error, ls)
         else abind (sls_append N D entry) (\<lambda>_ ls. (Inr (), ls)) (sls_delete_all D (iota n index) ls))"

text \<open>The loop of \<open>log_entries\<close>: \<open>None\<close> is the null pointer of an index that cannot be read.\<close>

fun sls_entries_loop :: "('b, 's, 'e, 'ea) nuraft \<Rightarrow> ('db, 'r, 'cfg) splinterdb_api \<Rightarrow> 'db splinterdb_log_store \<Rightarrow>
    u64 list \<Rightarrow> 'e list option res" where
  "sls_entries_loop N D ls [] = Inr (Some [])"
| "sls_entries_loop N D ls (i # is) =
     (case sls_lookup D ls i of
        None \<Rightarrow> Inr None
      | Some val \<Rightarrow> rbind (sls_decode N val) (\<lambda>e.
          rbind (sls_entries_loop N D ls is) (\<lambda>es. Inr (map_option ((#) e) es))))"

definition sls_log_entries :: "('b, 's, 'e, 'ea) nuraft \<Rightarrow> ('db, 'r, 'cfg) splinterdb_api \<Rightarrow> u64 \<Rightarrow> u64 \<Rightarrow>
    'db splinterdb_log_store \<Rightarrow> 'e ptr list ptr res" where
  "sls_log_entries N D start end' ls =
     (let n = unat (end' - start) in
      if n > 576460752303423487 then Inl Length_error
      else rbind (sls_entries_loop N D ls (urange start end')) (\<lambda>es.
        Inr (map_option (\<lambda>es. map Some es @ replicate (n - length es) None) es)))"

definition sls_entry_at :: "('b, 's, 'e, 'ea) nuraft \<Rightarrow> ('db, 'r, 'cfg) splinterdb_api \<Rightarrow>
    'db splinterdb_log_store \<Rightarrow> u64 \<Rightarrow> 'e ptr res" where
  "sls_entry_at N D ls index =
     (case sls_lookup D ls index of
        Some val \<Rightarrow> rbind (sls_decode N val) (\<lambda>e. Inr (Some e))
      | None \<Rightarrow> Inr None)"

definition sls_term_at :: "('b, 's, 'e, 'ea) nuraft \<Rightarrow> ('db, 'r, 'cfg) splinterdb_api \<Rightarrow>
    'db splinterdb_log_store \<Rightarrow> u64 \<Rightarrow> u64 res" where
  "sls_term_at N D ls index =
     (if index \<ge> sls_next_slot ls then Inl (Runtime_error ''Log index out of range'')
      else if index < sls_start_index ls then Inr 0
      else (case sls_lookup D ls index of
              Some val \<Rightarrow> rbind (sls_decode N val) (\<lambda>entry. Inr (get_term N entry))
            | None \<Rightarrow> Inr 0))"

text \<open>The first loop of \<open>pack\<close>: it stops at the first index that is not there.\<close>

fun sls_pack_loop :: "('b, 's, 'e, 'ea) nuraft \<Rightarrow> ('db, 'r, 'cfg) splinterdb_api \<Rightarrow> 'db splinterdb_log_store \<Rightarrow>
    u64 list \<Rightarrow> 'b list res" where
  "sls_pack_loop N D ls [] = Inr []"
| "sls_pack_loop N D ls (i # is) =
     rbind (sls_entry_at N D ls i) (\<lambda>entry.
       case entry of
         None \<Rightarrow> Inr []
       | Some entry \<Rightarrow> rbind (sls_pack_loop N D ls is) (\<lambda>bufs. Inr (le_serialize N entry # bufs)))"

fun sls_put_bufs :: "('b, 's, 'z) buffer_api_scheme \<Rightarrow> 'b list \<Rightarrow> 'b \<Rightarrow> 'b res" where
  "sls_put_bufs N [] ret = Inr ret"
| "sls_put_bufs N (buf # bufs) ret =
     rbind (put_int N ret (ucast (buffer_size N buf))) (\<lambda>ret.
     rbind (put_buffer N ret buf) (sls_put_bufs N bufs))"

definition sls_pack :: "('b, 's, 'e, 'ea) nuraft \<Rightarrow> ('db, 'r, 'cfg) splinterdb_api \<Rightarrow> u64 \<Rightarrow> i32 \<Rightarrow>
    'db splinterdb_log_store \<Rightarrow> 'b res" where
  "sls_pack N D index signed_cnt ls =
     (let cnt = scast signed_cnt :: u64 in
      rbind (sls_pack_loop N D ls (urange index (index + cnt))) (\<lambda>bufs.
        let size_total = sum_list (map (buffer_size N) bufs);
            ret = set_pos0 N (buffer_alloc N (4 + cnt * 4 + size_total))
        in rbind (put_int N ret signed_cnt) (sls_put_bufs N bufs)))"

fun sls_apply_pack_loop :: "('b, 's, 'z) buffer_api_scheme \<Rightarrow> ('db, 'r, 'cfg) splinterdb_api \<Rightarrow> nat \<Rightarrow> u64 \<Rightarrow> 'b \<Rightarrow>
    ('db splinterdb_log_store, unit) act" where
  "sls_apply_pack_loop N D 0 cur_index pack ls = (Inr (), ls)"
| "sls_apply_pack_loop N D (Suc k) cur_index pack ls =
     (case get_int N pack of
        Inl e \<Rightarrow> (Inl e, ls)
      | Inr (sz, pack) \<Rightarrow>
          if sint sz \<le> 0 then (Inl (Runtime_error ''Invalid log entry size''), ls)
          else (case get_buffer N pack (buffer_alloc N (scast sz)) of
                  Inl e \<Rightarrow> (Inl e, ls)
                | Inr (buf, pack) \<Rightarrow>
                    (case splinterdb_insert D (sls_spl ls) (log_key_create cur_index) (data_begin N buf) of (rc, db) \<Rightarrow>
                       let ls = ls\<lparr>sls_spl := db\<rparr> in
                       if rc \<noteq> 0
                       then (Inl (Runtime_error (''Failed to append log entry at index '' @ show_nat (unat cur_index))), ls)
                       else sls_apply_pack_loop N D k (cur_index + 1) pack ls)))"

definition sls_apply_pack :: "('b, 's, 'z) buffer_api_scheme \<Rightarrow> ('db, 'r, 'cfg) splinterdb_api \<Rightarrow> u64 \<Rightarrow> 'b \<Rightarrow>
    ('db splinterdb_log_store, unit) act" where
  "sls_apply_pack N D index pack ls =
     (case get_int N (set_pos0 N pack) of
        Inl e \<Rightarrow> (Inl e, ls)
      | Inr (signed_cnt, pack) \<Rightarrow>
          if sint signed_cnt \<le> 0 then (Inl (Runtime_error ''Invalid log entry count''), ls)
          else sls_apply_pack_loop N D (nat (sint signed_cnt)) index pack ls)"

definition sls_compact :: "('db, 'r, 'cfg) splinterdb_api \<Rightarrow> u64 \<Rightarrow> ('db splinterdb_log_store, bool) act" where
  "sls_compact D last_log_index ls =
     (let start = sls_start_idx ls;
          n = unat (last_log_index - start + 1)
      in if n > vector_u64_max then (Inl Length_error, ls)
         else let ls = sls_delete_all D (iota n start) ls
              in (Inr True,
                  if sls_start_idx ls \<le> last_log_index then ls\<lparr>sls_start_idx := last_log_index + 1\<rparr> else ls))"

definition sls_flush :: "'db splinterdb_log_store \<Rightarrow> bool" where
  "sls_flush ls \<longleftrightarrow> True"

definition get_splinterdb_handle :: "'db splinterdb_log_store \<Rightarrow> 'db" where
  "get_splinterdb_handle ls = sls_spl ls"

subsection \<open>The keys\<close>

lemma u64_of_log_key [simp]: "u64_of_bytes (log_key_create i) = i"
  using u64_of_bytes_u64_bytes [of i "[]"] by (simp add: log_key_create_def)

lemma log_key_inj [simp]: "log_key_create i = log_key_create j \<longleftrightarrow> i = j"
  by (simp add: log_key_create_def)

text \<open>
  The comparison function handed to SplinterDB orders the keys of the log by their index: the
  key of a smaller index compares as less, and only the key of the same index as equal.
\<close>

theorem log_key_compare_order:
  "log_key_compare (log_key_create i) (log_key_create j) = sgn (uint i - uint j) \<and>
   (log_key_compare (log_key_create i) (log_key_create j) = 0 \<longleftrightarrow> log_key_create i = log_key_create j)"
  by (auto simp: log_key_compare_def Let_def word_less_def word_uint_eq_iff sgn_if)

subsection \<open>What the log store holds\<close>

text \<open>The serialized entry at an index.\<close>

definition sls_log :: "('db \<Rightarrow> kvmap) \<Rightarrow> 'db splinterdb_log_store \<Rightarrow> u64 \<rightharpoonup> byte list" where
  "sls_log kv ls i = kv (sls_spl ls) (log_key_create i)"

lemma sls_lookup_log:
  assumes "kv_laws D kv mg" "never_fails D"
  shows "sls_lookup D ls i = sls_log kv ls i"
proof -
  obtain rc r where l: "splinterdb_lookup D (sls_spl ls) (log_key_create i) = (rc, r)" by force
  moreover have "rc = 0" by (rule never_fails_rc(4) [OF assms(2) l])
  ultimately have l0: "splinterdb_lookup D (sls_spl ls) (log_key_create i) = (0, r)" by simp
  show ?thesis
  proof (cases "kv (sls_spl ls) (log_key_create i)")
    case None
    then show ?thesis using kv_lookup_None [OF assms(1) l0] l0
      by (auto simp: sls_lookup_def sls_log_def split: prod.splits)
  next
    case (Some v)
    then show ?thesis using kv_lookup_Some [OF assms(1) l0] l0 by (simp add: sls_lookup_def sls_log_def)
  qed
qed

lemma sls_append_ok:
  assumes "kv_laws D kv mg" "never_fails D"
  shows "\<exists>ls'. sls_append N D e ls = (Inr (sls_last_idx ls), ls') \<and> sls_last_idx ls' = sls_last_idx ls + 1 \<and>
    sls_start_idx ls' = sls_start_idx ls \<and>
    sls_log kv ls' = (sls_log kv ls)(sls_last_idx ls \<mapsto> data_begin N (le_serialize N e))"
proof -
  obtain rc db where i: "splinterdb_insert D (sls_spl ls) (log_key_create (sls_last_idx ls)) (data_begin N (le_serialize N e)) = (rc, db)"
    by force
  have "rc = 0" by (rule never_fails_rc(1) [OF assms(2) i])
  then show ?thesis using i kv_insert [OF assms(1) i]
    by (auto simp: sls_append_def Let_def sls_log_def fun_eq_iff)
qed

lemma sls_delete_all_ok:
  assumes "kv_laws D kv mg" "never_fails D"
  shows "sls_log kv (sls_delete_all D ks ls) = sls_log kv ls |` (- set ks) \<and>
    sls_last_idx (sls_delete_all D ks ls) = sls_last_idx ls \<and> sls_start_idx (sls_delete_all D ks ls) = sls_start_idx ls"
proof (induction ks arbitrary: ls)
  case Nil
  then show ?case by (simp add: sls_delete_all_def)
next
  case (Cons k ks)
  obtain rc db where d: "splinterdb_delete D (sls_spl ls) (log_key_create k) = (rc, db)" by force
  have "rc = 0" by (rule never_fails_rc(3) [OF assms(2) d])
  then have log: "sls_log kv (ls\<lparr>sls_spl := db\<rparr>) = (sls_log kv ls)(k := None)"
    using kv_delete [OF assms(1) d] by (auto simp: sls_log_def fun_eq_iff)
  have "sls_delete_all D (k # ks) ls = sls_delete_all D ks (ls\<lparr>sls_spl := db\<rparr>)"
    by (simp add: sls_delete_all_def d)
  then show ?case using Cons.IH [of "ls\<lparr>sls_spl := db\<rparr>"] by (auto simp: log restrict_map_def fun_eq_iff)
qed

subsection \<open>Appending\<close>

fun sls_appends :: "('b, 's, 'e, 'ea) nuraft \<Rightarrow> ('db, 'r, 'cfg) splinterdb_api \<Rightarrow> 'e list \<Rightarrow>
    ('db splinterdb_log_store, u64 list) act" where
  "sls_appends N D [] ls = (Inr [], ls)"
| "sls_appends N D (e # es) ls =
     abind (sls_append N D e) (\<lambda>i. abind (sls_appends N D es) (\<lambda>is ls. (Inr (i # is), ls))) ls"

lemma sls_appends_ok:
  assumes laws: "kv_laws D kv mg" "never_fails D"
  shows "unat (sls_last_idx ls) + length es < 18446744073709551616 \<Longrightarrow>
    \<exists>ls'. sls_appends N D es ls = (Inr (urange (sls_last_idx ls) (sls_last_idx ls + word_of_nat (length es))), ls') \<and>
      unat (sls_last_idx ls') = unat (sls_last_idx ls) + length es \<and> sls_start_idx ls' = sls_start_idx ls \<and>
      (\<forall>i. sls_log kv ls' i =
        (if sls_last_idx ls \<le> i \<and> i < sls_last_idx ls + word_of_nat (length es)
         then Some (data_begin N (le_serialize N (es ! (unat i - unat (sls_last_idx ls))))) else sls_log kv ls i))"
proof (induction es arbitrary: ls)
  case Nil
  then show ?case by auto
next
  case (Cons e es)
  let ?a = "sls_last_idx ls" and ?b = "sls_last_idx ls + word_of_nat (length (e # es))"
  obtain l where l: "sls_append N D e ls = (Inr ?a, l)" "sls_last_idx l = ?a + 1" "sls_start_idx l = sls_start_idx ls"
    "sls_log kv l = (sls_log kv ls)(?a \<mapsto> data_begin N (le_serialize N e))"
    using sls_append_ok [OF laws, of N e ls] by blast
  have Suc: "unat (?a + 1) = unat ?a + 1" using Cons.prems by (intro unat_Suc_64) simp
  have b: "?a + 1 + word_of_nat (length es) = ?b" by (simp add: add.commute)
  have ub: "unat ?b = unat ?a + length (e # es)"
    using Cons.prems unat_add_64 [of ?a "word_of_nat (length (e # es))"] unat_of_nat_64 [of "length (e # es)"] by simp
  then have lt: "?a < ?b" by (simp add: u64_less_iff)
  have "unat (sls_last_idx l) + length es < 18446744073709551616" using Cons.prems l(2) Suc by simp
  from Cons.IH [OF this] obtain l' where l': "sls_appends N D es l = (Inr (urange (?a + 1) ?b), l')"
    "unat (sls_last_idx l') = unat ?a + length (e # es)" "sls_start_idx l' = sls_start_idx ls"
    "\<And>i. sls_log kv l' i = (if ?a + 1 \<le> i \<and> i < ?b
       then Some (data_begin N (le_serialize N (es ! (unat i - unat (?a + 1))))) else sls_log kv l i)"
    using l(2,3) Suc unfolding l(2) b by auto
  have "sls_log kv l' i = (if ?a \<le> i \<and> i < ?b
     then Some (data_begin N (le_serialize N ((e # es) ! (unat i - unat ?a)))) else sls_log kv ls i)" for i
  proof (cases "i = ?a")
    case True
    then show ?thesis using l'(4) [of i] l(4) lt Suc by (simp add: u64_le_iff)
  next
    case False
    then have "?a \<le> i \<longleftrightarrow> ?a + 1 \<le> i" using Suc by (auto simp: u64_le_iff u64_eq_iff)
    moreover have "unat i - unat ?a = Suc (unat i - unat (?a + 1))" if "?a + 1 \<le> i"
      using that Suc by (simp add: u64_le_iff)
    ultimately show ?thesis using l'(4) [of i] l(4) False by simp
  qed
  then show ?case using l(1) l'(1-3) urange_step [OF lt] by simp
qed

text \<open>
  C36. Appending to a fresh store gives the entries the indexes 0, 1, ... although \<open>next_slot\<close>
  announces 1 first: the \<open>n\<close> entries are stored under 0 to \<open>n - 1\<close>, nothing is stored under the
  last index \<open>n\<close>, and \<open>last_entry\<close> answers with the dummy entry of term 0 that stands for an
  empty log.
\<close>

theorem sls_appends_shifted:
  assumes laws: "kv_laws D kv mg" "never_fails D" and new: "sls_new D cfg = Inr ls"
    and n: "length es < 18446744073709551616"
  shows "\<exists>ls'. sls_appends N D es ls = (Inr (urange 0 (word_of_nat (length es))), ls') \<and>
    sls_next_slot ls = 1 \<and> sls_next_slot ls' = word_of_nat (length es) + 1 \<and>
    (\<forall>i. sls_log kv ls' i =
       (if unat i < length es then Some (data_begin N (le_serialize N (es ! unat i))) else None)) \<and>
    sls_last_entry N D ls' = Inr (log_entry_new N 0 None)"
proof -
  obtain db where c: "splinterdb_create D cfg = (0, db)" and ls: "ls = \<lparr>sls_spl = db, sls_start_idx = 1, sls_last_idx = 0\<rparr>"
    using new by (auto simp: sls_new_def split: prod.splits if_splits)
  have empty: "sls_log kv ls i = None" for i using kv_create [OF laws(1) c] by (simp add: sls_log_def ls)
  have last0: "sls_last_idx ls = 0" by (simp add: ls)
  obtain ls' where ls': "sls_appends N D es ls = (Inr (urange 0 (word_of_nat (length es))), ls')"
    "unat (sls_last_idx ls') = length es"
    "\<And>i. sls_log kv ls' i = (if i < word_of_nat (length es)
       then Some (data_begin N (le_serialize N (es ! unat i))) else None)"
    using sls_appends_ok [OF laws, of ls es N] n empty unfolding last0 by auto
  have last: "sls_last_idx ls' = word_of_nat (length es)"
    using ls'(2) unat_of_nat_64 [OF n] by (simp add: u64_eq_iff)
  have "sls_last_entry N D ls' = Inr (log_entry_new N 0 None)"
    using ls'(3) [of "sls_last_idx ls'"] by (simp add: sls_last_entry_def sls_lookup_log [OF laws] last)
  then show ?thesis using ls' last unat_of_nat_64 [OF n] by (auto simp: sls_next_slot_def last0 u64_less_iff)
qed

theorem sls_appends_shifted_witness:
  "\<exists>ls ls'. sls_new ref_splinterdb () = Inr ls \<and>
     sls_appends ref_nuraft ref_splinterdb [(3, ([7], 0), 1, 0, False, 0)] ls = (Inr [0], ls') \<and>
     sls_next_slot ls = 1 \<and> sls_last_entry ref_nuraft ref_splinterdb ls' = Inr (0, ([], 0), 1, 0, False, 0)"
proof -
  obtain ls where ls: "sls_new ref_splinterdb () = Inr ls" by (simp add: sls_new_def ref_splinterdb_def)
  show ?thesis
    using sls_appends_shifted [OF ref_kv_laws ref_never_fails ls, of "[(3, ([7], 0), 1, 0, False, 0)]" ref_nuraft] ls
    by (auto simp: urange_def ref_nuraft_def)
qed

subsection \<open>Truncation and compaction\<close>

text \<open>
  \<open>write_at\<close> at an index of the log (or the slot behind it) removes that index and all later
  ones, but stores the new entry under the index before it, where an older entry is lost; the
  index it was called with holds nothing although it becomes the last index.
\<close>

theorem sls_write_at_shifted:
  assumes laws: "kv_laws D kv mg" "never_fails D"
    and i: "1 \<le> i" "unat i \<le> unat (sls_last_idx ls) + 1" "unat (sls_last_idx ls) < vector_u64_max"
  shows "\<exists>ls'. sls_write_at N D i e ls = (Inr (), ls') \<and> sls_last_idx ls' = i \<and>
    sls_log kv ls' = (sls_log kv ls |` (- {i ..< sls_last_idx ls + 1}))(i - 1 \<mapsto> data_begin N (le_serialize N e)) \<and>
    (sls_log kv ls (sls_last_idx ls + 1) = None \<longrightarrow> sls_log kv ls' i = None)"
proof -
  let ?l = "sls_last_idx ls"
  have Suc: "unat (?l + 1) = unat ?l + 1" using i(3) by (intro unat_Suc_64) (simp add: vector_u64_max_def)
  have le: "i \<le> ?l + 1" using i(2) Suc by (simp add: u64_le_iff)
  have n: "unat (?l - i + 1) = unat ?l + 1 - unat i"
  proof -
    have w: "?l - i + 1 = ?l + 1 - i" by simp
    show ?thesis using unat_sub [OF le] Suc unfolding w by simp
  qed
  have "unat i + (unat ?l + 1 - unat i) = unat (?l + 1)" using i(2) Suc by simp
  then have io: "set (iota (unat (?l - i + 1)) i) = {i ..< ?l + 1}"
    using iota_urange [of i "unat (?l - i + 1)"] n le Suc i(2) unat_lt_2_64 [of "?l + 1"]
    by (simp add: of_nat_diff add.commute)
  define l where "l = sls_delete_all D (iota (unat (?l - i + 1)) i) (ls\<lparr>sls_last_idx := i - 1\<rparr>)"
  have log: "sls_log kv (ls\<lparr>sls_last_idx := i - 1\<rparr>) = sls_log kv ls" by (simp add: sls_log_def fun_eq_iff)
  have l: "sls_log kv l = sls_log kv ls |` (- {i ..< ?l + 1})" "sls_last_idx l = i - 1"
    using sls_delete_all_ok [OF laws, of "iota (unat (?l - i + 1)) i" "ls\<lparr>sls_last_idx := i - 1\<rparr>"]
    unfolding l_def [symmetric] io log by auto
  obtain ls' where ls': "sls_append N D e l = (Inr (i - 1), ls')" "sls_last_idx ls' = i"
    "sls_log kv ls' = (sls_log kv l)(i - 1 \<mapsto> data_begin N (le_serialize N e))"
    using sls_append_ok [OF laws, of N e l] by (auto simp: l(2))
  have "sls_write_at N D i e ls = (Inr (), ls')"
    using n i(1,3) ls'(1) by (simp add: sls_write_at_def Let_def l_def)
  moreover have "sls_log kv ls' i = None" if "sls_log kv ls (?l + 1) = None"
    using that le i(1) ls'(3) by (auto simp: l(1) restrict_map_def)
  ultimately show ?thesis using ls' by (auto simp: l(1))
qed

theorem sls_write_at_shifted_witness:
  "\<exists>ls'. sls_write_at ref_nuraft ref_splinterdb 1 (3, ([7], 0), 1, 0, False, 0)
       \<lparr>sls_spl = [], sls_start_idx = 1, sls_last_idx = 1\<rparr> = (Inr (), ls') \<and>
     sls_last_idx ls' = 1 \<and> sls_log map_of ls' 1 = None \<and> sls_log map_of ls' 0 \<noteq> None"
proof -
  have "sls_log map_of \<lparr>sls_spl = [], sls_start_idx = 1, sls_last_idx = 1\<rparr> = Map.empty"
    by (simp add: sls_log_def fun_eq_iff)
  then show ?thesis
    using sls_write_at_shifted [OF ref_kv_laws ref_never_fails, of 1 "\<lparr>sls_spl = [], sls_start_idx = 1, sls_last_idx = 1\<rparr>"
        ref_nuraft "(3, ([7], 0), 1, 0, False, 0)"]
    by (auto simp: vector_u64_max_def)
qed

text \<open>
  \<open>compact\<close> up to an index at or behind the start removes exactly the entries from the start
  to that index and moves the start behind it, also past the end of the log; when everything up to
  the index is already gone it removes nothing if the index is right before the start, and
  otherwise the size of its vector wraps around and it throws.
\<close>

theorem sls_compact_cases:
  assumes laws: "kv_laws D kv mg" "never_fails D"
    and i: "1 \<le> sls_start_idx ls" "unat i < vector_u64_max" "unat (sls_start_idx ls) < vector_u64_max"
  shows "if unat i + 1 < unat (sls_start_idx ls) then sls_compact D i ls = (Inl Length_error, ls)
    else \<exists>ls'. sls_compact D i ls = (Inr True, ls') \<and> unat (sls_start_idx ls') = unat i + 1 \<and>
      sls_last_idx ls' = sls_last_idx ls \<and> sls_log kv ls' = sls_log kv ls |` (- {sls_start_idx ls .. i})"
proof -
  let ?s = "sls_start_idx ls"
  have Suc: "unat (i + 1) = unat i + 1" using i(2) by (intro unat_Suc_64) (simp add: vector_u64_max_def)
  have w: "i - ?s + 1 = i + 1 - ?s" by simp
  show ?thesis
  proof (cases "unat i + 1 < unat ?s")
    case True
    have "unat (i + 1 - ?s) = unat (i + 1) + 18446744073709551616 - unat ?s"
      using True Suc by (simp add: unat_sub_if_size word_size)
    then have "unat (i - ?s + 1) > vector_u64_max" using True Suc i(3) by (simp add: w vector_u64_max_def)
    then show ?thesis using True by (simp add: sls_compact_def Let_def)
  next
    case False
    then have le: "?s \<le> i + 1" using Suc by (simp add: u64_le_iff)
    have n: "unat (i - ?s + 1) = unat i + 1 - unat ?s" using unat_sub [OF le] Suc by (simp add: w)
    have "set (iota (unat (i - ?s + 1)) ?s) = {?s ..< i + 1}"
      using iota_urange [of ?s "unat (i - ?s + 1)"] n le Suc False unat_lt_2_64 [of "i + 1"]
      by (simp add: of_nat_diff add.commute)
    also have "\<dots> = {?s .. i}" using Suc by (auto simp: u64_le_iff u64_less_iff)
    finally have io: "set (iota (unat (i - ?s + 1)) ?s) = {?s .. i}" .
    have "unat (i - ?s + 1) \<le> vector_u64_max" using n i(1,2) by (simp add: u64_le_iff)
    moreover have "unat ?s = unat i + 1" if "\<not> ?s \<le> i" using that False by (simp add: u64_le_iff)
    ultimately show ?thesis
      using sls_delete_all_ok [OF laws, of "iota (unat (i - ?s + 1)) ?s" ls] False Suc
      by (auto simp: sls_compact_def Let_def io sls_log_def [abs_def])
  qed
qed

theorem sls_compact_cases_witness:
  "(\<exists>ls'. sls_compact ref_splinterdb 5 \<lparr>sls_spl = [], sls_start_idx = 1, sls_last_idx = 2\<rparr> = (Inr True, ls') \<and>
     unat (sls_start_idx ls') = 6) \<and>
   sls_compact ref_splinterdb 2 \<lparr>sls_spl = [], sls_start_idx = 7, sls_last_idx = 9\<rparr> =
     (Inl Length_error, \<lparr>sls_spl = [], sls_start_idx = 7, sls_last_idx = 9\<rparr>)"
  using sls_compact_cases [OF ref_kv_laws ref_never_fails, of "\<lparr>sls_spl = [], sls_start_idx = 1, sls_last_idx = 2\<rparr>" 5]
    sls_compact_cases [OF ref_kv_laws ref_never_fails, of "\<lparr>sls_spl = [], sls_start_idx = 7, sls_last_idx = 9\<rparr>" 2]
  by (auto simp: vector_u64_max_def)

end
