(* ===== verification/Logger_Format.thy ===== *)
theory Logger_Format
  imports Std_String
begin

section \<open>The text of a log message\<close>

text \<open>
  How \<open>SimpleLogger::put\<close> (\<open>logger.cpp\<close>) builds the line it stores and the text it shows on the
  console: the time stamp of \<open>TimeInfo\<close>, the level names, the file name without its directory, and
  the macro \<open>_snprintf\<close>, which appends to the \<open>MSG_SIZE\<close> bytes of the array \<open>msg\<close> and keeps the
  two counters \<open>avail_len\<close> and \<open>cur_len\<close>. The text that \<open>vsnprintf\<close> makes of the caller's format
  and arguments is an argument, \<open>body\<close>. The array is not initialized by the code: its first
  contents are an argument too, and what is stored is proved not to depend on them.
\<close>

subsection \<open>\<open>printf\<close> conversions the code uses\<close>

text \<open>\<open>%0wd\<close>, and \<open>%*u\<close> with a width: padding with zeros after the sign, or with blanks.\<close>

definition fmt_d0 :: "nat \<Rightarrow> int \<Rightarrow> string" where
  "fmt_d0 w i =
     (let ds = show_nat (nat \<bar>i\<bar>); sg = (if i < 0 then ''-'' else '''')
      in sg @ replicate (w - length sg - length ds) (CHR ''0'') @ ds)"

definition fmt_u :: "nat \<Rightarrow> u32 \<Rightarrow> string" where
  "fmt_u w u = (let ds = show_nat (unat u) in replicate (w - length ds) (CHR '' '') @ ds)"

subsection \<open>\<open>SimpleLoggerMgr::TimeInfo\<close>\<close>

record time_info =
  ti_year :: int
  ti_month :: int
  ti_day :: int
  ti_hour :: int
  ti_min :: int
  ti_sec :: int
  ti_msec :: int
  ti_usec :: int

text \<open>The broken-down time of \<open>localtime_r\<close> and \<open>gmtime\<close>, with C's offsets.\<close>

record c_tm =
  tm_year :: int
  tm_mon :: int
  tm_mday :: int
  tm_hour :: int
  tm_min :: int
  tm_sec :: int

definition time_info_tm :: "c_tm \<Rightarrow> time_info" where
  "time_info_tm src =
     \<lparr>ti_year = tm_year src + 1900, ti_month = tm_mon src + 1, ti_day = tm_mday src, ti_hour = tm_hour src,
      ti_min = tm_min src, ti_sec = tm_sec src, ti_msec = 0, ti_usec = 0\<rparr>"

definition time_info_now :: "c_tm \<Rightarrow> u64 \<Rightarrow> time_info" where
  "time_info_now lt_tm us_epoch =
     (time_info_tm lt_tm)\<lparr>ti_msec := uint ((us_epoch div 1000) mod 1000), ti_usec := uint (us_epoch mod 1000)\<rparr>"

definition getTzGap :: "c_tm \<Rightarrow> c_tm \<Rightarrow> int" where
  "getTzGap lt_tm gmt_tm =
     (let lt = time_info_tm lt_tm; gmt = time_info_tm gmt_tm
      in (ti_day lt * 60 * 24 + ti_hour lt * 60 + ti_min lt) - (ti_day gmt * 60 * 24 + ti_hour gmt * 60 + ti_min gmt))"

subsection \<open>Appending to the message array\<close>

definition MSG_SIZE :: nat where
  "MSG_SIZE = 4096"

text \<open>The array, \<open>avail_len\<close> and \<open>cur_len\<close>.\<close>

type_synonym msg_buf = "string \<times> nat \<times> nat"

definition poke :: "nat \<Rightarrow> string \<Rightarrow> string \<Rightarrow> string" where
  "poke pos cs buf = take pos buf @ cs @ drop (pos + length cs) buf"

text \<open>
  The macro. \<open>snprintf\<close> stores at most \<open>avail_len - 1\<close> bytes and a terminating zero and returns the
  length of the whole text; with \<open>avail_len\<close> zero it stores nothing.
\<close>

fun snprintf_macro :: "string \<Rightarrow> msg_buf \<Rightarrow> msg_buf" where
  "snprintf_macro str (msg, avail_len, cur_len) =
     (let avail_len = (if avail_len > cur_len then avail_len - cur_len else 0);
          msg = (if avail_len = 0 then msg else poke cur_len (take (avail_len - 1) str @ [CHR 0x00]) msg);
          msg_len = length str
      in (msg, avail_len, cur_len + (if avail_len > msg_len then msg_len else avail_len)))"

subsection \<open>The parts of a message\<close>

definition lv_names :: "string list" where
  "lv_names = [''===='', ''FATL'', ''ERRO'', ''WARN'', ''INFO'', ''DEBG'', ''TRAC'']"

text \<open>The loop that finds the last slash or backslash; it starts from 0.\<close>

fun last_slash_loop :: "nat \<Rightarrow> nat \<Rightarrow> string \<Rightarrow> nat" where
  "last_slash_loop ii last_slash [] = last_slash"
| "last_slash_loop ii last_slash (c # cs) =
     last_slash_loop (Suc ii) (if c = CHR ''/'' \<or> c = CHR 0x5C then ii else last_slash) cs"

definition file_name_part :: "string \<Rightarrow> string" where
  "file_name_part source_file =
     (let last_slash = last_slash_loop 0 0 source_file
      in drop (if last_slash \<noteq> 0 then last_slash + 1 else 0) source_file)"

text \<open>What a call of \<open>put\<close> finds around it: the time, the thread and the contents of its stack array.\<close>

record put_env =
  pe_lt :: time_info
  pe_tid_digits :: nat
  pe_tid_hash :: u32
  pe_msg :: string

definition put_head :: "put_env \<Rightarrow> int \<Rightarrow> nat \<Rightarrow> string" where
  "put_head E tzGap level =
     (let lt = pe_lt E; tz_gap_abs = (if tzGap < 0 then tzGap * - 1 else tzGap)
      in fmt_d0 4 (ti_year lt) @ ''-'' @ fmt_d0 2 (ti_month lt) @ ''-'' @ fmt_d0 2 (ti_day lt) @ ''T'' @
         fmt_d0 2 (ti_hour lt) @ '':'' @ fmt_d0 2 (ti_min lt) @ '':'' @ fmt_d0 2 (ti_sec lt) @ ''.'' @
         fmt_d0 3 (ti_msec lt) @ ''_'' @ fmt_d0 3 (ti_usec lt) @ (if tzGap \<ge> 0 then ''+'' else ''-'') @
         fmt_d0 2 (tz_gap_abs div 60) @ '':'' @ fmt_d0 2 (tz_gap_abs mod 60) @ '' '' @
         ''['' @ fmt_u (pe_tid_digits E) (pe_tid_hash E) @ ''] '' @
         ''['' @ lv_names ! level @ ''] '')"

definition put_tail :: "string option \<Rightarrow> string option \<Rightarrow> nat \<Rightarrow> string" where
  "put_tail source_file func_name line_number =
     (case (source_file, func_name) of
        (Some sf, Some fn) \<Rightarrow>
          CHR 0x09 # ''['' @ file_name_part sf @ '':'' @ show_nat line_number @ '', '' @ fn @ ''()]'' @ [CHR 0x0A]
      | _ \<Rightarrow> [CHR 0x0A])"

text \<open>The array and \<open>cur_len\<close> after the three appends of the file part.\<close>

definition put_message :: "put_env \<Rightarrow> int \<Rightarrow> nat \<Rightarrow> string option \<Rightarrow> string option \<Rightarrow> nat \<Rightarrow> string \<Rightarrow> string \<times> nat" where
  "put_message E tzGap level source_file func_name line_number body =
     (case snprintf_macro (put_tail source_file func_name line_number)
            (snprintf_macro body
              (snprintf_macro (put_head E tzGap level) (pe_msg E, MSG_SIZE, 0))) of
        (msg, avail_len, cur_len) \<Rightarrow> (msg, cur_len))"

subsection \<open>The console text\<close>

definition esc :: "string \<Rightarrow> string" where
  "esc code = CHR 0x1B # ''['' @ code @ ''m''"

definition coloured :: "string \<Rightarrow> string \<Rightarrow> string" where
  "coloured code str = esc code @ str @ esc ''0''"

definition colored_lv_names :: "string list" where
  "colored_lv_names =
     [coloured ''1;33'' ''===='', coloured ''37;41'' ''FATL'', coloured ''1;31'' ''ERRO'', coloured ''1;35'' ''WARN'',
      ''INFO'', coloured ''1;30'' ''DEBG'', coloured ''1;30'' ''TRAC'']"

definition disp_head :: "put_env \<Rightarrow> nat \<Rightarrow> string" where
  "disp_head E level =
     (let lt = pe_lt E; brown = coloured ''33''
      in '' ['' @ brown (fmt_d0 2 (ti_hour lt)) @ '':'' @ brown (fmt_d0 2 (ti_min lt)) @ '':'' @
         brown (fmt_d0 2 (ti_sec lt)) @ ''.'' @ brown (fmt_d0 3 (ti_msec lt)) @ '' '' @ brown (fmt_d0 3 (ti_usec lt)) @
         ''] [tid '' @ coloured ''1;34'' (fmt_u (pe_tid_digits E) (pe_tid_hash E)) @ ''] ['' @
         colored_lv_names ! level @ ''] '')"

definition disp_tail :: "string option \<Rightarrow> string option \<Rightarrow> nat \<Rightarrow> string" where
  "disp_tail source_file func_name line_number =
     (case (source_file, func_name) of
        (Some sf, Some fn) \<Rightarrow>
          ''['' @ coloured ''32'' (file_name_part sf) @ '':'' @ coloured ''1;31'' (show_nat line_number) @ '', '' @
          coloured ''36'' (fn @ ''()'') @ '']'' @ [CHR 0x0A]
      | _ \<Rightarrow> [CHR 0x0A])"

definition level_colour :: "nat \<Rightarrow> msg_buf \<Rightarrow> msg_buf" where
  "level_colour level =
     (if level = 0 then snprintf_macro (esc ''1;33'') else if level = 1 then snprintf_macro (esc ''1;31'') else id)"

text \<open>
  The array after the console part, which starts again on the array that held the message of the
  file, and what \<open>std::cout << msg\<close> shows of it: the bytes before the first zero.
\<close>

definition disp_array :: "put_env \<Rightarrow> nat \<Rightarrow> string option \<Rightarrow> string option \<Rightarrow> nat \<Rightarrow> string \<Rightarrow> string \<Rightarrow> string" where
  "disp_array E level source_file func_name line_number body msg =
     fst (snprintf_macro (esc ''0'')
           (snprintf_macro body
             (level_colour level
               (snprintf_macro (disp_tail source_file func_name line_number)
                 (snprintf_macro (disp_head E level) (msg, MSG_SIZE, 0))))))"

definition c_string :: "string \<Rightarrow> string" where
  "c_string msg = takeWhile (\<lambda>c. c \<noteq> CHR 0x00) msg"

subsection \<open>The array is never overrun\<close>

text \<open>Both counters stay within the array; what is written keeps its length.\<close>

definition buf_ok :: "nat \<Rightarrow> msg_buf \<Rightarrow> bool" where
  "buf_ok sz b \<longleftrightarrow> (case b of (msg, avail_len, cur_len) \<Rightarrow>
     length msg = sz \<and> avail_len \<le> sz \<and> cur_len \<le> sz)"

abbreviation msg_buf_ok :: "msg_buf \<Rightarrow> bool" where
  "msg_buf_ok \<equiv> buf_ok MSG_SIZE"

text \<open>What one append leaves in the used part of the array.\<close>

definition appended :: "nat \<Rightarrow> string \<Rightarrow> string" where
  "appended room str =
     (if length str < room then str else if room = 0 then [] else take (room - 1) str @ [CHR 0x00])"

lemma length_appended: "length (appended room str) = min (length str) room"
  by (auto simp: appended_def)

lemma length_poke: "pos + length cs \<le> length buf \<Longrightarrow> length (poke pos cs buf) = length buf"
  by (simp add: poke_def)

lemma take_poke: "pos \<le> length buf \<Longrightarrow> n \<le> length cs \<Longrightarrow> take (pos + n) (poke pos cs buf) = take pos buf @ take n cs"
  by (simp add: poke_def)

lemma snprintf_macro_append:
  assumes "buf_ok sz (msg, avail_len, cur_len)"
    "snprintf_macro str (msg, avail_len, cur_len) = (msg', avail_len', cur_len')"
  shows "buf_ok sz (msg', avail_len', cur_len') \<and> avail_len' = avail_len - cur_len \<and>
    cur_len' = cur_len + min (length str) (avail_len - cur_len) \<and>
    take cur_len' msg' = take cur_len msg @ appended (avail_len - cur_len) str"
proof (cases "cur_len < avail_len")
  case False
  then show ?thesis using assms by (auto simp: buf_ok_def appended_def)
next
  case True
  let ?cs = "take (avail_len - cur_len - 1) str @ [CHR 0x00]"
  let ?n = "min (length str) (avail_len - cur_len)"
  have n: "?n \<le> length ?cs" "cur_len + length ?cs \<le> length msg" "cur_len \<le> length msg"
    using True assms(1) by (auto simp: buf_ok_def)
  have eqs: "msg' = poke cur_len ?cs msg" "avail_len' = avail_len - cur_len" "cur_len' = cur_len + ?n"
    using assms(2) True by (auto simp: Let_def min_def split: if_splits)
  have "take ?n ?cs = appended (avail_len - cur_len) str"
  proof (cases "length str < avail_len - cur_len")
    case True
    then show ?thesis by (simp add: appended_def min_def)
  next
    case False
    then have "length ?cs = avail_len - cur_len" using True by simp
    then show ?thesis using False True by (simp add: appended_def)
  qed
  moreover have "buf_ok sz (msg', avail_len', cur_len')"
    using assms(1) True length_poke [OF n(2)] by (simp add: eqs buf_ok_def) linarith
  ultimately show ?thesis using take_poke [OF n(3) n(1)] by (simp add: eqs)
qed

lemma snprintf_macro_run:
  assumes "buf_ok sz (msg, avail_len, cur_len)"
  obtains msg' where "snprintf_macro str (msg, avail_len, cur_len) =
      (msg', avail_len - cur_len, cur_len + min (length str) (avail_len - cur_len))"
    "buf_ok sz (msg', avail_len - cur_len, cur_len + min (length str) (avail_len - cur_len))"
    "take (cur_len + min (length str) (avail_len - cur_len)) msg' = take cur_len msg @ appended (avail_len - cur_len) str"
  using snprintf_macro_append [OF assms] by (metis prod_cases3)

text \<open>The three appends of the file part: how much room each finds.\<close>

lemma put_message_parts:
  assumes "length (pe_msg E) = MSG_SIZE"
    "put_message E tzGap level source_file func_name line_number body = (msg, cur_len)"
  defines "h \<equiv> put_head E tzGap level" and "t \<equiv> put_tail source_file func_name line_number"
  defines "a \<equiv> MSG_SIZE - length (appended MSG_SIZE h)"
  defines "b \<equiv> a - (length (appended MSG_SIZE h) + length (appended a body))"
  shows "length msg = MSG_SIZE \<and> cur_len \<le> MSG_SIZE \<and>
    take cur_len msg = appended MSG_SIZE h @ appended a body @ appended b t"
proof -
  have "msg_buf_ok (pe_msg E, MSG_SIZE, 0)" using assms(1) by (simp add: buf_ok_def)
  then obtain m1 where m1: "snprintf_macro h (pe_msg E, MSG_SIZE, 0) = (m1, MSG_SIZE, length (appended MSG_SIZE h))"
      "msg_buf_ok (m1, MSG_SIZE, length (appended MSG_SIZE h))" "take (length (appended MSG_SIZE h)) m1 = appended MSG_SIZE h"
    by (rule snprintf_macro_run [where str = h]) (simp add: length_appended)
  obtain m2 where m2: "snprintf_macro body (m1, MSG_SIZE, length (appended MSG_SIZE h)) =
        (m2, a, length (appended MSG_SIZE h) + length (appended a body))"
      "msg_buf_ok (m2, a, length (appended MSG_SIZE h) + length (appended a body))"
      "take (length (appended MSG_SIZE h) + length (appended a body)) m2 = appended MSG_SIZE h @ appended a body"
    using snprintf_macro_run [OF m1(2), of body] unfolding a_def length_appended m1(3) [unfolded length_appended] by metis
  obtain m3 n where m3: "snprintf_macro t (m2, a, length (appended MSG_SIZE h) + length (appended a body)) = (m3, b, n)"
      "msg_buf_ok (m3, b, n)" "take n m3 = (appended MSG_SIZE h @ appended a body) @ appended b t"
    using snprintf_macro_run [OF m2(2), of t] m2(3) unfolding b_def by metis
  have "msg = m3" "cur_len = n" using assms(2) m1(1) m2(1) m3(1) by (simp_all add: put_message_def h_def t_def)
  then show ?thesis using m3(2,3) by (simp add: buf_ok_def)
qed

text \<open>
  C18. The line that \<open>put\<close> stores never overruns its array of 4096 bytes and does not depend on what
  the array held before. It is the head, the caller's text and the source location, complete and
  in this order, whenever these leave as many bytes free as the head takes; the head's length is
  counted twice because \<open>_snprintf\<close> subtracts the running total each time.
\<close>

theorem put_message_text:
  assumes "length (pe_msg E) = MSG_SIZE"
    "put_message E tzGap level source_file func_name line_number body = (msg, cur_len)"
  shows "length msg = MSG_SIZE \<and> cur_len \<le> MSG_SIZE \<and>
    (length g = MSG_SIZE \<longrightarrow>
      (case put_message (E\<lparr>pe_msg := g\<rparr>) tzGap level source_file func_name line_number body of
         (msg', cur_len') \<Rightarrow> take cur_len' msg' = take cur_len msg)) \<and>
    (2 * length (put_head E tzGap level) + length body + length (put_tail source_file func_name line_number) < MSG_SIZE \<longrightarrow>
      take cur_len msg = put_head E tzGap level @ body @ put_tail source_file func_name line_number)"
proof -
  have head: "put_head (E\<lparr>pe_msg := g\<rparr>) = put_head E" by (intro ext) (simp add: put_head_def)
  obtain msg' cur_len' where
    r: "put_message (E\<lparr>pe_msg := g\<rparr>) tzGap level source_file func_name line_number body = (msg', cur_len')"
    by (cases "put_message (E\<lparr>pe_msg := g\<rparr>) tzGap level source_file func_name line_number body")
  note parts = put_message_parts [OF assms]
  have "length g = MSG_SIZE \<Longrightarrow> take cur_len' msg' = take cur_len msg"
    using put_message_parts [OF _ r] parts by (simp add: head)
  moreover have "take cur_len msg = put_head E tzGap level @ body @ put_tail source_file func_name line_number"
    if "2 * length (put_head E tzGap level) + length body + length (put_tail source_file func_name line_number) < MSG_SIZE"
  proof -
    have "appended MSG_SIZE (put_head E tzGap level) = put_head E tzGap level"
      "appended (MSG_SIZE - length (put_head E tzGap level)) body = body"
      "appended (MSG_SIZE - length (put_head E tzGap level) - (length (put_head E tzGap level) + length body))
        (put_tail source_file func_name line_number) = put_tail source_file func_name line_number"
      using that by (auto simp: appended_def)
    then show ?thesis using parts by simp
  qed
  ultimately show ?thesis using parts by (simp add: r)
qed

text \<open>A message of the leader at noon, of a source file with a path.\<close>

definition demo_env :: put_env where
  "demo_env = \<lparr>pe_lt = \<lparr>ti_year = 2023, ti_month = 4, ti_day = 5, ti_hour = 12, ti_min = 0, ti_sec = 9, ti_msec = 7, ti_usec = 31\<rparr>,
     pe_tid_digits = 6, pe_tid_hash = 17, pe_msg = replicate MSG_SIZE (CHR ''x'')\<rparr>"

lemma demo_fmt:
  "fmt_d0 4 2023 = ''2023''" "fmt_d0 2 4 = ''04''" "fmt_d0 2 5 = ''05''" "fmt_d0 2 12 = ''12''" "fmt_d0 2 0 = ''00''"
  "fmt_d0 2 9 = ''09''" "fmt_d0 3 7 = ''007''" "fmt_d0 3 31 = ''031''" "fmt_u 6 17 = ''    17''"
  by code_simp+

lemma demo_head: "put_head demo_env (- 300) 4 = ''2023-04-05T12:00:09.007_031-05:00 [    17] [INFO] ''"
  by (simp add: put_head_def demo_env_def lv_names_def demo_fmt)

lemma demo_tail: "put_tail (Some ''src/server/replica.cpp'') (Some ''init'') 75 =
    CHR 0x09 # ''[replica.cpp:75, init()]'' @ [CHR 0x0A]"
  by code_simp

theorem put_message_text_witness:
  "case put_message demo_env (- 300) 4 (Some ''src/server/replica.cpp'') (Some ''init'') 75 ''ready'' of
     (msg, cur_len) \<Rightarrow> length msg = MSG_SIZE \<and>
       take cur_len msg = ''2023-04-05T12:00:09.007_031-05:00 [    17] [INFO] ready'' @
         CHR 0x09 # ''[replica.cpp:75, init()]'' @ [CHR 0x0A]"
proof -
  have l: "length (pe_msg demo_env) = MSG_SIZE" by (simp add: demo_env_def)
  obtain msg cur_len where r: "put_message demo_env (- 300) 4 (Some ''src/server/replica.cpp'') (Some ''init'') 75 ''ready'' =
      (msg, cur_len)" by (cases "put_message demo_env (- 300) 4 (Some ''src/server/replica.cpp'') (Some ''init'') 75 ''ready''")
  show ?thesis using put_message_text [OF l r] by (simp add: r demo_head demo_tail MSG_SIZE_def)
qed

text \<open>The console text is a C string inside the array.\<close>

declare snprintf_macro.simps [simp del]

lemma snprintf_macro_terminated:
  assumes "buf_ok sz b" "CHR 0x00 \<in> set (fst b) \<or> snd (snd b) < fst (snd b)"
  shows "buf_ok sz (snprintf_macro str b) \<and> CHR 0x00 \<in> set (fst (snprintf_macro str b))"
proof -
  obtain msg avail_len cur_len where b: "b = (msg, avail_len, cur_len)" by (cases b)
  obtain m a c where r: "snprintf_macro str (msg, avail_len, cur_len) = (m, a, c)" by (metis prod_cases3)
  have "CHR 0x00 \<in> set m"
  proof (cases "cur_len < avail_len")
    case True
    then have "m = poke cur_len (take (avail_len - cur_len - 1) str @ [CHR 0x00]) msg" using r by (auto simp: Let_def snprintf_macro.simps)
    then show ?thesis by (simp add: poke_def)
  next
    case False
    then show ?thesis using r assms(2) by (auto simp: b snprintf_macro.simps)
  qed
  moreover have "buf_ok sz (m, a, c)" using snprintf_macro_append [OF assms(1) [unfolded b] r] by blast
  ultimately show ?thesis by (simp only: b r fst_conv simp_thms)
qed

lemma c_string_less: "CHR 0x00 \<in> set xs \<Longrightarrow> length (c_string xs) < length xs"
  by (induction xs) (auto simp: c_string_def)

lemma disp_array_terminated:
  assumes "length msg = MSG_SIZE"
  shows "length (disp_array E level source_file func_name line_number body msg) = MSG_SIZE \<and>
    length (c_string (disp_array E level source_file func_name line_number body msg)) < MSG_SIZE"
proof -
  let ?ok = "\<lambda>b. msg_buf_ok b \<and> CHR 0x00 \<in> set (fst b)"
  have step: "?ok b \<Longrightarrow> ?ok (snprintf_macro str b)" for b str using snprintf_macro_terminated [of MSG_SIZE b str] by blast
  have colour: "?ok b \<Longrightarrow> ?ok (level_colour level b)" for b
    using step [of b "esc ''1;33''"] step [of b "esc ''1;31''"] by (auto simp: level_colour_def)
  have "?ok (snprintf_macro (disp_head E level) (msg, MSG_SIZE, 0))"
    using assms by (intro snprintf_macro_terminated) (simp_all add: buf_ok_def MSG_SIZE_def)
  then have "?ok (level_colour level (snprintf_macro (disp_tail source_file func_name line_number)
      (snprintf_macro (disp_head E level) (msg, MSG_SIZE, 0))))"
    using step [of _ "disp_tail source_file func_name line_number"] colour by blast
  then have "?ok (snprintf_macro (esc ''0'') (snprintf_macro body (level_colour level
      (snprintf_macro (disp_tail source_file func_name line_number) (snprintf_macro (disp_head E level) (msg, MSG_SIZE, 0))))))"
    using step by blast
  then have d: "length (disp_array E level source_file func_name line_number body msg) = MSG_SIZE"
      "CHR 0x00 \<in> set (disp_array E level source_file func_name line_number body msg)"
    unfolding disp_array_def by (auto simp: buf_ok_def split: prod.splits)
  show ?thesis using c_string_less [OF d(2)] d(1) by simp
qed

end
