(* ===== verification/Logger.thy ===== *)
theory Logger
  imports Logger_Format "HOL-Library.Sublist"
begin

section \<open>The Raft logger\<close>

text \<open>
  \<open>SimpleLogger\<close> (\<open>logger.h\<close>, \<open>logger.cpp\<close>): a ring of message slots, the log file and its
  revisions, and the part of \<open>SimpleLoggerMgr\<close> that a logger talks to. This theory is about calls
  that run one after the other; the threads that share the ring are in \<open>Logger_Steps\<close>.

  The world around a logger is the directory (file contents by path, and which paths can be
  opened), the console and the manager. Buffering inside \<open>std::ofstream\<close> is not visible, because
  \<open>flush\<close> ends with \<open>fs.flush()\<close>.
\<close>

subsection \<open>\<open>LogElem\<close>\<close>

datatype log_status = CLEAN | WRITING | DIRTY | FLUSHING

record log_elem =
  le_len :: nat
  le_ctx :: string
  le_status :: log_status

definition log_elem_new :: log_elem where
  "log_elem_new = \<lparr>le_len = 0, le_ctx = replicate MSG_SIZE (CHR 0x00), le_status = CLEAN\<rparr>"

definition needToFlush :: "log_elem \<Rightarrow> bool" where
  "needToFlush e \<longleftrightarrow> le_status e = DIRTY"

definition available :: "log_elem \<Rightarrow> bool" where
  "available e \<longleftrightarrow> le_status e = CLEAN \<or> le_status e = DIRTY"

definition le_write :: "nat \<Rightarrow> string \<Rightarrow> log_elem \<Rightarrow> int \<times> log_elem" where
  "le_write l msg e =
     (if le_status e \<noteq> CLEAN then (- 1, e)
      else let n = (if l > MSG_SIZE then MSG_SIZE else l)
           in (0, e\<lparr>le_len := n, le_ctx := poke 0 (take n msg) (le_ctx e), le_status := DIRTY\<rparr>))"

subsection \<open>The world of a logger\<close>

text \<open>
  The manager's part: the registered loggers (by address, in the iteration order of the set), the
  files waiting for compression, and the critical information.
\<close>

record logger_mgr =
  mg_loggers :: "nat list"
  mg_pendingCompElems :: "(u64 \<times> nat) list"
  mg_globalCriticalInfo :: string
  mg_crashDumpPath :: string
  mg_crashDumpOriginOnly :: bool

definition logger_mgr_new :: logger_mgr where
  "logger_mgr_new = \<lparr>mg_loggers = [], mg_pendingCompElems = [], mg_globalCriticalInfo = [],
     mg_crashDumpPath = [], mg_crashDumpOriginOnly = True\<rparr>"

record log_world =
  lw_files :: "string \<Rightarrow> string option"
  lw_openable :: "string \<Rightarrow> bool"
  lw_console :: "string list"
  lw_mgr :: "logger_mgr option"

text \<open>
  An output stream: the open file, whether \<open>!fs\<close> holds, and the position that \<open>tellp\<close> reports. A file
  opened to append is written at its end, and the position follows the first write.
\<close>

record ofstream =
  fs_path :: "string option"
  fs_failed :: bool
  fs_pos :: nat

definition ofstream_new :: ofstream where
  "ofstream_new = \<lparr>fs_path = None, fs_failed = False, fs_pos = 0\<rparr>"

definition fs_open :: "string \<Rightarrow> ofstream \<Rightarrow> log_world \<Rightarrow> ofstream \<times> log_world" where
  "fs_open p fs w =
     (if fs_path fs \<noteq> None then (fs\<lparr>fs_failed := True\<rparr>, w)
      else if lw_openable w p
      then (\<lparr>fs_path = Some p, fs_failed = False, fs_pos = 0\<rparr>,
            w\<lparr>lw_files := (lw_files w)(p := Some (case lw_files w p of None \<Rightarrow> [] | Some c \<Rightarrow> c))\<rparr>)
      else (fs\<lparr>fs_failed := True\<rparr>, w))"

definition fs_close :: "ofstream \<Rightarrow> ofstream" where
  "fs_close fs = (if fs_path fs = None then fs\<lparr>fs_failed := True\<rparr> else fs\<lparr>fs_path := None\<rparr>)"

definition fs_write :: "string \<Rightarrow> ofstream \<Rightarrow> log_world \<Rightarrow> ofstream \<times> log_world" where
  "fs_write s fs w =
     (if fs_failed fs \<or> s = [] then (fs, w)
      else case fs_path fs of
        None \<Rightarrow> (fs\<lparr>fs_failed := True\<rparr>, w)
      | Some p \<Rightarrow>
          (case lw_files w p of
             None \<Rightarrow> (fs\<lparr>fs_pos := fs_pos fs + length s\<rparr>, w)
           | Some c \<Rightarrow> (fs\<lparr>fs_pos := length c + length s\<rparr>, w\<lparr>lw_files := (lw_files w)(p \<mapsto> c @ s)\<rparr>)))"

definition fs_tellp :: "ofstream \<Rightarrow> int" where
  "fs_tellp fs = (if fs_failed fs \<or> fs_path fs = None then - 1 else int (fs_pos fs))"

definition le_flush :: "log_elem \<Rightarrow> ofstream \<Rightarrow> log_world \<Rightarrow> int \<times> log_elem \<times> ofstream \<times> log_world" where
  "le_flush e fs w =
     (if le_status e \<noteq> DIRTY then (- 1, e, fs, w)
      else case fs_write (take (le_len e) (le_ctx e)) fs w of
        (fs', w') \<Rightarrow> (0, e\<lparr>le_status := CLEAN\<rparr>, fs', w'))"

subsection \<open>\<open>SimpleLogger\<close>\<close>

record simple_logger =
  sl_filePath :: string
  sl_minRevnum :: u64
  sl_curRevnum :: u64
  sl_maxLogFiles :: u64
  sl_fs :: ofstream
  sl_maxLogFileSize :: u64
  sl_numCompJobs :: u32
  sl_curLogLevel :: int
  sl_curDispLevel :: int
  sl_tzGap :: int
  sl_cursor :: nat
  sl_logs :: "log_elem list"
  sl_flushingLogs :: bool

type_synonym log_st = "simple_logger \<times> log_world"

text \<open>
  How a call may go wrong: \<open>% num\<close> with an empty ring, a level that has no name, a log line with a
  conversion that has no argument, and a wait for another thread that never ends in a run of its own.
\<close>

datatype log_error = Empty_ring | Bad_level | Bad_format | Spins

text \<open>
  \<open>replaceString\<close>: \<open>None\<close> is a loop that does not end. \<open>find_str\<close> is \<open>src_str.find(before, last)\<close>,
  as the part of \<open>src_str\<close> from \<open>last\<close> up to the match and the part after the match.
\<close>

fun find_str :: "string \<Rightarrow> string \<Rightarrow> (string \<times> string) option" where
  "find_str before s =
     (if prefix before s then Some ([], drop (length before) s)
      else case s of
        [] \<Rightarrow> None
      | c # cs \<Rightarrow> (case find_str before cs of None \<Rightarrow> None | Some (l, r) \<Rightarrow> Some (c # l, r)))"

declare find_str.simps [simp del]

partial_function (option) replace_loop :: "string \<Rightarrow> string \<Rightarrow> string \<Rightarrow> string \<Rightarrow> string option" where
  "replace_loop before aft ret rest =
     (case find_str before rest of
        None \<Rightarrow> Some (ret @ rest)
      | Some (l, r) \<Rightarrow> replace_loop before aft (ret @ l @ aft) r)"

definition replaceString :: "string \<Rightarrow> string \<Rightarrow> string \<Rightarrow> string option" where
  "replaceString src_str before aft = replace_loop before aft [] src_str"

subsection \<open>Revision numbers\<close>

text \<open>\<open>rfind\<close> of a character, and \<open>atoi\<close> of the C library: \<open>strtol\<close>, which saturates, cut to an \<open>int\<close>.\<close>

fun rfind :: "char \<Rightarrow> string \<Rightarrow> nat option" where
  "rfind c [] = None"
| "rfind c (x # xs) = (case rfind c xs of Some i \<Rightarrow> Some (Suc i) | None \<Rightarrow> if x = c then Some 0 else None)"

definition atoi :: "string \<Rightarrow> int" where
  "atoi s =
     (let s = dropWhile is_space s;
          neg = (case s of c # _ \<Rightarrow> c = CHR ''-'' | [] \<Rightarrow> False);
          s = (case s of c # r \<Rightarrow> if c = CHR ''-'' \<or> c = CHR ''+'' then r else s | [] \<Rightarrow> s);
          v = digits_val (takeWhile is_digit s);
          l = max (- (2 ^ 63)) (min (2 ^ 63 - 1) (if neg then - int v else int v))
      in signed_take_bit 31 l)"

text \<open>The variables of the scan: \<open>min_revnum_initialized\<close>, \<open>min_revnum\<close>, \<open>max_revnum\<close>.\<close>

type_synonym revs = "bool \<times> u64 \<times> u64"

definition note_revnum :: "bool \<Rightarrow> string \<Rightarrow> revs \<Rightarrow> revs" where
  "note_revnum comp_file ext = (\<lambda>(min_revnum_initialized, min_revnum, max_revnum).
     let revnum = word_of_int (atoi ext);
         max_revnum = max max_revnum (if comp_file then revnum + 1 else revnum);
         min_revnum = (if \<not> min_revnum_initialized then revnum else min_revnum)
     in (True, min min_revnum revnum, max_revnum))"

definition findMinMaxRevNumInternal :: "string \<Rightarrow> revs \<Rightarrow> revs" where
  "findMinMaxRevNumInternal f_name rs =
     (case rfind (CHR ''.'') f_name of
        None \<Rightarrow> rs
      | Some last_dot \<Rightarrow>
          (let ext = drop (last_dot + 1) f_name
           in if ext = ''gz'' \<and> length f_name > 7
              then let f_name = take (length f_name - 7) f_name
                   in case rfind (CHR ''.'') f_name of
                        None \<Rightarrow> rs
                      | Some last_dot \<Rightarrow> note_revnum True (drop (last_dot + 1) f_name) rs
              else note_revnum False ext rs))"

definition split_path :: "string \<Rightarrow> string \<times> string" where
  "split_path filePath =
     (case rfind (CHR ''/'') filePath of
        None \<Rightarrow> (''./'', filePath)
      | Some last_pos \<Rightarrow> (take last_pos filePath, drop (last_pos + 1) filePath))"

text \<open>The loop over the directory, whose entries are an argument; a directory that cannot be opened has none.\<close>

fun rev_loop :: "string \<Rightarrow> string list \<Rightarrow> revs \<Rightarrow> revs" where
  "rev_loop file_name_only [] rs = rs"
| "rev_loop file_name_only (f_name # fs) rs =
     rev_loop file_name_only fs (if sublist file_name_only f_name then findMinMaxRevNumInternal f_name rs else rs)"

definition findMinMaxRevNum :: "(string \<Rightarrow> string list option) \<Rightarrow> string \<Rightarrow> u64 \<times> u64" where
  "findMinMaxRevNum readdir filePath =
     (case split_path filePath of (dir_path, file_name_only) \<Rightarrow>
        (case rev_loop file_name_only (case readdir dir_path of None \<Rightarrow> [] | Some fs \<Rightarrow> fs) (False, 0, 0) of
           (_, min_revnum, max_revnum) \<Rightarrow> (min_revnum, max_revnum)))"

definition getLogFilePath :: "simple_logger \<Rightarrow> u64 \<Rightarrow> string" where
  "getLogFilePath lg file_num =
     (if file_num \<noteq> 0 then sl_filePath lg @ ''.'' @ show_nat (unat file_num) else sl_filePath lg)"

subsection \<open>Construction and levels\<close>

text \<open>
  The constructor. \<open>std::vector\<close> throws \<open>length_error\<close> beyond the number of 4112-byte elements that
  the address space can hold. A path whose replacement did not end would be \<open>None\<close>.
\<close>

definition simple_logger_new :: "(string \<Rightarrow> string list option) \<Rightarrow> int \<Rightarrow> string \<Rightarrow> u64 \<Rightarrow> u64 \<Rightarrow> u32 \<Rightarrow> simple_logger res option" where
  "simple_logger_new readdir tz file_path max_log_elems log_file_size_limit max_log_files =
     (case replaceString file_path ''//'' ''/'' of
        None \<Rightarrow> None
      | Some path \<Rightarrow>
          (if unat max_log_elems > 9223372036854775807 div 4112 then Some (Inl Length_error)
           else case findMinMaxRevNum readdir path of (min_revnum, cur_revnum) \<Rightarrow>
             Some (Inr \<lparr>sl_filePath = path, sl_minRevnum = min_revnum, sl_curRevnum = cur_revnum,
               sl_maxLogFiles = ucast max_log_files, sl_fs = ofstream_new, sl_maxLogFileSize = log_file_size_limit,
               sl_numCompJobs = 0, sl_curLogLevel = 4, sl_curDispLevel = 4, sl_tzGap = tz, sl_cursor = 0,
               sl_logs = replicate (unat max_log_elems) log_elem_new, sl_flushingLogs = False\<rparr>)))"

definition setLogLevel :: "int \<Rightarrow> simple_logger \<Rightarrow> simple_logger" where
  "setLogLevel level lg =
     (if level > 6 then lg else if fs_failed (sl_fs lg) then lg else lg\<lparr>sl_curLogLevel := level\<rparr>)"

definition setDispLevel :: "int \<Rightarrow> simple_logger \<Rightarrow> simple_logger" where
  "setDispLevel level lg = (if level > 6 then lg else lg\<lparr>sl_curDispLevel := level\<rparr>)"

definition setMaxLogFiles :: "u64 \<Rightarrow> simple_logger \<Rightarrow> simple_logger" where
  "setMaxLogFiles max_log_files lg = (if max_log_files = 0 then lg else lg\<lparr>sl_maxLogFiles := max_log_files\<rparr>)"

subsection \<open>The manager's queue\<close>

text \<open>\<open>SimpleLoggerMgr::get\<close> creates the manager when there is none.\<close>

definition get_mgr :: "log_world \<Rightarrow> logger_mgr \<times> log_world" where
  "get_mgr w = (case lw_mgr w of Some m \<Rightarrow> (m, w) | None \<Rightarrow> (logger_mgr_new, w\<lparr>lw_mgr := Some logger_mgr_new\<rparr>))"

definition addLogger :: "nat \<Rightarrow> logger_mgr \<Rightarrow> logger_mgr" where
  "addLogger this m = m\<lparr>mg_loggers := List.insert this (mg_loggers m)\<rparr>"

definition removeLogger :: "nat \<Rightarrow> logger_mgr \<Rightarrow> logger_mgr" where
  "removeLogger this m = m\<lparr>mg_loggers := filter (\<lambda>l. l \<noteq> this) (mg_loggers m)\<rparr>"

definition addCompElem :: "u64 \<times> nat \<Rightarrow> logger_mgr \<Rightarrow> logger_mgr" where
  "addCompElem elem m = m\<lparr>mg_pendingCompElems := mg_pendingCompElems m @ [elem]\<rparr>"

definition setCriticalInfo :: "string \<Rightarrow> log_world \<Rightarrow> log_world" where
  "setCriticalInfo info_str w = (case get_mgr w of (m, w') \<Rightarrow> w'\<lparr>lw_mgr := Some (m\<lparr>mg_globalCriticalInfo := info_str\<rparr>)\<rparr>)"

definition setCrashDumpPath :: "string \<Rightarrow> bool \<Rightarrow> log_world \<Rightarrow> log_world" where
  "setCrashDumpPath path origin_only w = (case get_mgr w of (m, w') \<Rightarrow>
     w'\<lparr>lw_mgr := Some (m\<lparr>mg_crashDumpPath := path, mg_crashDumpOriginOnly := origin_only\<rparr>)\<rparr>)"

subsection \<open>Flushing\<close>

text \<open>One slot after the other, into the file.\<close>

fun flush_elems :: "nat list \<Rightarrow> log_st \<Rightarrow> log_st" where
  "flush_elems [] st = st"
| "flush_elems (ii # iis) (lg, w) =
     (case le_flush (sl_logs lg ! ii) (sl_fs lg) w of
        (_, e', fs', w') \<Rightarrow> flush_elems iis (lg\<lparr>sl_logs := (sl_logs lg)[ii := e'], sl_fs := fs'\<rparr>, w'))"

text \<open>The change to a new file once the limit is exceeded.\<close>

definition new_revision :: "nat \<Rightarrow> log_st \<Rightarrow> log_st" where
  "new_revision this = (\<lambda>(lg, w).
     if sl_maxLogFileSize lg \<noteq> 0 \<and> fs_tellp (sl_fs lg) > sint (sl_maxLogFileSize lg) then
       let lg = lg\<lparr>sl_curRevnum := sl_curRevnum lg + 1\<rparr>
       in case fs_open (getLogFilePath lg (sl_curRevnum lg)) (fs_close (sl_fs lg)) w of
            (fs, w) \<Rightarrow>
              (case lw_mgr w of
                 None \<Rightarrow> (lg\<lparr>sl_fs := fs\<rparr>, w)
               | Some m \<Rightarrow>
                   (lg\<lparr>sl_fs := fs, sl_numCompJobs := sl_numCompJobs lg + 1\<rparr>,
                    w\<lparr>lw_mgr := Some (addCompElem (sl_curRevnum lg - 1, this) m)\<rparr>))
     else (lg, w))"

definition flush :: "nat \<Rightarrow> nat \<Rightarrow> log_st \<Rightarrow> bool \<times> log_st" where
  "flush this start_pos st =
     (if sl_flushingLogs (fst st) then (False, st)
      else (True, new_revision this
             (flush_elems ([start_pos ..< length (sl_logs (fst st))] @ [0 ..< start_pos]) st)))"

definition flushAll :: "nat \<Rightarrow> log_st \<Rightarrow> log_st" where
  "flushAll this st = snd (flush this (sl_cursor (fst st)) st)"

subsection \<open>Putting a message\<close>

text \<open>
  The ring part of \<open>put\<close>: take the slot at the cursor and move the cursor on, wait until nobody
  works on the slot, make room by a flush if it still holds a message, and store. The result of
  \<open>write\<close> is not looked at.
\<close>

definition put_ring :: "nat \<Rightarrow> string \<Rightarrow> nat \<Rightarrow> log_st \<Rightarrow> log_error + log_st" where
  "put_ring this msg cur_len = (\<lambda>(lg, w).
     let num = length (sl_logs lg); cursor_exp = sl_cursor lg
     in if num = 0 then Inl Empty_ring
        else if \<not> available (sl_logs lg ! cursor_exp) then Inl Spins
        else
          let lg = lg\<lparr>sl_cursor := (cursor_exp + 1) mod num\<rparr>;
              (flushed, lg, w) = (if needToFlush (sl_logs lg ! cursor_exp) then flush this cursor_exp (lg, w) else (True, lg, w))
          in if \<not> flushed then Inl Spins
             else Inr (lg\<lparr>sl_logs := (sl_logs lg)[cursor_exp := snd (le_write cur_len msg (sl_logs lg ! cursor_exp))]\<rparr>, w))"

definition put :: "put_env \<Rightarrow> nat \<Rightarrow> int \<Rightarrow> string option \<Rightarrow> string option \<Rightarrow> nat \<Rightarrow> string \<Rightarrow> log_st \<Rightarrow> log_error + log_st" where
  "put E this level source_file func_name line_number body st =
     (if level > sl_curLogLevel (fst st) then Inr st
      else if fs_failed (sl_fs (fst st)) then Inr st
      else if level < 0 \<or> level > 6 then Inl Bad_level
      else case put_message E (sl_tzGap (fst st)) (nat level) source_file func_name line_number body of
        (msg, cur_len) \<Rightarrow>
          (case put_ring this msg cur_len st of
             Inl e \<Rightarrow> Inl e
           | Inr (lg, w) \<Rightarrow>
               (if level > sl_curDispLevel lg then Inr (lg, w)
                else Inr (lg, w\<lparr>lw_console := lw_console w @
                  [c_string (disp_array E (nat level) source_file func_name line_number body msg)]\<rparr>))))"

text \<open>
  \<open>put_details\<close>, which NuRaft calls: the line is passed as the format, so \<open>%%\<close> becomes \<open>%\<close> and any
  other conversion reads an argument that is not there.
\<close>

fun format_only :: "string \<Rightarrow> string option" where
  "format_only [] = Some []"
| "format_only (c # cs) =
     (if c \<noteq> CHR ''%'' then map_option ((#) c) (format_only cs)
      else case cs of
        [] \<Rightarrow> None
      | d # ds \<Rightarrow> if d = CHR ''%'' then map_option ((#) (CHR ''%'')) (format_only ds) else None)"

definition put_details :: "put_env \<Rightarrow> nat \<Rightarrow> int \<Rightarrow> string \<Rightarrow> string \<Rightarrow> nat \<Rightarrow> string \<Rightarrow> log_st \<Rightarrow> log_error + log_st" where
  "put_details E this level source_file func_name line_number log_line st =
     (if level > sl_curLogLevel (fst st) then Inr st
      else if fs_failed (sl_fs (fst st)) then Inr st
      else case format_only (c_string log_line) of
        None \<Rightarrow> Inl Bad_format
      | Some body \<Rightarrow> put E this level (Some source_file) (Some func_name) line_number body st)"

text \<open>The macro \<open>_log_\<close>; its source position is an argument.\<close>

definition log_macro :: "put_env \<Rightarrow> nat \<Rightarrow> int \<Rightarrow> string \<Rightarrow> string \<Rightarrow> nat \<Rightarrow> string \<Rightarrow> log_st \<Rightarrow> log_error + log_st" where
  "log_macro E this level file func line body st =
     (if sl_curLogLevel (fst st) \<ge> level then put E this level (Some file) (Some func) line body st else Inr st)"

text \<open>
  \<open>LoggerStream\<close> and the macro \<open>_stream_\<close>: the pieces of a line are collected in the stream of the
  thread, and the assignment to \<open>eos()\<close> puts it.
\<close>

record logger_stream =
  ls_sStream :: string
  ls_level :: int
  ls_file :: string
  ls_func :: string
  ls_line :: nat

definition setLogInfo :: "int \<Rightarrow> string \<Rightarrow> string \<Rightarrow> nat \<Rightarrow> logger_stream \<Rightarrow> logger_stream" where
  "setLogInfo level file func line ls = ls\<lparr>ls_sStream := [], ls_level := level, ls_file := file, ls_func := func, ls_line := line\<rparr>"

definition stream_write :: "string \<Rightarrow> logger_stream \<Rightarrow> logger_stream" where
  "stream_write data ls = ls\<lparr>ls_sStream := ls_sStream ls @ data\<rparr>"

definition stream_put :: "put_env \<Rightarrow> nat \<Rightarrow> logger_stream \<Rightarrow> log_st \<Rightarrow> log_error + log_st" where
  "stream_put E this ls =
     put E this (ls_level ls) (Some (ls_file ls)) (Some (ls_func ls)) (ls_line ls) (c_string (ls_sStream ls))"

text \<open>\<open>stream\<close> prepares the stream of the thread, and assigning a stream to \<open>eos()\<close> puts it.\<close>

definition stream_of :: "int \<Rightarrow> string \<Rightarrow> string \<Rightarrow> nat \<Rightarrow> logger_stream \<Rightarrow> logger_stream" where
  "stream_of level file func line msg = setLogInfo level file func line msg"

definition eos_assign :: "put_env \<Rightarrow> nat \<Rightarrow> logger_stream \<Rightarrow> log_st \<Rightarrow> log_error + log_st" where
  "eos_assign E this src = stream_put E this src"

definition log_stream :: "put_env \<Rightarrow> nat \<Rightarrow> int \<Rightarrow> string \<Rightarrow> string \<Rightarrow> nat \<Rightarrow> string list \<Rightarrow>
    logger_stream \<times> log_st \<Rightarrow> logger_stream \<times> (log_error + log_st)" where
  "log_stream E this level file func line pieces = (\<lambda>(ls, st).
     if sl_curLogLevel (fst st) \<ge> level
     then let ls = fold stream_write pieces (stream_of level file func line ls) in (ls, eos_assign E this ls st)
     else (ls, Inr st))"

lemma fold_stream_write: "fold stream_write pieces ls = ls\<lparr>ls_sStream := ls_sStream ls @ concat pieces\<rparr>"
  by (induction pieces arbitrary: ls) (simp_all add: stream_write_def)

text \<open>Whatever the stream held, the line is the pieces one after the other, as the other macro would put them.\<close>

lemma log_stream_macro:
  "snd (log_stream E this level file func line pieces (ls, st)) = log_macro E this level file func line (c_string (concat pieces)) st"
  by (simp add: log_stream_def log_macro_def fold_stream_write stream_put_def setLogInfo_def stream_of_def eos_assign_def Let_def)

subsection \<open>Start and stop\<close>

text \<open>\<open>lines\<close> are the two positions of the messages in the file \<open>file\<close>.\<close>

definition start_text :: "simple_logger \<Rightarrow> string" where
  "start_text lg = ''Start logger: '' @ sl_filePath lg @ '' ('' @
     show_nat (unat (sl_maxLogFileSize lg div 1024 div 1024)) @ '' MB per file, up to '' @
     show_nat (unat (sl_maxLogFiles lg)) @ '' files)''"

definition start :: "put_env \<Rightarrow> string \<Rightarrow> nat \<times> nat \<Rightarrow> nat \<Rightarrow> log_st \<Rightarrow> log_error + int \<times> log_st" where
  "start E file lines this = (\<lambda>(lg, w).
     if sl_filePath lg = [] then Inr (0, lg, w)
     else case fs_open (getLogFilePath lg (sl_curRevnum lg)) (sl_fs lg) w of
       (fs, w) \<Rightarrow>
         let lg = lg\<lparr>sl_fs := fs\<rparr>
         in if fs_failed fs then Inr (- 1, lg, w)
            else case get_mgr w of
              (m, w) \<Rightarrow>
                let w = w\<lparr>lw_mgr := Some (addLogger this m)\<rparr>
                in case log_macro E this 0 file ''start'' (fst lines) (start_text lg) (lg, w) of
                     Inl e \<Rightarrow> Inl e
                   | Inr st \<Rightarrow>
                       (if mg_globalCriticalInfo m = [] then Inr (0, st)
                        else case log_macro E this 4 file ''start'' (snd lines) (mg_globalCriticalInfo m) st of
                          Inl e \<Rightarrow> Inl e
                        | Inr st \<Rightarrow> Inr (0, st)))"

definition stop :: "put_env \<Rightarrow> string \<Rightarrow> nat \<Rightarrow> nat \<Rightarrow> log_st \<Rightarrow> log_error + int \<times> log_st" where
  "stop E file line this = (\<lambda>(lg, w).
     if fs_path (sl_fs lg) = None then Inr (0, lg, w)
     else case lw_mgr w of
       None \<Rightarrow> Inr (0, lg, w)
     | Some m \<Rightarrow>
         (case log_macro E this 0 file ''stop'' line (''Stop logger: '' @ sl_filePath lg)
                (lg, w\<lparr>lw_mgr := Some (removeLogger this m)\<rparr>) of
            Inl e \<Rightarrow> Inl e
          | Inr st \<Rightarrow>
              (case flushAll this st of
                 (lg, w) \<Rightarrow>
                   let lg = lg\<lparr>sl_fs := fs_close (sl_fs lg)\<rparr>
                   in if sl_numCompJobs lg > 0 then Inl Spins else Inr (0, lg, w))))"

definition logger_destroy :: "put_env \<Rightarrow> string \<Rightarrow> nat \<Rightarrow> nat \<Rightarrow> log_st \<Rightarrow> log_error + int \<times> log_st" where
  "logger_destroy E file line this st = stop E file line this (flushAll this st)"

subsection \<open>Compression of old files\<close>

text \<open>
  \<open>system\<close> is an argument: the files after a command. \<open>rm_loop\<close> is the loop over the revisions that
  are too old, with the counter \<open>ii\<close> and the number of rounds left.
\<close>

type_synonym shell = "string \<Rightarrow> (string \<Rightarrow> string option) \<Rightarrow> (string \<Rightarrow> string option)"

definition execCmd :: "shell \<Rightarrow> string \<Rightarrow> log_world \<Rightarrow> log_world" where
  "execCmd system cmd w = w\<lparr>lw_files := system (cmd @ '' > /dev/null'') (lw_files w)\<rparr>"

fun rm_loop :: "shell \<Rightarrow> nat \<Rightarrow> u64 \<Rightarrow> log_st \<Rightarrow> log_st" where
  "rm_loop system 0 ii st = st"
| "rm_loop system (Suc n) ii (lg, w) =
     (let filename = getLogFilePath lg ii; filename_tar = getLogFilePath lg ii @ ''.tar.gz''
      in rm_loop system n (ii + 1)
           (lg\<lparr>sl_minRevnum := ii + 1\<rparr>, execCmd system (''rm -f '' @ filename @ '' '' @ filename_tar) w))"

definition doCompression :: "shell \<Rightarrow> u64 \<Rightarrow> log_st \<Rightarrow> log_st" where
  "doCompression system file_num = (\<lambda>(lg, w).
     let filename = getLogFilePath lg file_num;
         w = execCmd system (''tar zcvf '' @ filename @ ''.tar.gz '' @ filename) w;
         w = execCmd system (''rm -f '' @ filename) w;
         max_log_files = sl_maxLogFiles lg;
         (lg, w) =
           (if max_log_files \<noteq> 0 \<and> file_num \<ge> max_log_files
            then rm_loop system (Suc (unat (file_num - max_log_files)) - unat (sl_minRevnum lg)) (sl_minRevnum lg) (lg, w)
            else (lg, w))
     in (lg\<lparr>sl_numCompJobs := sl_numCompJobs lg - 1\<rparr>, w))"

subsection \<open>The manager's loops over the loggers\<close>

text \<open>The loggers of the process, by address.\<close>

type_synonym logger_heap = "nat \<Rightarrow> simple_logger"

fun flush_loggers :: "put_env \<Rightarrow> string \<Rightarrow> nat \<Rightarrow> int \<Rightarrow> string \<Rightarrow> nat list \<Rightarrow> logger_heap \<times> log_world \<Rightarrow> log_error + logger_heap \<times> log_world" where
  "flush_loggers E file line level msg [] hw = Inr hw"
| "flush_loggers E file line level msg (a # as) (h, w) =
     (case (if msg = [] then Inr (h a, w)
            else put E a level (Some file) (Some ''flushAllLoggers'') line (c_string msg) (h a, w)) of
        Inl e \<Rightarrow> Inl e
      | Inr st \<Rightarrow> (case flushAll a st of (lg, w) \<Rightarrow> flush_loggers E file line level msg as (h(a := lg), w)))"

definition flushAllLoggers :: "put_env \<Rightarrow> string \<Rightarrow> nat \<Rightarrow> int \<Rightarrow> string \<Rightarrow> logger_mgr \<Rightarrow> logger_heap \<times> log_world \<Rightarrow> log_error + logger_heap \<times> log_world" where
  "flushAllLoggers E file line level msg m = flush_loggers E file line level msg (mg_loggers m)"

fun one_displayer :: "bool \<Rightarrow> nat list \<Rightarrow> logger_heap \<Rightarrow> logger_heap" where
  "one_displayer marked [] h = h"
| "one_displayer marked (a # as) h =
     (if \<not> marked
      then let lg = (if sl_curLogLevel (h a) < 4 then setLogLevel 4 (h a) else h a)
           in one_displayer True as (h(a := setDispLevel 4 lg))
      else one_displayer marked as (h(a := setDispLevel (- 1) (h a))))"

definition enableOnlyOneDisplayer :: "logger_mgr \<Rightarrow> logger_heap \<Rightarrow> logger_heap" where
  "enableOnlyOneDisplayer m = one_displayer False (mg_loggers m)"

text \<open>One round of the compression thread: the oldest pending file, if there is one.\<close>

definition compress_round :: "shell \<Rightarrow> logger_heap \<times> log_world \<Rightarrow> logger_heap \<times> log_world" where
  "compress_round system = (\<lambda>(h, w).
     case lw_mgr w of
       None \<Rightarrow> (h, w)
     | Some m \<Rightarrow>
         (case mg_pendingCompElems m of
            [] \<Rightarrow> (h, w)
          | (fileNum, a) # rest \<Rightarrow>
              (case doCompression system fileNum (h a, w\<lparr>lw_mgr := Some (m\<lparr>mg_pendingCompElems := rest\<rparr>)\<rparr>) of
                 (lg, w) \<Rightarrow> (h(a := lg), w))))"

subsection \<open>\<open>replaceString\<close> ends\<close>

lemma find_str_Some: "find_str before s = Some (l, r) \<Longrightarrow> s = l @ before @ r"
proof (induction before s arbitrary: l rule: find_str.induct)
  case (1 before s)
  show ?case
  proof (cases "prefix before s")
    case True
    then show ?thesis using 1 by (auto simp: find_str.simps prefix_def)
  next
    case False
    then show ?thesis using 1 by (auto simp: find_str.simps [of before s] split: list.splits option.splits)
  qed
qed

text \<open>For a nonempty pattern the loop ends, and each match is replaced and the search goes on behind it.\<close>

lemma replace_loop_total:
  assumes "before \<noteq> []"
  shows "\<exists>t. \<forall>ret. replace_loop before aft ret rest = Some (ret @ t)"
proof (induction rest rule: length_induct)
  case (1 rest)
  show ?case
  proof (cases "find_str before rest")
    case None
    then show ?thesis by (simp add: replace_loop.simps)
  next
    case (Some lr)
    obtain l r where lr: "find_str before rest = Some (l, r)" using Some by (cases lr) auto
    then have "length r < length rest" using find_str_Some [OF lr] assms by auto
    then obtain t where "\<forall>ret. replace_loop before aft ret r = Some (ret @ t)" using 1 by blast
    then have "\<forall>ret. replace_loop before aft ret rest = Some (ret @ l @ aft @ t)"
      using lr by (simp add: replace_loop.simps [of before aft _ rest])
    then show ?thesis by blast
  qed
qed

lemma replaceString_step:
  assumes "before \<noteq> []"
  shows "replaceString s before aft =
    (case find_str before s of
       None \<Rightarrow> Some s
     | Some (l, r) \<Rightarrow> map_option (\<lambda>t. l @ aft @ t) (replaceString r before aft))"
proof (cases "find_str before s")
  case None
  then show ?thesis by (simp add: replaceString_def replace_loop.simps)
next
  case (Some lr)
  obtain l r where "find_str before s = Some (l, r)" using Some by (cases lr) auto
  moreover obtain t where "\<forall>ret. replace_loop before aft ret r = Some (ret @ t)"
    using replace_loop_total [OF assms] by blast
  ultimately show ?thesis by (simp add: replaceString_def replace_loop.simps [of before aft "[]" s])
qed

lemma replaceString_total: "before \<noteq> [] \<Longrightarrow> \<exists>t. replaceString s before aft = Some t"
  using replace_loop_total [of before aft s] by (auto simp: replaceString_def)

lemma find_str_None: "before \<noteq> [] \<Longrightarrow> \<not> sublist before s \<Longrightarrow> find_str before s = None"
  by (induction s) (auto simp: find_str.simps sublist_Cons_right)

lemma replaceString_absent: "before \<noteq> [] \<Longrightarrow> \<not> sublist before s \<Longrightarrow> replaceString s before aft = Some s"
  by (simp add: replaceString_step find_str_None)

end
