(* ===== verification/Logger_Ring.thy ===== *)
theory Logger_Ring
  imports Logger
begin

section \<open>The ring of the Raft logger as a queue\<close>

text \<open>
  The slots of \<open>SimpleLogger\<close>, read from the cursor on, are a queue: free slots first, then the lines
  that are not in the file yet, oldest first. \<open>flush\<close> writes them in this order, \<open>put\<close> appends, and
  a change of the file keeps the text. The definitions of the code are in \<open>Logger\<close>.
\<close>

subsection \<open>The order of the slots\<close>

text \<open>The slots in the order in which they are filled next, the text of a slot, and what is not yet in the file.\<close>

definition slots :: "simple_logger \<Rightarrow> log_elem list" where
  "slots lg = drop (sl_cursor lg) (sl_logs lg) @ take (sl_cursor lg) (sl_logs lg)"

definition dirty_text :: "log_elem \<Rightarrow> string" where
  "dirty_text e = (if le_status e = DIRTY then take (le_len e) (le_ctx e) else [])"

definition pending :: "simple_logger \<Rightarrow> string" where
  "pending lg = concat (map dirty_text (slots lg))"

definition elem_ok :: "log_elem \<Rightarrow> bool" where
  "elem_ok e \<longleftrightarrow> length (le_ctx e) = MSG_SIZE \<and> le_len e \<le> MSG_SIZE \<and> available e"

text \<open>The free slots come first, the filled ones after them.\<close>

fun queue_shape :: "log_elem list \<Rightarrow> bool" where
  "queue_shape [] = True"
| "queue_shape (e # es) = (if le_status e = DIRTY then list_all needToFlush es else queue_shape es)"

definition ring_ok :: "simple_logger \<Rightarrow> bool" where
  "ring_ok lg \<longleftrightarrow> sl_cursor lg < length (sl_logs lg) \<and> \<not> sl_flushingLogs lg \<and> list_all elem_ok (sl_logs lg) \<and>
     queue_shape (slots lg)"

definition cleaned :: "log_elem \<Rightarrow> log_elem" where
  "cleaned e = (if le_status e = DIRTY then e\<lparr>le_status := CLEAN\<rparr> else e)"

lemma le_write_clean:
  assumes "le_status e = CLEAN" "elem_ok e" "l \<le> length msg" "l \<le> MSG_SIZE"
  shows "elem_ok (snd (le_write l msg e)) \<and> le_status (snd (le_write l msg e)) = DIRTY \<and>
    dirty_text (snd (le_write l msg e)) = take l msg"
  using assms by (simp add: le_write_def elem_ok_def available_def dirty_text_def poke_def)

lemma queue_shape_dirty_end: "queue_shape es \<Longrightarrow> le_status e = DIRTY \<Longrightarrow> queue_shape (es @ [e])"
  by (induction es) (auto simp: needToFlush_def)

lemma queue_shape_clean: "list_all (\<lambda>e. le_status e = CLEAN) es \<Longrightarrow> queue_shape es"
  by (induction es) auto

lemma queue_shape_all_dirty: "queue_shape es \<Longrightarrow> es \<noteq> [] \<Longrightarrow> le_status (hd es) = DIRTY \<Longrightarrow> list_all needToFlush es"
  by (cases es) (auto simp: needToFlush_def)

lemma queue_shape_dirty: "list_all needToFlush es \<Longrightarrow> queue_shape es"
  by (induction es) (auto simp: needToFlush_def)

lemma queue_shape_tl: "queue_shape es \<Longrightarrow> queue_shape (tl es)"
  by (cases es) (auto simp: queue_shape_dirty split: if_splits)

text \<open>Moving the cursor on and filling the slot it was at.\<close>

lemma slots_fill:
  assumes "sl_cursor lg < length (sl_logs lg)"
  shows "slots (lg\<lparr>sl_cursor := (sl_cursor lg + 1) mod length (sl_logs lg), sl_logs := (sl_logs lg)[sl_cursor lg := e]\<rparr>) =
    tl (slots lg) @ [e]"
proof -
  let ?c = "sl_cursor lg" and ?xs = "sl_logs lg"
  have d: "drop ?c ?xs = ?xs ! ?c # drop (Suc ?c) ?xs" using assms by (simp add: Cons_nth_drop_Suc)
  show ?thesis
  proof (cases "Suc ?c = length ?xs")
    case True
    then have "take ?c ?xs @ [e] = ?xs[?c := e]" using assms by (simp add: upd_conv_take_nth_drop)
    then show ?thesis using True d by (simp add: slots_def)
  next
    case False
    then have "Suc ?c mod length ?xs = Suc ?c" using assms by simp
    then show ?thesis using d assms by (simp add: slots_def upd_conv_take_nth_drop)
  qed
qed

lemma hd_slots: "sl_cursor lg < length (sl_logs lg) \<Longrightarrow> slots lg = sl_logs lg ! sl_cursor lg # tl (slots lg)"
  by (simp add: slots_def Cons_nth_drop_Suc [symmetric])

subsection \<open>What a flush writes\<close>

text \<open>A stream that is open on an existing file.\<close>

definition writable :: "log_st \<Rightarrow> string \<Rightarrow> string \<Rightarrow> bool" where
  "writable st p c \<longleftrightarrow>
     \<not> fs_failed (sl_fs (fst st)) \<and> fs_path (sl_fs (fst st)) = Some p \<and> lw_files (snd st) p = Some c"

lemma fs_write_writable:
  assumes "\<not> fs_failed fs" "fs_path fs = Some p" "lw_files w p = Some c"
  obtains fs' where "fs_write s fs w = (fs', w\<lparr>lw_files := (lw_files w)(p \<mapsto> c @ s)\<rparr>)"
    "\<not> fs_failed fs'" "fs_path fs' = Some p"
proof (cases "s = []")
  case True
  have "(lw_files w)(p \<mapsto> c) = lw_files w" using assms(3) by auto
  then show ?thesis using that [of fs] True assms by (simp add: fs_write_def)
next
  case False
  then show ?thesis using that [of "fs\<lparr>fs_pos := length c + length s\<rparr>"] assms by (simp add: fs_write_def)
qed

lemma le_flush_writable:
  assumes "\<not> fs_failed fs" "fs_path fs = Some p" "lw_files w p = Some c"
  obtains n fs' where "le_flush e fs w = (n, cleaned e, fs', w\<lparr>lw_files := (lw_files w)(p \<mapsto> c @ dirty_text e)\<rparr>)"
    "\<not> fs_failed fs'" "fs_path fs' = Some p"
proof (cases "le_status e = DIRTY")
  case True
  then show ?thesis using that fs_write_writable [OF assms, of "dirty_text e"]
    by (auto simp: le_flush_def dirty_text_def cleaned_def)
next
  case False
  have "(lw_files w)(p \<mapsto> c) = lw_files w" using assms(3) by auto
  then show ?thesis using that [of "- 1" fs] False assms by (simp add: le_flush_def dirty_text_def cleaned_def)
qed

lemma flush_elems_effect:
  assumes "writable (lg, w) p c" "distinct iis" "set iis \<subseteq> {..< length (sl_logs lg)}"
  shows "\<exists>fs'. flush_elems iis (lg, w) =
      (lg\<lparr>sl_logs := map (\<lambda>i. if i \<in> set iis then cleaned (sl_logs lg ! i) else sl_logs lg ! i) [0 ..< length (sl_logs lg)],
          sl_fs := fs'\<rparr>,
       w\<lparr>lw_files := (lw_files w)(p \<mapsto> c @ concat (map (\<lambda>i. dirty_text (sl_logs lg ! i)) iis))\<rparr>) \<and>
    \<not> fs_failed fs' \<and> fs_path fs' = Some p"
  using assms
proof (induction iis arbitrary: lg w c)
  case Nil
  have "(lw_files w)(p \<mapsto> c) = lw_files w" using Nil.prems(1) by (auto simp: writable_def)
  then show ?case using Nil.prems(1) by (auto simp: writable_def map_nth intro!: exI [of _ "sl_fs lg"])
next
  case (Cons ii iis)
  have pre: "\<not> fs_failed (sl_fs lg)" "fs_path (sl_fs lg) = Some p" "lw_files w p = Some c"
    using Cons.prems(1) by (simp_all add: writable_def)
  obtain n fs where e: "le_flush (sl_logs lg ! ii) (sl_fs lg) w =
      (n, cleaned (sl_logs lg ! ii), fs, w\<lparr>lw_files := (lw_files w)(p \<mapsto> c @ dirty_text (sl_logs lg ! ii))\<rparr>)"
      "\<not> fs_failed fs" "fs_path fs = Some p"
    by (rule le_flush_writable [OF pre, of "sl_logs lg ! ii"])
  let ?lg = "lg\<lparr>sl_logs := (sl_logs lg)[ii := cleaned (sl_logs lg ! ii)], sl_fs := fs\<rparr>"
  let ?w = "w\<lparr>lw_files := (lw_files w)(p \<mapsto> c @ dirty_text (sl_logs lg ! ii))\<rparr>"
  have ne: "ii \<noteq> i" if "i \<in> set iis" for i using that Cons.prems(2) by auto
  have st: "writable (?lg, ?w) p (c @ dirty_text (sl_logs lg ! ii))" "distinct iis" "set iis \<subseteq> {..< length (sl_logs ?lg)}"
    using Cons.prems e by (simp_all add: writable_def)
  from Cons.IH [OF st] obtain fs' where f: "flush_elems iis (?lg, ?w) =
      (?lg\<lparr>sl_logs := map (\<lambda>i. if i \<in> set iis then cleaned (sl_logs ?lg ! i) else sl_logs ?lg ! i) [0 ..< length (sl_logs ?lg)],
          sl_fs := fs'\<rparr>,
       ?w\<lparr>lw_files := (lw_files ?w)(p \<mapsto> (c @ dirty_text (sl_logs lg ! ii)) @ concat (map (\<lambda>i. dirty_text (sl_logs ?lg ! i)) iis))\<rparr>)"
      "\<not> fs_failed fs'" "fs_path fs' = Some p"
    by (elim exE conjE)
  have m: "map (\<lambda>i. if i \<in> set iis then cleaned (sl_logs ?lg ! i) else sl_logs ?lg ! i) [0 ..< length (sl_logs ?lg)] =
      map (\<lambda>i. if i \<in> set (ii # iis) then cleaned (sl_logs lg ! i) else sl_logs lg ! i) [0 ..< length (sl_logs lg)]"
    using ne Cons.prems(3) by (auto simp: nth_list_update)
  have t: "map (\<lambda>i. dirty_text (sl_logs ?lg ! i)) iis = map (\<lambda>i. dirty_text (sl_logs lg ! i)) iis"
    by (intro map_cong refl) (simp add: ne)
  show ?case
    using f(2,3) by (intro exI [of _ fs'] conjI, simp only: flush_elems.simps e(1) f(1) m t prod.case)
      (simp_all add: fun_upd_def cong: if_cong)
qed

lemma ring_indices:
  assumes "s \<le> length xs"
  shows "map (\<lambda>i. f (xs ! i)) ([s ..< length xs] @ [0 ..< s]) = map f (drop s xs @ take s xs)"
proof -
  have "map ((!) xs) [s ..< length xs] = drop s xs" using assms by (simp add: list_eq_iff_nth_eq)
  moreover have "map ((!) xs) [0 ..< s] = take s xs" using assms by (simp add: list_eq_iff_nth_eq)
  moreover have "map (\<lambda>i. f (xs ! i)) is = map f (map ((!) xs) is)" for "is" by simp
  ultimately show ?thesis by (simp only: map_append)
qed

lemma flush_ring:
  assumes "writable (lg, w) p c" "s \<le> length (sl_logs lg)"
  shows "\<exists>fs'. flush_elems ([s ..< length (sl_logs lg)] @ [0 ..< s]) (lg, w) =
      (lg\<lparr>sl_logs := map cleaned (sl_logs lg), sl_fs := fs'\<rparr>,
       w\<lparr>lw_files := (lw_files w)(p \<mapsto> c @ concat (map dirty_text (drop s (sl_logs lg) @ take s (sl_logs lg))))\<rparr>) \<and>
    \<not> fs_failed fs' \<and> fs_path fs' = Some p"
proof -
  let ?is = "[s ..< length (sl_logs lg)] @ [0 ..< s]"
  have "map (\<lambda>i. if i \<in> set ?is then cleaned (sl_logs lg ! i) else sl_logs lg ! i) [0 ..< length (sl_logs lg)] =
      map (\<lambda>i. cleaned (sl_logs lg ! i)) [0 ..< length (sl_logs lg)]"
    by auto
  also have "\<dots> = map cleaned (sl_logs lg)" by (intro nth_equalityI) simp_all
  finally have m: "map (\<lambda>i. if i \<in> set ?is then cleaned (sl_logs lg ! i) else sl_logs lg ! i) [0 ..< length (sl_logs lg)] =
      map cleaned (sl_logs lg)" .
  have "distinct ?is" "set ?is \<subseteq> {..< length (sl_logs lg)}" using assms(2) by auto
  from flush_elems_effect [OF assms(1) this] show ?thesis
    unfolding m ring_indices [OF assms(2), of dirty_text] .
qed

subsection \<open>The text of the log\<close>

definition rev_path :: "simple_logger \<Rightarrow> nat \<Rightarrow> string" where
  "rev_path lg n = (if n \<noteq> 0 then sl_filePath lg @ ''.'' @ show_nat n else sl_filePath lg)"

definition content :: "log_world \<Rightarrow> string \<Rightarrow> string" where
  "content w p = (case lw_files w p of None \<Rightarrow> [] | Some c \<Rightarrow> c)"

text \<open>The revisions from \<open>b\<close> to the current one, one after the other.\<close>

definition log_text :: "nat \<Rightarrow> log_st \<Rightarrow> string" where
  "log_text b st = concat (map (\<lambda>r. content (snd st) (rev_path (fst st) r)) [b ..< Suc (unat (sl_curRevnum (fst st)))])"

text \<open>
  A logger that can log: its ring is a queue, its stream is open on the current revision, and the
  next \<open>k\<close> revisions are free.
\<close>

definition log_ok :: "nat \<Rightarrow> nat \<Rightarrow> log_st \<Rightarrow> bool" where
  "log_ok b k st \<longleftrightarrow> (case st of (lg, w) \<Rightarrow>
     let cur = unat (sl_curRevnum lg)
     in ring_ok lg \<and> sl_curLogLevel lg \<le> 6 \<and> writable st (rev_path lg cur) (content w (rev_path lg cur)) \<and>
        b \<le> cur \<and> cur + k < 18446744073709551616 \<and>
        (\<forall>r \<in> {cur <.. cur + k}. content w (rev_path lg r) = [] \<and> lw_openable w (rev_path lg r)))"

lemma getLogFilePath_rev: "getLogFilePath lg n = rev_path lg (unat n)"
  by (simp add: getLogFilePath_def rev_path_def unat_eq_0)

lemma show_nat_inj [simp]: "show_nat m = show_nat n \<longleftrightarrow> m = n"
  using show_nat_digits [of m] show_nat_digits [of n] by metis

lemma rev_path_inj [simp]: "rev_path lg m = rev_path lg n \<longleftrightarrow> m = n"
  by (auto simp: rev_path_def)

lemma rev_path_cong: "sl_filePath lg' = sl_filePath lg \<Longrightarrow> rev_path lg' = rev_path lg"
  by (simp add: rev_path_def fun_eq_iff)

lemma log_ok_mono: "log_ok b k st \<Longrightarrow> k' \<le> k \<Longrightarrow> log_ok b k' st"
  by (auto simp: log_ok_def Let_def split: prod.splits)

lemma log_text_write:
  assumes "b \<le> unat (sl_curRevnum lg)" "sl_curRevnum lg' = sl_curRevnum lg" "sl_filePath lg' = sl_filePath lg"
    "lw_files w' = (lw_files w)(rev_path lg (unat (sl_curRevnum lg)) \<mapsto> content w (rev_path lg (unat (sl_curRevnum lg))) @ s)"
  shows "log_text b (lg', w') = log_text b (lg, w) @ s"
proof -
  let ?cur = "unat (sl_curRevnum lg)"
  have c: "content w' (rev_path lg r) = (if r = ?cur then content w (rev_path lg r) @ s else content w (rev_path lg r))" for r
    using assms(4) by (simp add: content_def)
  have m: "map (\<lambda>r. content w' (rev_path lg r)) [b ..< ?cur] = map (\<lambda>r. content w (rev_path lg r)) [b ..< ?cur]"
    by (simp add: c)
  show ?thesis using assms(1-3) by (simp add: log_text_def rev_path_cong [OF assms(3)] c [of ?cur] m)
qed

text \<open>What a flush leaves alone.\<close>

definition same_setup :: "simple_logger \<Rightarrow> simple_logger \<Rightarrow> bool" where
  "same_setup lg lg' \<longleftrightarrow> sl_filePath lg' = sl_filePath lg \<and> sl_curLogLevel lg' = sl_curLogLevel lg \<and>
     sl_curDispLevel lg' = sl_curDispLevel lg \<and> sl_tzGap lg' = sl_tzGap lg \<and> length (sl_logs lg') = length (sl_logs lg) \<and>
     sl_maxLogFiles lg' = sl_maxLogFiles lg \<and> sl_maxLogFileSize lg' = sl_maxLogFileSize lg"

lemma same_setup_refl [simp]: "same_setup lg lg"
  by (simp add: same_setup_def)

lemma same_setup_trans: "same_setup a b \<Longrightarrow> same_setup b c \<Longrightarrow> same_setup a c"
  by (simp add: same_setup_def)

lemma new_revision_ok:
  assumes "log_ok b (Suc k) st"
  shows "log_ok b k (new_revision this st) \<and> log_text b (new_revision this st) = log_text b st \<and>
    sl_logs (fst (new_revision this st)) = sl_logs (fst st) \<and> sl_cursor (fst (new_revision this st)) = sl_cursor (fst st) \<and>
    same_setup (fst st) (fst (new_revision this st))"
proof -
  obtain lg w where st: "st = (lg, w)" by (cases st)
  let ?cur = "unat (sl_curRevnum lg)"
  show ?thesis
  proof (cases "sl_maxLogFileSize lg \<noteq> 0 \<and> fs_tellp (sl_fs lg) > sint (sl_maxLogFileSize lg)")
    case False
    then have "new_revision this st = st" by (auto simp: new_revision_def st)
    then show ?thesis using log_ok_mono [OF assms] by simp
  next
    case True
    note ok = assms [unfolded log_ok_def st Let_def prod.case]
    have cur1: "unat (sl_curRevnum lg + 1) = Suc ?cur" using ok unat_Suc_64 [of "sl_curRevnum lg"] by simp
    have all: "\<forall>r \<in> {?cur <.. ?cur + Suc k}. content w (rev_path lg r) = [] \<and> lw_openable w (rev_path lg r)"
      using ok by (elim conjE)
    have free: "content w (rev_path lg (Suc ?cur)) = []" "lw_openable w (rev_path lg (Suc ?cur))"
      using bspec [OF all, of "Suc ?cur"] by simp_all
    let ?lg = "lg\<lparr>sl_curRevnum := sl_curRevnum lg + 1\<rparr>"
    have p: "rev_path ?lg = rev_path lg" by (rule rev_path_cong) simp
    let ?fs = "\<lparr>fs_path = Some (rev_path lg (Suc ?cur)), fs_failed = False, fs_pos = 0\<rparr>"
    let ?w = "w\<lparr>lw_files := (lw_files w)(rev_path lg (Suc ?cur) := Some [])\<rparr>"
    have o: "fs_open (getLogFilePath ?lg (sl_curRevnum lg + 1)) (fs_close (sl_fs lg)) w = (?fs, ?w)"
      using ok free by (simp add: fs_open_def fs_close_def getLogFilePath_rev cur1 p writable_def content_def split: option.splits)
    obtain lg' w' where r: "new_revision this st = (lg', w')" by (cases "new_revision this st")
    have eqs: "sl_curRevnum lg' = sl_curRevnum lg + 1" "sl_fs lg' = ?fs" "lw_files w' = lw_files ?w"
        "lw_openable w' = lw_openable w" "sl_logs lg' = sl_logs lg" "sl_cursor lg' = sl_cursor lg"
        "sl_flushingLogs lg' = sl_flushingLogs lg" "same_setup lg lg'"
      using r True by (auto simp: new_revision_def st o same_setup_def Let_def split: option.splits)
    have p': "rev_path lg' = rev_path lg" using eqs(8) by (intro rev_path_cong) (simp add: same_setup_def)
    have c: "content w' (rev_path lg r) = content w (rev_path lg r)" for r
      using eqs(3) free(1) by (auto simp: content_def)
    have "ring_ok lg' = ring_ok lg" using eqs by (simp add: ring_ok_def slots_def)
    moreover have "log_text b (lg', w') = log_text b (lg, w)"
      using ok by (simp add: log_text_def p' eqs(1) cur1 c free(1))
    moreover have "sl_curLogLevel lg' = sl_curLogLevel lg" using eqs(8) by (simp add: same_setup_def)
    moreover have "\<forall>r \<in> {Suc ?cur <.. Suc ?cur + k}. content w (rev_path lg r) = [] \<and> lw_openable w (rev_path lg r)"
      using all by simp
    ultimately show ?thesis
      using ok eqs(8) unfolding r unfolding st by (simp add: log_ok_def eqs(1-7) cur1 p' c free(1) writable_def)
  qed
qed

subsection \<open>Flush and put on a logger that can log\<close>

lemma elem_ok_cleaned: "elem_ok e \<Longrightarrow> elem_ok (cleaned e) \<and> le_status (cleaned e) = CLEAN"
  by (auto simp: elem_ok_def cleaned_def available_def)

lemma set_slots [simp]: "set (slots lg) = set (sl_logs lg)"
  unfolding slots_def by (metis append_take_drop_id set_append sup_commute)

lemma content_update [simp]:
  "content (w\<lparr>lw_files := (lw_files w)(p \<mapsto> c)\<rparr>) q = (if q = p then c else content w q)"
  by (simp add: content_def)

lemma ring_ok_cleaned:
  assumes "ring_ok lg"
  shows "ring_ok (lg\<lparr>sl_logs := map cleaned (sl_logs lg), sl_fs := fs\<rparr>)"
proof -
  let ?lg = "lg\<lparr>sl_logs := map cleaned (sl_logs lg), sl_fs := fs\<rparr>"
  have ok: "\<forall>e \<in> set (sl_logs lg). elem_ok e" using assms by (simp add: ring_ok_def list_all_iff)
  then have "list_all (\<lambda>e. le_status e = CLEAN) (slots ?lg)" by (auto simp: list_all_iff elem_ok_cleaned)
  then show ?thesis using assms ok by (simp add: ring_ok_def list_all_iff elem_ok_cleaned queue_shape_clean)
qed

lemma pending_cleaned:
  assumes "sl_logs lg' = map cleaned xs"
  shows "pending lg' = []"
proof -
  have "\<forall>e \<in> set (slots lg'). dirty_text e = []" using assms by (auto simp: dirty_text_def cleaned_def)
  then show ?thesis by (simp add: pending_def)
qed

lemma flush_ok:
  assumes "log_ok b (Suc k) (lg, w)" "s \<le> length (sl_logs lg)"
  shows "\<exists>lg' w'. flush this s (lg, w) = (True, lg', w') \<and> log_ok b k (lg', w') \<and>
    log_text b (lg', w') = log_text b (lg, w) @ concat (map dirty_text (drop s (sl_logs lg) @ take s (sl_logs lg))) \<and>
    sl_logs lg' = map cleaned (sl_logs lg) \<and> sl_cursor lg' = sl_cursor lg \<and> same_setup lg lg'"
proof -
  let ?p = "rev_path lg (unat (sl_curRevnum lg))"
  let ?s = "concat (map dirty_text (drop s (sl_logs lg) @ take s (sl_logs lg)))"
  note ok = assms(1) [unfolded log_ok_def Let_def prod.case]
  have wr: "writable (lg, w) ?p (content w ?p)" and ring: "ring_ok lg" using ok by simp_all
  obtain fs where f: "flush_elems ([s ..< length (sl_logs lg)] @ [0 ..< s]) (lg, w) =
      (lg\<lparr>sl_logs := map cleaned (sl_logs lg), sl_fs := fs\<rparr>, w\<lparr>lw_files := (lw_files w)(?p \<mapsto> content w ?p @ ?s)\<rparr>)"
      "\<not> fs_failed fs" "fs_path fs = Some ?p"
    using flush_ring [OF wr assms(2)] by (elim exE conjE)
  let ?lg = "lg\<lparr>sl_logs := map cleaned (sl_logs lg), sl_fs := fs\<rparr>"
  let ?w = "w\<lparr>lw_files := (lw_files w)(?p \<mapsto> content w ?p @ ?s)\<rparr>"
  have p: "rev_path ?lg = rev_path lg" by (rule rev_path_cong) simp
  have "log_ok b (Suc k) (?lg, ?w)"
    using ok ring_ok_cleaned [OF ring, of fs] f(2,3) by (simp add: log_ok_def Let_def p writable_def)
  moreover have "log_text b (?lg, ?w) = log_text b (lg, w) @ ?s" using ok by (intro log_text_write) simp_all
  moreover have "\<not> sl_flushingLogs lg" using ring by (simp add: ring_ok_def)
  moreover have "same_setup lg ?lg" by (simp add: same_setup_def)
  moreover obtain lg' w' where "new_revision this (?lg, ?w) = (lg', w')" by (cases "new_revision this (?lg, ?w)")
  ultimately show ?thesis
    using new_revision_ok [of b k "(?lg, ?w)" this] same_setup_trans [of lg ?lg] by (auto simp: flush_def f(1))
qed

text \<open>\<open>flushAll\<close> empties the ring into the file.\<close>

lemma flushAll_ok:
  assumes "log_ok b (Suc k) (lg, w)"
  shows "\<exists>lg' w'. flushAll this (lg, w) = (lg', w') \<and> log_ok b k (lg', w') \<and>
    log_text b (lg', w') = log_text b (lg, w) @ pending lg \<and> pending lg' = [] \<and> same_setup lg lg'"
proof -
  have "sl_cursor lg \<le> length (sl_logs lg)" using assms by (simp add: log_ok_def ring_ok_def Let_def)
  then obtain lg' w' where "flush this (sl_cursor lg) (lg, w) = (True, lg', w')" "log_ok b k (lg', w')"
      "log_text b (lg', w') = log_text b (lg, w) @ pending lg" "sl_logs lg' = map cleaned (sl_logs lg)" "same_setup lg lg'"
    using flush_ok [OF assms] unfolding pending_def slots_def by blast
  then show ?thesis using pending_cleaned by (auto simp: flushAll_def)
qed

lemma slots_cursor: "sl_cursor lg < length (sl_logs lg) \<Longrightarrow>
    slots (lg\<lparr>sl_cursor := (sl_cursor lg + 1) mod length (sl_logs lg)\<rparr>) = tl (slots lg) @ [sl_logs lg ! sl_cursor lg]"
  using slots_fill [of lg "sl_logs lg ! sl_cursor lg"] by simp

text \<open>The cursor can be moved as long as the free slots come first.\<close>

lemma rev_path_cursor [simp]: "rev_path (lg\<lparr>sl_cursor := c\<rparr>) = rev_path lg"
  by (rule rev_path_cong) simp

lemma log_ok_cursor:
  assumes "log_ok b k (lg, w)" "c < length (sl_logs lg)" "queue_shape (slots (lg\<lparr>sl_cursor := c\<rparr>))"
  shows "log_ok b k (lg\<lparr>sl_cursor := c\<rparr>, w)"
  using assms by (simp add: log_ok_def Let_def ring_ok_def writable_def)

text \<open>Storing into the free slot at the old cursor.\<close>

lemma fill_ok:
  assumes "log_ok b k (lg, w)" "le_status (sl_logs lg ! sl_cursor lg) = CLEAN" "n \<le> MSG_SIZE" "n \<le> length msg"
  defines "lg2 \<equiv> lg\<lparr>sl_cursor := (sl_cursor lg + 1) mod length (sl_logs lg),
      sl_logs := (sl_logs lg)[sl_cursor lg := snd (le_write n msg (sl_logs lg ! sl_cursor lg))]\<rparr>"
  shows "log_ok b k (lg2, w) \<and> log_text b (lg2, w) = log_text b (lg, w) \<and> pending lg2 = pending lg @ take n msg \<and> same_setup lg lg2"
proof -
  let ?e = "snd (le_write n msg (sl_logs lg ! sl_cursor lg))"
  have ring: "ring_ok lg" "sl_cursor lg < length (sl_logs lg)" using assms(1) by (simp_all add: log_ok_def Let_def ring_ok_def)
  then have "elem_ok (sl_logs lg ! sl_cursor lg)" by (simp add: ring_ok_def list_all_length)
  then have e: "elem_ok ?e" "le_status ?e = DIRTY" "dirty_text ?e = take n msg"
    using le_write_clean [of "sl_logs lg ! sl_cursor lg" n msg] assms(2-4) by simp_all
  have s: "slots lg2 = tl (slots lg) @ [?e]" using slots_fill [OF ring(2), of ?e] by (simp add: lg2_def)
  have hd: "slots lg = sl_logs lg ! sl_cursor lg # tl (slots lg)" by (rule hd_slots [OF ring(2)])
  have "pending lg = concat (map dirty_text (tl (slots lg)))"
    unfolding pending_def by (subst hd) (simp add: dirty_text_def assms(2))
  then have pend: "pending lg2 = pending lg @ take n msg" by (simp add: pending_def s e(3))
  have "queue_shape (slots lg)" using ring(1) by (simp add: ring_ok_def)
  then have "queue_shape (slots lg2)" unfolding s by (intro queue_shape_dirty_end queue_shape_tl e(2))
  moreover have "Suc (sl_cursor lg) mod length (sl_logs lg) < length (sl_logs lg)"
    using ring(2) by (intro mod_less_divisor) (rule le_less_trans [OF le0])
  ultimately have "ring_ok lg2" using ring e(1)
    by (auto simp: ring_ok_def lg2_def list_all_iff dest!: set_update_subset_insert [THEN subsetD])
  moreover have "rev_path lg2 = rev_path lg" by (rule rev_path_cong) (simp add: lg2_def)
  ultimately show ?thesis using assms(1) pend
    by (simp add: log_ok_def Let_def writable_def log_text_def same_setup_def) (simp add: lg2_def)
qed

lemma put_ring_ok:
  assumes "log_ok b (Suc k) (lg, w)" "n \<le> MSG_SIZE" "n \<le> length msg"
  shows "\<exists>lg' w'. put_ring this msg n (lg, w) = Inr (lg', w') \<and> log_ok b k (lg', w') \<and>
    log_text b (lg', w') @ pending lg' = log_text b (lg, w) @ pending lg @ take n msg \<and> same_setup lg lg'"
proof -
  let ?c = "sl_cursor lg" and ?num = "length (sl_logs lg)"
  let ?lg = "lg\<lparr>sl_cursor := (?c + 1) mod ?num\<rparr>"
  have ring: "ring_ok lg" "?c < ?num" "?num \<noteq> 0" using assms(1) by (auto simp: log_ok_def Let_def ring_ok_def)
  have av: "available (sl_logs lg ! ?c)" using ring by (simp add: ring_ok_def list_all_length elem_ok_def)
  show ?thesis
  proof (cases "needToFlush (sl_logs lg ! ?c)")
    case False
    then have "le_status (sl_logs lg ! ?c) = CLEAN" using av by (simp add: needToFlush_def available_def)
    from fill_ok [OF log_ok_mono [OF assms(1), of k] this assms(2,3)] show ?thesis
      using False av ring(3) by (simp add: put_ring_def Let_def)
  next
    case True
    have "slots lg = sl_logs lg ! ?c # tl (slots lg)" by (rule hd_slots [OF ring(2)])
    then have dirty: "list_all needToFlush (slots lg)"
      using True ring(1) queue_shape_all_dirty [of "slots lg"] by (metis list.distinct(1) list.sel(1) needToFlush_def ring_ok_def)
    then have "list_all needToFlush (slots ?lg)" by (simp add: list_all_iff)
    then have "log_ok b (Suc k) (?lg, w)"
      using ring by (intro log_ok_cursor [OF assms(1)]) (simp_all add: queue_shape_dirty)
    then obtain lg1 w1 where f: "flush this ?c (?lg, w) = (True, lg1, w1)" "log_ok b k (lg1, w1)"
        "log_text b (lg1, w1) = log_text b (?lg, w) @ concat (map dirty_text (drop ?c (sl_logs ?lg) @ take ?c (sl_logs ?lg)))"
        "sl_logs lg1 = map cleaned (sl_logs ?lg)" "sl_cursor lg1 = sl_cursor ?lg" "same_setup ?lg lg1"
      using flush_ok [of b k ?lg w ?c this] ring(2) by auto
    let ?lg1 = "lg1\<lparr>sl_cursor := ?c\<rparr>"
    have clean: "\<forall>e \<in> set (sl_logs lg1). le_status e = CLEAN"
      using f(4) ring(1) by (auto simp: elem_ok_cleaned ring_ok_def list_all_iff)
    then have ok1: "log_ok b k (?lg1, w1)"
      using f(4) ring(2) by (intro log_ok_cursor [OF f(2)] queue_shape_clean) (simp_all add: list_all_iff)
    have st1: "le_status (sl_logs ?lg1 ! sl_cursor ?lg1) = CLEAN" using clean f(4) ring(2) by simp
    have upd: "?lg1\<lparr>sl_cursor := (sl_cursor ?lg1 + 1) mod length (sl_logs ?lg1), sl_logs := x\<rparr> = lg1\<lparr>sl_logs := x\<rparr>" for x
      using f(4,5) by (cases lg1) simp
    have p: "log_ok b k (lg1\<lparr>sl_logs := (sl_logs lg1)[?c := snd (le_write n msg (sl_logs lg1 ! ?c))]\<rparr>, w1)"
        "log_text b (lg1\<lparr>sl_logs := (sl_logs lg1)[?c := snd (le_write n msg (sl_logs lg1 ! ?c))]\<rparr>, w1) = log_text b (?lg1, w1)"
        "pending (lg1\<lparr>sl_logs := (sl_logs lg1)[?c := snd (le_write n msg (sl_logs lg1 ! ?c))]\<rparr>) = pending ?lg1 @ take n msg"
      using fill_ok [OF ok1 st1 assms(2,3), unfolded upd] by simp_all
    have "pending ?lg1 = []" using f(4) by (intro pending_cleaned [of _ "sl_logs lg"]) simp
    moreover have "log_text b (?lg1, w1) = log_text b (lg1, w1)" "log_text b (?lg, w) = log_text b (lg, w)"
      by (simp_all add: log_text_def)
    moreover have "concat (map dirty_text (drop ?c (sl_logs ?lg) @ take ?c (sl_logs ?lg))) = pending lg"
      by (simp add: pending_def slots_def)
    ultimately show ?thesis using True av ring(3) f p by (simp add: put_ring_def same_setup_def Let_def)
  qed
qed

text \<open>The line that a call of \<open>put\<close> stores.\<close>

definition stored_line :: "put_env \<Rightarrow> int \<Rightarrow> nat \<Rightarrow> string option \<Rightarrow> string option \<Rightarrow> nat \<Rightarrow> string \<Rightarrow> string" where
  "stored_line E tzGap level source_file func_name line_number body =
     (case put_message E tzGap level source_file func_name line_number body of (msg, cur_len) \<Rightarrow> take cur_len msg)"

lemma log_ok_console [simp]: "log_ok b k (lg, w\<lparr>lw_console := x\<rparr>) = log_ok b k (lg, w)"
  by (simp add: log_ok_def Let_def writable_def content_def)

lemma log_text_console [simp]: "log_text b (lg, w\<lparr>lw_console := x\<rparr>) = log_text b (lg, w)"
  by (simp add: log_text_def content_def)

lemma log_ok_stream: "log_ok b k (lg, w) \<Longrightarrow> \<not> fs_failed (sl_fs lg) \<and> sl_curLogLevel lg \<le> 6"
  by (simp add: log_ok_def Let_def writable_def)

lemma put_ok:
  assumes "log_ok b (Suc k) (lg, w)" "0 \<le> level" "length (pe_msg E) = MSG_SIZE"
  shows "\<exists>lg' w'. put E this level source_file func_name line_number body (lg, w) = Inr (lg', w') \<and> log_ok b k (lg', w') \<and>
    log_text b (lg', w') @ pending lg' = log_text b (lg, w) @ pending lg @
      (if level \<le> sl_curLogLevel lg then stored_line E (sl_tzGap lg) (nat level) source_file func_name line_number body else []) \<and>
    same_setup lg lg'"
proof (cases "level \<le> sl_curLogLevel lg")
  case False
  then show ?thesis using log_ok_mono [OF assms(1), of k] by (simp add: put_def)
next
  case True
  obtain msg n where m: "put_message E (sl_tzGap lg) (nat level) source_file func_name line_number body = (msg, n)"
    by (cases "put_message E (sl_tzGap lg) (nat level) source_file func_name line_number body")
  have "n \<le> MSG_SIZE" "n \<le> length msg" using put_message_parts [OF assms(3) m] by simp_all
  then obtain lg' w' where r: "put_ring this msg n (lg, w) = Inr (lg', w')" "log_ok b k (lg', w')"
      "log_text b (lg', w') @ pending lg' = log_text b (lg, w) @ pending lg @ take n msg" "same_setup lg lg'"
    using put_ring_ok [OF assms(1)] by blast
  show ?thesis using True r log_ok_stream [OF assms(1)] assms(2) by (simp add: put_def m stored_line_def)
qed

subsection \<open>Sequences of calls\<close>

text \<open>
  The contract of a line log towards its callers: as long as it is able to take calls, a legal call
  returns and adds its text at the end. That a sequence of calls adds the texts in order follows
  once for all.
\<close>

fun run_calls :: "('c \<Rightarrow> 's \<Rightarrow> 'e + 's) \<Rightarrow> 'c list \<Rightarrow> 's \<Rightarrow> 'e + 's" where
  "run_calls call [] s = Inr s"
| "run_calls call (c # cs) s = (case call c s of Inl e \<Rightarrow> Inl e | Inr s' \<Rightarrow> run_calls call cs s')"

lemma run_calls_append:
  "run_calls call (cs @ ds) s = (case run_calls call cs s of Inl e \<Rightarrow> Inl e | Inr s' \<Rightarrow> run_calls call ds s')"
  by (induction call cs s rule: run_calls.induct) (auto split: sum.split)

locale line_log =
  fixes call :: "'c \<Rightarrow> 's \<Rightarrow> 'e + 's" and able :: "nat \<Rightarrow> 's \<Rightarrow> bool" and legal :: "'c \<Rightarrow> bool"
    and same :: "'s \<Rightarrow> 's \<Rightarrow> bool" and content_of :: "'s \<Rightarrow> 'a list" and adds :: "'s \<Rightarrow> 'c \<Rightarrow> 'a list"
  assumes call_adds: "able (Suc k) s \<Longrightarrow> legal c \<Longrightarrow>
      \<exists>s'. call c s = Inr s' \<and> able k s' \<and> same s s' \<and> content_of s' = content_of s @ adds s c"
    and adds_same: "same s s' \<Longrightarrow> adds s' c = adds s c"
    and same_refl: "same s s"
    and same_trans: "same s s' \<Longrightarrow> same s' s'' \<Longrightarrow> same s s''"
begin

lemma run_adds:
  assumes "able (k + length cs) s" "list_all legal cs"
  shows "\<exists>s'. run_calls call cs s = Inr s' \<and> able k s' \<and> same s s' \<and> content_of s' = content_of s @ concat (map (adds s) cs)"
  using assms
proof (induction cs arbitrary: s)
  case Nil
  then show ?case by (simp add: same_refl)
next
  case (Cons c cs)
  obtain s1 where s1: "call c s = Inr s1" "able (k + length cs) s1" "same s s1" "content_of s1 = content_of s @ adds s c"
    using call_adds [of "k + length cs" s c] Cons.prems by auto
  have "concat (map (adds s1) cs) = concat (map (adds s) cs)" using adds_same [OF s1(3)] by (simp cong: map_cong)
  then show ?case using Cons.IH [OF s1(2)] Cons.prems(2) s1 same_trans by fastforce
qed

end

datatype log_call =
    Put put_env int "string option" "string option" nat string
  | Flush_all

fun log_step :: "nat \<Rightarrow> log_call \<Rightarrow> log_st \<Rightarrow> log_error + log_st" where
  "log_step this (Put E level source_file func_name line_number body) st = put E this level source_file func_name line_number body st"
| "log_step this Flush_all st = Inr (flushAll this st)"

definition log_run :: "nat \<Rightarrow> log_call list \<Rightarrow> log_st \<Rightarrow> log_error + log_st" where
  "log_run this = run_calls (log_step this)"

text \<open>Calls with a level that has a name, and the text they add to the log.\<close>

fun call_ok :: "log_call \<Rightarrow> bool" where
  "call_ok (Put E level source_file func_name line_number body) \<longleftrightarrow> 0 \<le> level \<and> length (pe_msg E) = MSG_SIZE"
| "call_ok Flush_all \<longleftrightarrow> True"

fun call_text :: "simple_logger \<Rightarrow> log_call \<Rightarrow> string" where
  "call_text lg (Put E level source_file func_name line_number body) =
     (if level \<le> sl_curLogLevel lg then stored_line E (sl_tzGap lg) (nat level) source_file func_name line_number body else [])"
| "call_text lg Flush_all = []"

text \<open>The whole text of a logger: what is in its files and what is still in its ring.\<close>

definition whole_text :: "nat \<Rightarrow> log_st \<Rightarrow> string" where
  "whole_text b st = log_text b st @ pending (fst st)"

lemma call_text_setup: "same_setup lg lg' \<Longrightarrow> call_text lg' c = call_text lg c"
  by (cases c) (simp_all add: same_setup_def)

lemma log_step_ok:
  assumes "log_ok b (Suc k) st" "call_ok c"
  shows "\<exists>st'. log_step this c st = Inr st' \<and> log_ok b k st' \<and> same_setup (fst st) (fst st') \<and>
    whole_text b st' = whole_text b st @ call_text (fst st) c"
proof -
  obtain lg w where st: "st = (lg, w)" by (cases st)
  note ok = assms(1) [unfolded st]
  show ?thesis
  proof (cases c)
    case (Put E level sf fn ln body)
    then show ?thesis using put_ok [OF ok, of level E this sf fn ln body] assms(2) by (auto simp: st whole_text_def)
  next
    case Flush_all
    then show ?thesis using flushAll_ok [OF ok, of this] by (auto simp: st whole_text_def)
  qed
qed

interpretation ring: line_log "log_step this" "log_ok b" call_ok "\<lambda>st st'. same_setup (fst st) (fst st')" "whole_text b"
    "\<lambda>st. call_text (fst st)"
  for this b
proof
  fix k :: nat and s :: log_st and c :: log_call
  show "log_ok b (Suc k) s \<Longrightarrow> call_ok c \<Longrightarrow> \<exists>s'. log_step this c s = Inr s' \<and> log_ok b k s' \<and> same_setup (fst s) (fst s') \<and>
      whole_text b s' = whole_text b s @ call_text (fst s) c"
    by (rule log_step_ok)
qed (auto simp: call_text_setup intro: same_setup_trans)

text \<open>
  C14. The log keeps every line, in order. From a logger that can log, any sequence of \<open>put\<close> and
  \<open>flushAll\<close> calls followed by a \<open>flushAll\<close> returns without waiting for ever, and the files of the
  revisions, read one after the other, then hold exactly what they held before, what the ring
  held, and the lines of the calls that pass the log level, also when the ring wraps around, when
  \<open>put\<close> has to flush by itself and when a file exceeds its limit and a new revision is started.
\<close>

theorem log_in_order:
  assumes "log_ok b (k + Suc (length cs)) (lg, w)" "list_all call_ok cs"
  shows "\<exists>lg' w'. log_run this (cs @ [Flush_all]) (lg, w) = Inr (lg', w') \<and> log_ok b k (lg', w') \<and> pending lg' = [] \<and>
    log_text b (lg', w') = log_text b (lg, w) @ pending lg @ concat (map (call_text lg) cs)"
proof -
  have "log_ok b (Suc k + length cs) (lg, w)" using assms(1) by simp
  from ring.run_adds [OF this assms(2), of this] obtain lg1 w1 where s: "log_run this cs (lg, w) = Inr (lg1, w1)"
      "log_ok b (Suc k) (lg1, w1)" "log_text b (lg1, w1) @ pending lg1 = log_text b (lg, w) @ pending lg @ concat (map (call_text lg) cs)"
    by (auto simp: log_run_def whole_text_def)
  show ?thesis using flushAll_ok [OF s(2), of this] s(1,3) by (auto simp: log_run_def run_calls_append)
qed

text \<open>A logger with a ring of two slots and a limit of 60 bytes per file, whose third message does not fit.\<close>

definition demo_logger :: simple_logger where
  "demo_logger = \<lparr>sl_filePath = ''srv.log'', sl_minRevnum = 0, sl_curRevnum = 0, sl_maxLogFiles = 16,
     sl_fs = \<lparr>fs_path = Some ''srv.log'', fs_failed = False, fs_pos = 0\<rparr>, sl_maxLogFileSize = 60, sl_numCompJobs = 0,
     sl_curLogLevel = 4, sl_curDispLevel = 4, sl_tzGap = - 300, sl_cursor = 0,
     sl_logs = [log_elem_new, log_elem_new], sl_flushingLogs = False\<rparr>"

definition demo_log_world :: log_world where
  "demo_log_world = \<lparr>lw_files = [''srv.log'' \<mapsto> ''''], lw_openable = (\<lambda>_. True), lw_console = [], lw_mgr = Some logger_mgr_new\<rparr>"

definition demo_calls :: "log_call list" where
  "demo_calls = [Put demo_env 4 None None 0 ''one'', Put demo_env 5 None None 0 ''hidden'',
     Put demo_env 4 None None 0 ''two'', Put demo_env 4 None None 0 ''three'']"

lemma elem_ok_new: "elem_ok log_elem_new" "le_status log_elem_new = CLEAN"
  by (simp_all add: elem_ok_def log_elem_new_def available_def)

lemma demo_logger_ok: "k < 18446744073709551616 \<Longrightarrow> log_ok 0 k (demo_logger, demo_log_world)"
proof -
  have "content demo_log_world (rev_path demo_logger r) = []" for r
    by (simp add: content_def demo_log_world_def)
  moreover have "lw_openable demo_log_world p" for p by (simp add: demo_log_world_def)
  moreover have "writable (demo_logger, demo_log_world) (rev_path demo_logger 0) []"
    by (simp add: writable_def demo_logger_def demo_log_world_def rev_path_def)
  moreover have "ring_ok demo_logger" by (simp add: ring_ok_def demo_logger_def slots_def elem_ok_new)
  moreover have "sl_curRevnum demo_logger = 0" "sl_curLogLevel demo_logger \<le> 6" by (simp_all add: demo_logger_def)
  ultimately show "k < 18446744073709551616 \<Longrightarrow> ?thesis" by (simp add: log_ok_def)
qed

lemma demo_line: "length s < 100 \<Longrightarrow>
    stored_line demo_env (- 300) 4 None None 0 s = ''2023-04-05T12:00:09.007_031-05:00 [    17] [INFO] '' @ s @ [CHR 0x0A]"
proof -
  assume s: "length s < 100"
  have l: "length (pe_msg demo_env) = MSG_SIZE" by (simp add: demo_env_def)
  obtain msg n where r: "put_message demo_env (- 300) 4 None None 0 s = (msg, n)"
    by (cases "put_message demo_env (- 300) 4 None None 0 s")
  have "put_tail None None 0 = [CHR 0x0A]" by (simp add: put_tail_def)
  then show ?thesis
    using put_message_parts [OF l r] s by (simp add: stored_line_def r demo_head appended_def MSG_SIZE_def)
qed

theorem log_in_order_witness:
  "\<exists>lg' w'. log_run 7 (demo_calls @ [Flush_all]) (demo_logger, demo_log_world) = Inr (lg', w') \<and>
    log_text 0 (lg', w') =
      ''2023-04-05T12:00:09.007_031-05:00 [    17] [INFO] one'' @ [CHR 0x0A] @
      ''2023-04-05T12:00:09.007_031-05:00 [    17] [INFO] two'' @ [CHR 0x0A] @
      ''2023-04-05T12:00:09.007_031-05:00 [    17] [INFO] three'' @ [CHR 0x0A]"
proof -
  have ok: "log_ok 0 (0 + Suc (length demo_calls)) (demo_logger, demo_log_world)"
    by (rule demo_logger_ok) (simp add: demo_calls_def)
  have calls: "list_all call_ok demo_calls" by (simp add: demo_calls_def demo_env_def)
  have lvl: "sl_curLogLevel demo_logger = 4" "sl_tzGap demo_logger = - 300" by (simp_all add: demo_logger_def)
  have "log_text 0 (demo_logger, demo_log_world) = []" "pending demo_logger = []"
    by (simp_all add: log_text_def demo_log_world_def demo_logger_def content_def rev_path_def pending_def slots_def dirty_text_def elem_ok_new)
  then show ?thesis
    using log_in_order [OF ok calls, of 7] by (auto simp: demo_calls_def lvl demo_line)
qed

end
