(* ===== verification/Logger_Files.thy ===== *)
theory Logger_Files
  imports Logger_Ring
begin

section \<open>The files of the Raft logger\<close>

text \<open>
  Which revision a new logger continues (\<open>findMinMaxRevNum\<close>), that a started logger can log, and
  which files the compression thread keeps (\<open>doCompression\<close>). The definitions of the code are in \<open>Logger\<close>; the
  shell that \<open>doCompression\<close> runs its commands in is a parameter with the laws \<open>shell_laws\<close>.
\<close>

subsection \<open>The scan of the directory\<close>

lemma rfind_absent: "c \<notin> set ys \<Longrightarrow> rfind c ys = None"
  by (induction ys) auto

lemma rfind_last: "c \<notin> set ys \<Longrightarrow> rfind c (xs @ c # ys) = Some (length xs)"
  by (induction xs) (auto simp: rfind_absent)

lemma dot_not_digit: "CHR ''.'' \<notin> set (show_nat n)"
  using show_nat_digits [of n] by (auto simp: list_all_iff is_digit_def)

lemma atoi_show_nat: "n < 2147483648 \<Longrightarrow> atoi (show_nat n) = int n"
proof -
  assume n: "n < 2147483648"
  obtain c r where s: "show_nat n = c # r" using show_nat_digits [of n] by (cases "show_nat n") auto
  have d: "list_all is_digit (c # r)" "digits_val (c # r) = n" using show_nat_digits [of n] by (simp_all add: s)
  have "takeWhile is_digit (c # r) = c # r" using d(1) by (simp add: list_all_iff takeWhile_eq_all_conv)
  moreover have "dropWhile is_space (c # r) = c # r" "c \<noteq> CHR ''-''" "c \<noteq> CHR ''+''"
    using d(1) digit_chars [of c] by simp_all
  moreover have "signed_take_bit 31 (int n) = int n" using n by (simp add: signed_take_bit_int_eq_self)
  ultimately show ?thesis using n d(2) by (simp add: atoi_def s Let_def)
qed

abbreviation max_rev :: "revs \<Rightarrow> u64" where
  "max_rev rs \<equiv> snd (snd rs)"

lemma note_revnum_max: "max_rev (note_revnum z ext rs) =
    max (max_rev rs) (if z then word_of_int (atoi ext) + 1 else word_of_int (atoi ext))"
  by (cases rs) (simp add: note_revnum_def Let_def)

lemma internal_mono: "max_rev rs \<le> max_rev (findMinMaxRevNumInternal f rs)"
  by (auto simp: findMinMaxRevNumInternal_def note_revnum_max Let_def split: option.splits)

lemma rev_loop_mono: "max_rev rs \<le> max_rev (rev_loop n fs rs)"
proof (induction fs arbitrary: rs)
  case (Cons f fs)
  show ?case using Cons [of "findMinMaxRevNumInternal f rs"] Cons [of rs] internal_mono [of rs f]
    by (auto intro: order_trans)
qed simp

lemma rev_loop_bound:
  assumes "f \<in> set fs" "sublist n f" "\<And>rs. v \<le> max_rev (findMinMaxRevNumInternal f rs)"
  shows "v \<le> max_rev (rev_loop n fs rs)"
  using assms(1)
proof (induction fs arbitrary: rs)
  case (Cons g fs)
  show ?case
  proof (cases "g = f")
    case True
    then show ?thesis
      using order_trans [OF assms(3) [of rs] rev_loop_mono [of "findMinMaxRevNumInternal f rs" n fs]] assms(2) by simp
  next
    case False
    then show ?thesis using Cons by simp
  qed
qed simp

text \<open>A file of revision \<open>r\<close>, and its archive.\<close>

lemma internal_plain:
  assumes "r < 2147483648"
  shows "word_of_nat r \<le> max_rev (findMinMaxRevNumInternal (n @ ''.'' @ show_nat r) rs)"
proof -
  have "show_nat r \<noteq> ''gz''" using show_nat_digits [of r] by (auto simp: is_digit_def)
  then show ?thesis
    using rfind_last [OF dot_not_digit, of n r]
    by (simp add: findMinMaxRevNumInternal_def note_revnum_max atoi_show_nat [OF assms])
qed

lemma internal_archive:
  assumes "r < 2147483648"
  shows "word_of_nat r + 1 \<le> max_rev (findMinMaxRevNumInternal (n @ ''.'' @ show_nat r @ ''.tar.gz'') rs)"
proof -
  let ?x = "n @ ''.'' @ show_nat r @ ''.tar''"
  have x: "n @ ''.'' @ show_nat r @ ''.tar.gz'' = ?x @ CHR ''.'' # ''gz''" by simp
  have a: "rfind (CHR ''.'') (?x @ CHR ''.'' # ''gz'') = Some (length ?x)" by (rule rfind_last) simp
  have d: "drop (length ?x + 1) (?x @ CHR ''.'' # ''gz'') = ''gz''" by (subst drop_append) simp
  have t: "take (length (?x @ CHR ''.'' # ''gz'') - 7) (?x @ CHR ''.'' # ''gz'') = n @ ''.'' @ show_nat r" by simp
  have b: "rfind (CHR ''.'') (n @ ''.'' @ show_nat r) = Some (length n)" using rfind_last [OF dot_not_digit, of n r] by simp
  have e: "drop (length n + 1) (n @ ''.'' @ show_nat r) = show_nat r" by simp
  show ?thesis
    unfolding findMinMaxRevNumInternal_def x a option.case Let_def d t b e
    by (simp add: note_revnum_max atoi_show_nat [OF assms])
qed

subsection \<open>Starting\<close>

text \<open>
  The entries that \<open>readdir\<close> gives are those of the directory of the log file: a file whose path
  continues the log file's path is listed, by its name.
\<close>

definition listed :: "(string \<Rightarrow> string list option) \<Rightarrow> log_world \<Rightarrow> string \<Rightarrow> bool" where
  "listed readdir w path \<longleftrightarrow> (case split_path path of (dir, name) \<Rightarrow>
     \<forall>s. CHR ''/'' \<notin> set s \<longrightarrow> lw_files w (path @ s) \<noteq> None \<longrightarrow> (\<exists>fs. readdir dir = Some fs \<and> name @ s \<in> set fs))"

lemma slash_not_digit: "CHR ''/'' \<notin> set (show_nat n)"
  using show_nat_digits [of n] by (auto simp: list_all_iff is_digit_def)

lemma listed_revision:
  assumes "listed readdir w path" "CHR ''/'' \<notin> set s" "lw_files w (path @ s) \<noteq> None"
    "\<And>n rs. v \<le> max_rev (findMinMaxRevNumInternal (n @ s) rs)"
  shows "v \<le> snd (findMinMaxRevNum readdir path)"
proof -
  obtain dir name where p: "split_path path = (dir, name)" by (cases "split_path path")
  then obtain fs where "readdir dir = Some fs" "name @ s \<in> set fs" using assms(1-3) by (auto simp: listed_def)
  moreover from this have "v \<le> max_rev (rev_loop name fs (False, 0, 0))"
    using rev_loop_bound [of "name @ s" fs name v] assms(4) by simp
  ultimately show ?thesis using p by (cases "rev_loop name fs (False, 0, 0)") (simp add: findMinMaxRevNum_def)
qed

lemma plain_revision:
  assumes "listed readdir w path" "r < 2147483648" "lw_files w (path @ ''.'' @ show_nat r) \<noteq> None"
  shows "r \<le> unat (snd (findMinMaxRevNum readdir path))"
proof -
  have "word_of_nat r \<le> snd (findMinMaxRevNum readdir path)"
    using listed_revision [OF assms(1) _ assms(3)] internal_plain [OF assms(2)] slash_not_digit by simp
  moreover have "unat (word_of_nat r :: u64) = r" using assms(2) by (intro unat_of_nat_64) simp
  ultimately show ?thesis by (simp add: u64_le_iff)
qed

lemma archived_revision:
  assumes "listed readdir w path" "r < 2147483648" "lw_files w (path @ ''.'' @ show_nat r @ ''.tar.gz'') \<noteq> None"
  shows "r < unat (snd (findMinMaxRevNum readdir path))"
proof -
  have "word_of_nat r + 1 \<le> snd (findMinMaxRevNum readdir path)"
    using listed_revision [OF assms(1) _ assms(3)] internal_archive [OF assms(2)] slash_not_digit by simp
  moreover have "unat (word_of_nat r :: u64) = r" using assms(2) by (intro unat_of_nat_64) simp
  moreover from this have "unat (word_of_nat r + 1 :: u64) = r + 1"
    using unat_Suc_64 [of "word_of_nat r"] assms(2) by simp
  ultimately show ?thesis by (simp add: u64_le_iff)
qed

text \<open>A logger that was not started: nothing in the ring, the stream not open.\<close>

definition fresh_logger :: "(string \<Rightarrow> string list option) \<Rightarrow> nat \<Rightarrow> simple_logger \<Rightarrow> bool" where
  "fresh_logger readdir n lg \<longleftrightarrow> sl_curRevnum lg = snd (findMinMaxRevNum readdir (sl_filePath lg)) \<and> sl_fs lg = ofstream_new \<and>
     sl_logs lg = replicate n log_elem_new \<and> sl_cursor lg = 0 \<and> \<not> sl_flushingLogs lg \<and> sl_curLogLevel lg \<le> 6"

lemma logger_new_fresh:
  assumes "simple_logger_new readdir tz file_path n limit mf = Some (Inr lg)"
  shows "fresh_logger readdir (unat n) lg"
  using assms by (auto simp: simple_logger_new_def fresh_logger_def split: option.splits if_splits prod.splits)

lemma fresh_levels:
  assumes "fresh_logger readdir n lg"
  shows "fresh_logger readdir n (setDispLevel d (setLogLevel l lg))"
  using assms by (auto simp: fresh_logger_def setDispLevel_def setLogLevel_def)

lemma queue_shape_new: "queue_shape (replicate n log_elem_new)"
  by (induction n) (simp_all add: elem_ok_new)

lemma rev_path_stream [simp]: "rev_path (lg\<lparr>sl_fs := fs\<rparr>) = rev_path lg"
  by (rule rev_path_cong) simp

lemma content_mgr [simp]: "content (w\<lparr>lw_mgr := m\<rparr>) = content w"
  by (simp add: content_def fun_eq_iff)

lemma opened_ok:
  assumes lg: "fresh_logger readdir n lg" and n: "n \<noteq> 0"
    and listed: "listed readdir w (sl_filePath lg)" and opens: "\<And>p. lw_openable w p"
    and room: "unat (sl_curRevnum lg) + k < 2147483648"
  defines "p \<equiv> rev_path lg (unat (sl_curRevnum lg))"
  shows "\<exists>fs w1. fs_open (getLogFilePath lg (sl_curRevnum lg)) (sl_fs lg) w = (fs, w1) \<and> \<not> fs_failed fs \<and> lw_mgr w1 = lw_mgr w \<and>
    (\<forall>m. log_ok (unat (sl_curRevnum lg)) k (lg\<lparr>sl_fs := fs\<rparr>, w1\<lparr>lw_mgr := m\<rparr>) \<and>
      log_text (unat (sl_curRevnum lg)) (lg\<lparr>sl_fs := fs\<rparr>, w1\<lparr>lw_mgr := m\<rparr>) = content w p \<and> pending (lg\<lparr>sl_fs := fs\<rparr>) = [])"
proof -
  let ?cur = "unat (sl_curRevnum lg)"
  let ?fs = "\<lparr>fs_path = Some p, fs_failed = False, fs_pos = 0\<rparr>"
  let ?w = "w\<lparr>lw_files := (lw_files w)(p := Some (content w p))\<rparr>"
  have o: "fs_open (getLogFilePath lg (sl_curRevnum lg)) (sl_fs lg) w = (?fs, ?w)"
    using opens lg by (simp add: fresh_logger_def fs_open_def getLogFilePath_rev p_def ofstream_new_def content_def)
  have c: "content ?w q = content w q" for q by (simp add: content_def)
  have free: "content w (rev_path lg r) = []" if "r \<in> {?cur <.. ?cur + k}" for r
  proof -
    have r: "r < 2147483648" "r \<noteq> 0" "?cur < r" using that room by auto
    then have "lw_files w (sl_filePath lg @ ''.'' @ show_nat r) = None"
      using plain_revision [OF listed r(1)] lg unfolding fresh_logger_def by fastforce
    then show ?thesis using r(2) by (simp add: content_def rev_path_def)
  qed
  have "ring_ok (lg\<lparr>sl_fs := ?fs\<rparr>)"
    using lg n by (simp add: fresh_logger_def ring_ok_def slots_def queue_shape_new list_all_iff elem_ok_new)
  moreover have "pending (lg\<lparr>sl_fs := ?fs\<rparr>) = []"
    using lg by (auto simp: fresh_logger_def pending_def slots_def dirty_text_def elem_ok_new)
  moreover have "sl_curLogLevel lg \<le> 6" using lg by (simp add: fresh_logger_def)
  ultimately show ?thesis
    using o room free opens unfolding p_def [symmetric]
    by (intro exI [of _ ?fs] exI [of _ ?w])
      (simp add: log_ok_def Let_def writable_def log_text_def c p_def [symmetric] del: content_update)
qed

lemma log_macro_put: "log_macro E this level file func line body st = put E this level (Some file) (Some func) line body st"
  by (simp add: log_macro_def put_def)

text \<open>A line of \<open>start\<close>.\<close>

definition start_line :: "put_env \<Rightarrow> simple_logger \<Rightarrow> string \<Rightarrow> int \<Rightarrow> nat \<Rightarrow> string \<Rightarrow> string" where
  "start_line E lg file level ln s =
     (if level \<le> sl_curLogLevel lg then stored_line E (sl_tzGap lg) (nat level) (Some file) (Some ''start'') ln s else [])"

lemma start_ok:
  assumes lg: "fresh_logger readdir n lg" and n: "n \<noteq> 0" and path: "sl_filePath lg \<noteq> []"
    and listed: "listed readdir w (sl_filePath lg)" and opens: "\<And>p. lw_openable w p"
    and room: "unat (sl_curRevnum lg) + Suc (Suc k) < 2147483648" and E: "length (pe_msg E) = MSG_SIZE"
  defines "info \<equiv> mg_globalCriticalInfo (fst (get_mgr w))"
  shows "\<exists>lg' w'. start E file lines this (lg, w) = Inr (0, lg', w') \<and> log_ok (unat (sl_curRevnum lg)) k (lg', w') \<and>
    log_text (unat (sl_curRevnum lg)) (lg', w') @ pending lg' =
      content w (rev_path lg (unat (sl_curRevnum lg))) @ start_line E lg file 0 (fst lines) (start_text lg) @
      (if info = [] then [] else start_line E lg file 4 (snd lines) info) \<and>
    length (sl_logs lg') = length (sl_logs lg)"
proof -
  let ?b = "unat (sl_curRevnum lg)" and ?p = "rev_path lg (unat (sl_curRevnum lg))"
  obtain fs w1 where o: "fs_open (getLogFilePath lg (sl_curRevnum lg)) (sl_fs lg) w = (fs, w1)" "\<not> fs_failed fs" "lw_mgr w1 = lw_mgr w"
      "\<And>m. log_ok ?b (Suc (Suc k)) (lg\<lparr>sl_fs := fs\<rparr>, w1\<lparr>lw_mgr := m\<rparr>) \<and>
        log_text ?b (lg\<lparr>sl_fs := fs\<rparr>, w1\<lparr>lw_mgr := m\<rparr>) = content w ?p \<and> pending (lg\<lparr>sl_fs := fs\<rparr>) = []"
    using opened_ok [OF lg n listed opens room] by blast
  let ?lg = "lg\<lparr>sl_fs := fs\<rparr>"
  obtain m where m: "get_mgr w1 = (m, w1\<lparr>lw_mgr := Some m\<rparr>)" "info = mg_globalCriticalInfo m"
    using o(3) by (cases "lw_mgr w") (auto simp: get_mgr_def info_def)
  let ?w = "w1\<lparr>lw_mgr := Some (addLogger this m)\<rparr>"
  have st: "start_text ?lg = start_text lg" by (simp add: start_text_def)
  obtain lg2 w2 where p: "put E this 0 (Some file) (Some ''start'') (fst lines) (start_text lg) (?lg, ?w) = Inr (lg2, w2)"
      "log_ok ?b (Suc k) (lg2, w2)" "same_setup ?lg lg2"
      "log_text ?b (lg2, w2) @ pending lg2 = content w ?p @ start_line E lg file 0 (fst lines) (start_text lg)"
    using put_ok [OF conjunct1 [OF o(4) [of "Some (addLogger this m)"]], of 0 E this "Some file" "Some ''start''" "fst lines" "start_text lg"] E o(4)
    by (auto simp: start_line_def)
  have len: "length (sl_logs lg2) = length (sl_logs lg)" using p(3) by (simp add: same_setup_def)
  show ?thesis
  proof (cases "info = []")
    case True
    then show ?thesis using len o(1,2) m path p log_ok_mono [OF p(2), of k] by (simp add: start_def log_macro_put st Let_def)
  next
    case False
    obtain lg3 w3 where q: "put E this 4 (Some file) (Some ''start'') (snd lines) info (lg2, w2) = Inr (lg3, w3)"
        "log_ok ?b k (lg3, w3)" "same_setup lg2 lg3"
        "log_text ?b (lg3, w3) @ pending lg3 = (log_text ?b (lg2, w2) @ pending lg2) @ start_line E lg file 4 (snd lines) info"
      using put_ok [OF p(2), of 4 E this "Some file" "Some ''start''" "snd lines" info] E p(3)
      by (auto simp: start_line_def same_setup_def)
    then show ?thesis using False len same_setup_def [of lg2 lg3] o(1,2) m path p(1,4) by (simp add: start_def log_macro_put st Let_def)
  qed
qed

text \<open>
  C17. A restarted logger continues its log. Constructed with at least one slot over a directory
  whose entries it sees, and started, it can log at least \<open>k\<close> more revisions; it appends to the
  revision it found, whose old text stays in front of the start message; and that revision is at
  least as new as every log file of the directory and newer than every archive, so no archive is
  ever written again.
\<close>

theorem logger_starts:
  assumes new: "simple_logger_new readdir tz file_path n limit mf = Some (Inr lg0)" and n: "n \<noteq> 0"
    and lg: "lg = setDispLevel d (setLogLevel l lg0)" and path: "sl_filePath lg \<noteq> []"
    and listed: "listed readdir w (sl_filePath lg)" and opens: "\<forall>p. lw_openable w p"
    and room: "unat (sl_curRevnum lg) + Suc (Suc k) < 2147483648" and E: "length (pe_msg E) = MSG_SIZE"
  shows "(\<exists>lg' w'. start E src_file lines this (lg, w) = Inr (0, lg', w') \<and> log_ok (unat (sl_curRevnum lg)) k (lg', w') \<and>
      (\<exists>info. log_text (unat (sl_curRevnum lg)) (lg', w') @ pending lg' =
        content w (getLogFilePath lg (sl_curRevnum lg)) @ start_line E lg src_file 0 (fst lines) (start_text lg) @ info)) \<and>
    (\<forall>r < 2147483648.
      (lw_files w (sl_filePath lg @ ''.'' @ show_nat r) \<noteq> None \<longrightarrow> r \<le> unat (sl_curRevnum lg)) \<and>
      (lw_files w (sl_filePath lg @ ''.'' @ show_nat r @ ''.tar.gz'') \<noteq> None \<longrightarrow> r < unat (sl_curRevnum lg)))"
proof -
  have f: "fresh_logger readdir (unat n) lg" unfolding lg by (intro fresh_levels logger_new_fresh [OF new])
  have n': "unat n \<noteq> 0" using n by (simp add: unat_eq_0)
  have c: "sl_curRevnum lg = snd (findMinMaxRevNum readdir (sl_filePath lg))" using f by (simp add: fresh_logger_def)
  have o: "\<And>p. lw_openable w p" using opens by blast
  show ?thesis
    using start_ok [OF f n' path listed o room E, of src_file lines this] plain_revision [OF listed] archived_revision [OF listed]
    by (simp add: getLogFilePath_rev c) blast
qed

text \<open>A directory with a log file, of revision 3, and the archive of the revision before.\<close>

definition demo_dir :: log_world where
  "demo_dir = \<lparr>lw_files = [''logs/srv.log.3'' \<mapsto> ''old'', ''logs/srv.log.2.tar.gz'' \<mapsto> ''z''], lw_openable = (\<lambda>_. True),
     lw_console = [], lw_mgr = None\<rparr>"

definition demo_readdir :: "string \<Rightarrow> string list option" where
  "demo_readdir d = (if d = ''logs'' then Some [''.'', ''..'', ''srv.log.2.tar.gz'', ''srv.log.3'', ''spl-1.log''] else None)"

definition demo_restarted :: simple_logger where
  "demo_restarted = \<lparr>sl_filePath = ''logs/srv.log'', sl_minRevnum = 2, sl_curRevnum = 3, sl_maxLogFiles = 16,
     sl_fs = ofstream_new, sl_maxLogFileSize = 33554432, sl_numCompJobs = 0, sl_curLogLevel = 4, sl_curDispLevel = 4,
     sl_tzGap = - 300, sl_cursor = 0, sl_logs = replicate 4 log_elem_new, sl_flushingLogs = False\<rparr>"

lemma demo_restarted_new:
  "simple_logger_new demo_readdir (- 300) ''logs//srv.log'' 4 33554432 16 = Some (Inr demo_restarted)"
proof -
  have "find_str ''//'' ''logs//srv.log'' = Some (''logs'', ''srv.log'')" "find_str ''//'' ''srv.log'' = None" by code_simp+
  then have "replaceString ''logs//srv.log'' ''//'' ''/'' = Some ''logs/srv.log''" by (simp add: replaceString_step)
  moreover have "findMinMaxRevNum demo_readdir ''logs/srv.log'' = (2, 3)" by code_simp
  ultimately show ?thesis by (simp add: simple_logger_new_def demo_restarted_def)
qed

lemma demo_listed: "listed demo_readdir demo_dir ''logs/srv.log''"
proof -
  have "split_path ''logs/srv.log'' = (''logs'', ''srv.log'')" by code_simp
  then show ?thesis by (auto simp: listed_def demo_dir_def demo_readdir_def split: if_splits)
qed

theorem logger_starts_witness:
  "\<exists>lg' w' info. start demo_env ''logger.cpp'' (893, 899) 7 (setDispLevel 2 (setLogLevel 4 demo_restarted), demo_dir) = Inr (0, lg', w') \<and>
    log_text 3 (lg', w') @ pending lg' =
      ''old'' @ start_line demo_env (setDispLevel 2 (setLogLevel 4 demo_restarted)) ''logger.cpp'' 0 893 (start_text demo_restarted) @ info"
proof -
  let ?lg = "setDispLevel 2 (setLogLevel 4 demo_restarted)"
  have lg: "sl_filePath ?lg = ''logs/srv.log''" "sl_curRevnum ?lg = 3" "start_text ?lg = start_text demo_restarted"
    by (simp_all add: setDispLevel_def setLogLevel_def demo_restarted_def ofstream_new_def start_text_def)
  have "listed demo_readdir demo_dir (sl_filePath ?lg)" unfolding lg(1) by (rule demo_listed)
  moreover have "\<forall>p. lw_openable demo_dir p" by (simp add: demo_dir_def)
  moreover have "length (pe_msg demo_env) = MSG_SIZE" by (simp add: demo_env_def)
  moreover have "content demo_dir (getLogFilePath ?lg (sl_curRevnum ?lg)) = ''old''"
  proof -
    have "show_nat 3 = ''3''" by code_simp
    then show ?thesis by (simp add: getLogFilePath_rev rev_path_def lg content_def demo_dir_def)
  qed
  ultimately show ?thesis
    using logger_starts [OF demo_restarted_new _ refl, where d = 2 and l = 4 and w = demo_dir and k = 10 and E = demo_env
        and src_file = "''logger.cpp''" and lines = "(893, 899)" and this = 7]
    by (simp add: lg) blast
qed

subsection \<open>Which files are kept\<close>

text \<open>Paths that the shell reads as one word each, and what \<open>rm -f\<close> and \<open>tar\<close> do to files with such paths.\<close>

definition plain_char :: "char \<Rightarrow> bool" where
  "plain_char c \<longleftrightarrow> is_digit c \<or> 65 \<le> (of_char c :: nat) \<and> of_char c \<le> (90 :: nat) \<or>
     97 \<le> (of_char c :: nat) \<and> of_char c \<le> (122 :: nat) \<or> c \<in> set ''./-_''"

definition plain_path :: "string \<Rightarrow> bool" where
  "plain_path p \<longleftrightarrow> p \<noteq> [] \<and> hd p \<noteq> CHR ''-'' \<and> list_all plain_char p"

definition shell_laws :: "(string \<Rightarrow> string) \<Rightarrow> shell \<Rightarrow> bool" where
  "shell_laws tar system \<longleftrightarrow>
     (\<forall>p f. plain_path p \<longrightarrow> system (''rm -f '' @ p @ '' > /dev/null'') f = f(p := None)) \<and>
     (\<forall>p q f. plain_path p \<longrightarrow> plain_path q \<longrightarrow>
        system (''rm -f '' @ p @ '' '' @ q @ '' > /dev/null'') f = f(p := None, q := None)) \<and>
     (\<forall>p f c. plain_path p \<longrightarrow> f p = Some c \<longrightarrow>
        system (''tar zcvf '' @ p @ ''.tar.gz '' @ p @ '' > /dev/null'') f = f(p @ ''.tar.gz'' \<mapsto> tar c))"

abbreviation tar_path :: "simple_logger \<Rightarrow> nat \<Rightarrow> string" where
  "tar_path lg r \<equiv> rev_path lg r @ ''.tar.gz''"

lemma plain_append: "plain_path p \<Longrightarrow> list_all plain_char s \<Longrightarrow> plain_path (p @ s)"
  by (simp add: plain_path_def)

lemma plain_rev_path:
  assumes "plain_path (sl_filePath lg)"
  shows "plain_path (rev_path lg r)" "plain_path (tar_path lg r)"
proof -
  have "list_all plain_char (show_nat r)" using show_nat_digits [of r] by (simp add: list_all_iff plain_char_def)
  then show p: "plain_path (rev_path lg r)" using assms by (simp add: rev_path_def plain_append plain_char_def)
  show "plain_path (tar_path lg r)" by (rule plain_append [OF p]) (simp add: plain_char_def)
qed

lemma not_tar: "rev_path lg r \<noteq> tar_path lg q"
proof
  assume eq: "rev_path lg r = tar_path lg q"
  then have r: "r \<noteq> 0" by (auto simp: rev_path_def split: if_splits)
  have "last (rev_path lg r) = last (show_nat r)" "is_digit (last (show_nat r))"
    using r show_nat_digits [of r] by (auto simp: rev_path_def list_all_iff)
  moreover have "last (tar_path lg q) = CHR ''z''" by simp
  ultimately have "is_digit (CHR ''z'')" using eq by metis
  then show False by (simp add: is_digit_def)
qed

lemma shell_rm:
  "shell_laws tar system \<Longrightarrow> plain_path p \<Longrightarrow> system (''rm -f '' @ p @ '' > /dev/null'') f = f(p := None)"
  unfolding shell_laws_def by blast

lemma shell_rm2:
  "shell_laws tar system \<Longrightarrow> plain_path p \<Longrightarrow> plain_path q \<Longrightarrow>
    system (''rm -f '' @ p @ '' '' @ q @ '' > /dev/null'') f = f(p := None, q := None)"
  unfolding shell_laws_def by blast

lemma shell_tar:
  "shell_laws tar system \<Longrightarrow> plain_path p \<Longrightarrow> f p = Some c \<Longrightarrow>
    system (''tar zcvf '' @ p @ ''.tar.gz '' @ p @ '' > /dev/null'') f = f(p @ ''.tar.gz'' \<mapsto> tar c)"
  unfolding shell_laws_def by blast

text \<open>The loop removes the files and the archives of its range and moves \<open>minRevnum\<close> past it.\<close>

lemma rm_loop_effect:
  assumes "shell_laws tar system" "plain_path (sl_filePath lg)" "unat ii + n < 18446744073709551616"
  shows "rm_loop system n ii (lg, w) =
    (lg\<lparr>sl_minRevnum := if n = 0 then sl_minRevnum lg else ii + word_of_nat n\<rparr>,
     w\<lparr>lw_files := (\<lambda>p. if \<exists>r \<in> {unat ii ..< unat ii + n}. p = rev_path lg r \<or> p = tar_path lg r then None else lw_files w p)\<rparr>)"
  using assms(2,3)
proof (induction n arbitrary: ii lg w)
  case 0
  then show ?case by simp
next
  case (Suc n)
  let ?lg = "lg\<lparr>sl_minRevnum := ii + 1\<rparr>"
  let ?w = "w\<lparr>lw_files := (lw_files w)(rev_path lg (unat ii) := None, tar_path lg (unat ii) := None)\<rparr>"
  have i: "unat (ii + 1) = Suc (unat ii)" using Suc.prems(2) unat_Suc_64 [of ii] by simp
  have p: "rev_path ?lg = rev_path lg" by (rule rev_path_cong) simp
  have e: "execCmd system (''rm -f '' @ rev_path lg (unat ii) @ '' '' @ tar_path lg (unat ii)) w = ?w"
    using shell_rm2 [OF assms(1) plain_rev_path [OF Suc.prems(1), of "unat ii"], of "lw_files w"] by (simp add: execCmd_def)
  have IH: "rm_loop system n (ii + 1) (?lg, ?w) =
    (?lg\<lparr>sl_minRevnum := if n = 0 then sl_minRevnum ?lg else ii + 1 + word_of_nat n\<rparr>,
     ?w\<lparr>lw_files := (\<lambda>p. if \<exists>r \<in> {unat (ii + 1) ..< unat (ii + 1) + n}. p = rev_path ?lg r \<or> p = tar_path ?lg r then None else lw_files ?w p)\<rparr>)"
    using Suc.prems by (intro Suc.IH) (simp_all add: i)
  have range: "{unat ii ..< unat ii + Suc n} = insert (unat ii) {Suc (unat ii) ..< Suc (unat ii) + n}" by auto
  have "rm_loop system (Suc n) ii (lg, w) = rm_loop system n (ii + 1) (?lg, ?w)"
    using e by (simp add: getLogFilePath_rev)
  then show ?case unfolding IH i p range by (auto simp: fun_eq_iff add.assoc)
qed

text \<open>Archiving a revision, before the loop over the older ones.\<close>

lemma doCompression_commands:
  assumes laws: "shell_laws tar system" and plain: "plain_path (sl_filePath lg)" and m: "sl_maxLogFiles lg \<noteq> 0"
    and c: "lw_files w (getLogFilePath lg n) = Some c"
  defines "w1 \<equiv> w\<lparr>lw_files := (lw_files w)(tar_path lg (unat n) \<mapsto> tar c, rev_path lg (unat n) := None)\<rparr>"
  shows "doCompression system n (lg, w) = (case (if n \<ge> sl_maxLogFiles lg
        then rm_loop system (Suc (unat (n - sl_maxLogFiles lg)) - unat (sl_minRevnum lg)) (sl_minRevnum lg) (lg, w1) else (lg, w1)) of
      (lg, w) \<Rightarrow> (lg\<lparr>sl_numCompJobs := sl_numCompJobs lg - 1\<rparr>, w))"
proof -
  let ?p = "rev_path lg (unat n)" and ?t = "tar_path lg (unat n)"
  note pp = plain_rev_path [OF plain, of "unat n"]
  have "execCmd system (''tar zcvf '' @ ?p @ ''.tar.gz '' @ ?p) w = w\<lparr>lw_files := (lw_files w)(?t \<mapsto> tar c)\<rparr>"
    using shell_tar [OF laws pp(1), of "lw_files w" c] c by (simp add: execCmd_def getLogFilePath_rev)
  moreover have "execCmd system (''rm -f '' @ ?p) (w\<lparr>lw_files := (lw_files w)(?t \<mapsto> tar c)\<rparr>) = w1"
    using shell_rm [OF laws pp(1), of "(lw_files w)(?t \<mapsto> tar c)"] by (simp add: execCmd_def w1_def)
  ultimately show ?thesis using m by (simp add: doCompression_def getLogFilePath_rev Let_def split: prod.splits)
qed

text \<open>
  C19. Compressing a revision replaces its file by its archive and keeps the archives of the newest
  \<open>maxLogFiles\<close> revisions: the files and archives of the revisions from \<open>minRevnum\<close> up to \<open>maxLogFiles\<close>
  before it are removed, \<open>minRevnum\<close> moves past them, and every other file is left alone.
\<close>

theorem compression_keeps:
  assumes laws: "shell_laws tar system" and plain: "plain_path (sl_filePath lg)" and m: "sl_maxLogFiles lg \<noteq> 0"
    and c: "lw_files w (getLogFilePath lg n) = Some c" and min: "sl_minRevnum lg \<le> n"
    and r: "doCompression system n (lg, w) = (lg', w')"
  defines "old \<equiv> {q. unat (sl_minRevnum lg) \<le> q \<and> q + unat (sl_maxLogFiles lg) \<le> unat n}"
  shows "lw_files w' (rev_path lg (unat n)) = None \<and> lw_files w' (tar_path lg (unat n)) = Some (tar c) \<and>
    (\<forall>q \<in> old. lw_files w' (rev_path lg q) = None \<and> lw_files w' (tar_path lg q) = None) \<and>
    (\<forall>p. p \<notin> {rev_path lg (unat n), tar_path lg (unat n)} \<union> rev_path lg ` old \<union> tar_path lg ` old \<longrightarrow>
      lw_files w' p = lw_files w p) \<and>
    unat (sl_minRevnum lg') = max (unat (sl_minRevnum lg)) (unat n + 1 - unat (sl_maxLogFiles lg))"
proof -
  let ?p = "rev_path lg (unat n)" and ?t = "tar_path lg (unat n)" and ?m = "unat (sl_maxLogFiles lg)"
  let ?w = "w\<lparr>lw_files := (lw_files w)(?t \<mapsto> tar c, ?p := None)\<rparr>"
  note d = doCompression_commands [OF laws plain m c]
  have m0: "0 < ?m" using m by (simp add: unat_gt_0)
  have le: "unat (sl_minRevnum lg) \<le> unat n" using min by (simp add: u64_le_iff)
  have n_old: "unat n \<notin> old" using m0 by (simp add: old_def)
  have w': "lw_files w' = (\<lambda>p. if \<exists>q \<in> old. p = rev_path lg q \<or> p = tar_path lg q then None else lw_files ?w p) \<and>
      unat (sl_minRevnum lg') = max (unat (sl_minRevnum lg)) (unat n + 1 - ?m)"
  proof (cases "n \<ge> sl_maxLogFiles lg")
    case False
    then have "unat n < ?m" by (simp add: u64_le_iff)
    then show ?thesis using False r d by (auto simp: old_def)
  next
    case True
    then have sub: "unat (n - sl_maxLogFiles lg) = unat n - ?m" "?m \<le> unat n"
      by (simp_all add: u64_le_iff unat_sub)
    let ?k = "Suc (unat n - ?m) - unat (sl_minRevnum lg)"
    have k: "unat (sl_minRevnum lg) + ?k < 18446744073709551616" using unat_lt_2_64 [of n] m0 sub(2) le by linarith
    have range: "{unat (sl_minRevnum lg) ..< unat (sl_minRevnum lg) + ?k} = old" using sub(2) by (auto simp: old_def)
    have "?k < 18446744073709551616" using k by linarith
    then have add: "unat (sl_minRevnum lg + word_of_nat ?k) = unat (sl_minRevnum lg) + ?k"
      using k unat_of_nat_64 [of ?k] unat_add_64 [of "sl_minRevnum lg" "word_of_nat ?k"] by simp
    let ?f = "\<lambda>p. if \<exists>q \<in> old. p = rev_path lg q \<or> p = tar_path lg q then None else lw_files ?w p"
    let ?min = "if ?k = 0 then sl_minRevnum lg else sl_minRevnum lg + word_of_nat ?k"
    obtain lg1 w1 where x: "rm_loop system ?k (sl_minRevnum lg) (lg, ?w) = (lg1, w1)" by fastforce
    have "(lg1, w1) = (lg\<lparr>sl_minRevnum := ?min\<rparr>, ?w\<lparr>lw_files := ?f\<rparr>)"
      unfolding x [symmetric] by (rule rm_loop_effect [OF laws plain k, of ?w, unfolded range])
    then have "sl_minRevnum lg1 = ?min" "lw_files w1 = ?f" by simp_all
    moreover have "lg' = lg1\<lparr>sl_numCompJobs := sl_numCompJobs lg1 - 1\<rparr>" "w' = w1"
      using r [unfolded d sub(1) x] True by simp_all
    ultimately have "lw_files w' = ?f" "sl_minRevnum lg' = ?min" by simp_all
    moreover have "unat ?min = max (unat (sl_minRevnum lg)) (unat n + 1 - ?m)"
      using add sub(2) by (cases "?k = 0") auto
    ultimately show ?thesis by (simp only: simp_thms)
  qed
  then show ?thesis using n_old not_tar not_tar [symmetric] by (auto simp: old_def)
qed

text \<open>A shell that knows the two commands.\<close>

fun chop :: "string \<Rightarrow> string list" where
  "chop [] = [[]]"
| "chop (c # cs) = (if c = CHR '' '' then [] # chop cs else case chop cs of [] \<Rightarrow> [[c]] | w # ws \<Rightarrow> (c # w) # ws)"

definition ref_shell :: shell where
  "ref_shell cmd f =
     (case chop cmd of
        [a, b, p, _, _] \<Rightarrow> if a = ''rm'' then f(p := None) else f
      | [a, b, p, q, _, _] \<Rightarrow>
          if a = ''rm'' then f(p := None, q := None)
          else if a = ''tar'' then (case f q of None \<Rightarrow> f | Some c \<Rightarrow> f(p \<mapsto> CHR ''Z'' # c)) else f
      | _ \<Rightarrow> f)"

lemma chop_word: "CHR '' '' \<notin> set p \<Longrightarrow> chop (p @ CHR '' '' # s) = p # chop s"
  by (induction p) auto

lemma plain_no_blank: "plain_path p \<Longrightarrow> CHR '' '' \<notin> set p"
  by (auto simp: plain_path_def list_all_iff plain_char_def is_digit_def)

lemma ref_shell_laws: "shell_laws (\<lambda>c. CHR ''Z'' # c) ref_shell"
proof -
  have tar: "chop (p @ CHR ''.'' # CHR ''t'' # CHR ''a'' # CHR ''r'' # CHR ''.'' # CHR ''g'' # CHR ''z'' # CHR '' '' # s) =
      (p @ ''.tar.gz'') # chop s" if "plain_path p" for p s
    using chop_word [of "p @ ''.tar.gz''" s] plain_no_blank [OF that] by simp
  show ?thesis by (simp add: shell_laws_def ref_shell_def chop_word plain_no_blank tar)
qed

theorem compression_keeps_witness:
  "\<exists>lg' w'. doCompression ref_shell 4 (demo_restarted\<lparr>sl_maxLogFiles := 2\<rparr>,
      demo_dir\<lparr>lw_files := [''logs/srv.log.2.tar.gz'' \<mapsto> ''two'', ''logs/srv.log.3.tar.gz'' \<mapsto> ''three'', ''logs/srv.log.4'' \<mapsto> ''four'']\<rparr>) = (lg', w') \<and>
    lw_files w' ''logs/srv.log.2.tar.gz'' = None \<and> lw_files w' ''logs/srv.log.3.tar.gz'' = Some ''three'' \<and>
    lw_files w' ''logs/srv.log.4'' = None \<and> lw_files w' ''logs/srv.log.4.tar.gz'' = Some ''Zfour'' \<and> unat (sl_minRevnum lg') = 3"
proof -
  let ?lg = "demo_restarted\<lparr>sl_maxLogFiles := 2\<rparr>"
  let ?w = "demo_dir\<lparr>lw_files := [''logs/srv.log.2.tar.gz'' \<mapsto> ''two'', ''logs/srv.log.3.tar.gz'' \<mapsto> ''three'', ''logs/srv.log.4'' \<mapsto> ''four'']\<rparr>"
  have n: "show_nat 2 = ''2''" "show_nat 3 = ''3''" "show_nat 4 = ''4''" by code_simp+
  have p: "rev_path ?lg 2 = ''logs/srv.log.2''" "rev_path ?lg 3 = ''logs/srv.log.3''" "rev_path ?lg 4 = ''logs/srv.log.4''"
    by (simp_all add: rev_path_def demo_restarted_def n)
  have plain: "plain_path (sl_filePath ?lg)" by (simp add: demo_restarted_def plain_path_def plain_char_def is_digit_def)
  have c: "lw_files ?w (getLogFilePath ?lg 4) = Some ''four''" by (simp add: getLogFilePath_rev p)
  obtain lg' w' where r: "doCompression ref_shell 4 (?lg, ?w) = (lg', w')" by fastforce
  have old: "{q. unat (sl_minRevnum ?lg) \<le> q \<and> q + unat (sl_maxLogFiles ?lg) \<le> unat (4 :: u64)} = {2 :: nat}"
    by (auto simp: demo_restarted_def)
  have min: "sl_minRevnum demo_restarted = 2" by (simp add: demo_restarted_def)
  have "sl_maxLogFiles ?lg \<noteq> 0" "sl_minRevnum ?lg \<le> 4" by (simp_all add: demo_restarted_def)
  from compression_keeps [OF ref_shell_laws plain this(1) c this(2) r, unfolded old] show ?thesis
    using r by (simp add: p min)
qed

end
