(* ===== verification/Raft_Logger.thy ===== *)
theory Raft_Logger
  imports Replica Logger_Files
begin

section \<open>The logger of a replica\<close>

text \<open>
  How the constructor of \<open>replica\<close> builds and starts its \<open>SimpleLogger\<close> (\<open>src/server/replica.cpp\<close>): the
  composition of the setup in \<open>Replica\<close> with the logger of \<open>Logger\<close>. The file size limit and the
  number of files are the defaults of \<open>logger.h\<close>.
\<close>

text \<open>
  \<open>None\<close> would be a path whose clean-up does not end; an exception of the constructor leaves the
  constructor of the replica; what \<open>start\<close> returns is not looked at by the code.
\<close>

definition start_raft_logger :: "(string \<Rightarrow> string list option) \<Rightarrow> int \<Rightarrow> put_env \<Rightarrow> string \<Rightarrow> nat \<times> nat \<Rightarrow> nat \<Rightarrow>
    logger_setup \<Rightarrow> log_world \<Rightarrow> (log_error + int \<times> log_st) res option" where
  "start_raft_logger readdir tz E src_file lines this L w =
     map_option (\<lambda>r. rbind r (\<lambda>lg.
        let lg = setLogLevel (lg_log_level L) lg;
            lg = setDispLevel (lg_disp_level L) lg;
            w = setCrashDumpPath ''.logs'' True w
        in Inr (start E src_file lines this (lg, w))))
      (simple_logger_new readdir tz (lg_file_path L) (lg_max_log_elems L) 33554432 16)"

text \<open>What the constructor of the replica passes for a log level and a display level.\<close>

definition raft_logger_setup :: "string \<Rightarrow> LogLevel \<Rightarrow> LogLevel \<Rightarrow> logger_setup" where
  "raft_logger_setup path level display =
     \<lparr>lg_file_path = path, lg_max_log_elems = word_of_int (log_level_int level),
      lg_log_level = log_level_int level, lg_disp_level = log_level_int display\<rparr>"

lemma replica_logger_setup:
  assumes "replica_new N C D R ea config = Inr rp"
  shows "\<exists>path. rp_logger rp = raft_logger_setup path (cfg_log_level config) (cfg_display_level config)"
  using assms by (auto simp: replica_new_def raft_logger_setup_def Let_def rbind_eq_Inr split: if_splits)

lemma setCrashDumpPath_files [simp]:
  "lw_files (setCrashDumpPath p b w) = lw_files w" "lw_openable (setCrashDumpPath p b w) = lw_openable w"
  "content (setCrashDumpPath p b w) = content w"
  by (auto simp: setCrashDumpPath_def get_mgr_def content_def split: option.splits)

lemma fs_open_new:
  "lw_openable w p \<Longrightarrow> \<exists>w1. fs_open p ofstream_new w = (\<lparr>fs_path = Some p, fs_failed = False, fs_pos = 0\<rparr>, w1)"
  by (simp add: fs_open_def ofstream_new_def)

text \<open>With an empty ring the first message of \<open>start\<close> divides by zero.\<close>

lemma start_empty_ring:
  assumes "fresh_logger readdir 0 lg" "sl_filePath lg \<noteq> []" "0 \<le> sl_curLogLevel lg" "\<And>p. lw_openable w p"
  shows "start E src_file lines this (lg, w) = Inl Empty_ring"
proof -
  have lg: "sl_fs lg = ofstream_new" "sl_logs lg = []" "sl_curLogLevel lg \<le> 6" using assms(1) by (simp_all add: fresh_logger_def)
  obtain w1 where o: "fs_open (getLogFilePath lg (sl_curRevnum lg)) ofstream_new w =
      (\<lparr>fs_path = Some (getLogFilePath lg (sl_curRevnum lg)), fs_failed = False, fs_pos = 0\<rparr>, w1)"
    using fs_open_new [OF assms(4)] by blast
  show ?thesis
    using assms(2,3) lg by (simp add: start_def o Let_def log_macro_put put_def put_ring_def split: prod.splits)
qed

lemma level_number:
  assumes "level \<noteq> DISABLED"
  shows "0 \<le> log_level_int level" "log_level_int level \<le> 99" "log_level_int level = 0 \<longleftrightarrow> level = SYS"
    "unat (word_of_int (log_level_int level) :: u64) = nat (log_level_int level)"
proof -
  show lv: "0 \<le> log_level_int level" "log_level_int level \<le> 99" "log_level_int level = 0 \<longleftrightarrow> level = SYS"
    using assms by (cases level; simp)+
  then have "uint (word_of_int (log_level_int level) :: u64) = log_level_int level"
    by (simp add: uint_word_of_int take_bit_int_eq_self)
  then show "unat (word_of_int (log_level_int level) :: u64) = nat (log_level_int level)" by (metis unat_eq_nat_uint)
qed

text \<open>
  C26. The replica passes its log level as the number of slots of the logger's ring. With level
  \<open>SYS\<close> the ring is empty and starting the logger divides by zero; with level \<open>DISABLED\<close> the
  constructor throws \<open>length_error\<close>; with every other level the logger starts with as many slots
  as the level's number (4 for the default \<open>INFO\<close>) instead of the 4096 of \<open>logger.h\<close>.
\<close>

theorem raft_logger_levels:
  assumes opens: "\<forall>p. lw_openable w p" and E: "length (pe_msg E) = MSG_SIZE"
    and path: "replaceString path ''//'' ''/'' = Some p" "p \<noteq> []" and listed: "listed readdir w p"
    and room: "unat (snd (findMinMaxRevNum readdir p)) + 2 < 2147483648"
    and res: "start_raft_logger readdir tz E src_file lines this (raft_logger_setup path level display) w = res"
  shows "(level = SYS \<longrightarrow> res = Some (Inr (Inl Empty_ring))) \<and>
    (level = DISABLED \<longrightarrow> res = Some (Inl Length_error)) \<and>
    (level \<noteq> SYS \<and> level \<noteq> DISABLED \<longrightarrow>
      (\<exists>lg w'. res = Some (Inr (Inr (0, lg, w'))) \<and> length (sl_logs lg) = nat (log_level_int level) \<and>
        ring_ok lg))"
proof -
  have o: "\<And>q. lw_openable (setCrashDumpPath ''.logs'' True w) q" using opens by simp
  have listed': "listed readdir (setCrashDumpPath ''.logs'' True w) p" using listed by (simp add: listed_def)
  have dis: "unat (- 1 :: u64) = 18446744073709551615" by (simp add: unsigned_minus_1_eq_mask mask_eq_exp_minus_1)
  show ?thesis
  proof (cases "level = DISABLED")
    case True
    then show ?thesis
      using res by (auto simp: start_raft_logger_def raft_logger_setup_def simple_logger_new_def path dis)
  next
    case False
    note lv = level_number [OF False] and n = level_number(4) [OF False]
    have "unat (word_of_int (log_level_int level) :: u64) \<le> 9223372036854775807 div 4112" using lv(2) n by simp
    then obtain lg0 where new: "simple_logger_new readdir tz path (word_of_int (log_level_int level)) 33554432 16 = Some (Inr lg0)"
        "sl_filePath lg0 = p" "sl_curLogLevel lg0 = 4"
      using path(1) by (cases "findMinMaxRevNum readdir p") (auto simp: simple_logger_new_def)
    let ?lg = "setDispLevel (log_level_int display) (setLogLevel (log_level_int level) lg0)"
    have f: "fresh_logger readdir (nat (log_level_int level)) ?lg"
      using fresh_levels [OF logger_new_fresh [OF new(1)]] n by simp
    have p: "sl_filePath ?lg = p" "0 \<le> sl_curLogLevel ?lg" using new(2,3) lv(1) by (simp_all add: setDispLevel_def setLogLevel_def)
    have cur: "sl_curRevnum ?lg = snd (findMinMaxRevNum readdir p)" using f p(1) by (simp add: fresh_logger_def)
    have r: "res = Some (Inr (start E src_file lines this (?lg, setCrashDumpPath ''.logs'' True w)))"
      using new(1) res by (auto simp: start_raft_logger_def raft_logger_setup_def Let_def)
    show ?thesis
    proof (cases "level = SYS")
      case True
      then show ?thesis using start_empty_ring [OF _ _ p(2) o] f p(1) path(2) r by simp
    next
      case False
      then have n0: "nat (log_level_int level) \<noteq> 0" using lv by auto
      have "unat (sl_curRevnum ?lg) + Suc (Suc 0) < 2147483648" using room cur by simp
      from start_ok [OF f n0 _ _ o this E, of src_file lines this] obtain lg w' where
          s: "start E src_file lines this (?lg, setCrashDumpPath ''.logs'' True w) = Inr (0, lg, w')"
            "log_ok (unat (sl_curRevnum ?lg)) 0 (lg, w')" "length (sl_logs lg) = length (sl_logs ?lg)"
        using path(2) listed' unfolding p(1) by auto
      moreover have "length (sl_logs ?lg) = nat (log_level_int level)" using f by (simp add: fresh_logger_def)
      ultimately show ?thesis using False \<open>level \<noteq> DISABLED\<close> r by (simp add: log_ok_def Let_def)
    qed
  qed
qed

text \<open>The default level over the directory of \<open>Logger_Files\<close>, and the two levels that fail there.\<close>

theorem raft_logger_levels_witness:
  "start_raft_logger demo_readdir (- 300) demo_env ''logger.cpp'' (893, 899) 7
      (raft_logger_setup ''logs//srv.log'' SYS WARNING) demo_dir = Some (Inr (Inl Empty_ring)) \<and>
   (\<exists>lg w'. start_raft_logger demo_readdir (- 300) demo_env ''logger.cpp'' (893, 899) 7
      (raft_logger_setup ''logs//srv.log'' INFO WARNING) demo_dir = Some (Inr (Inr (0, lg, w'))) \<and> length (sl_logs lg) = 4)"
proof -
  have find: "find_str ''//'' ''logs//srv.log'' = Some (''logs'', ''srv.log'')" "find_str ''//'' ''srv.log'' = None" by code_simp+
  then have path: "replaceString ''logs//srv.log'' ''//'' ''/'' = Some ''logs/srv.log''" by (simp add: replaceString_step)
  have "findMinMaxRevNum demo_readdir ''logs/srv.log'' = (2, 3)" by code_simp
  then have room: "unat (snd (findMinMaxRevNum demo_readdir ''logs/srv.log'')) + 2 < 2147483648" by simp
  have opens: "\<forall>p. lw_openable demo_dir p" by (simp add: demo_dir_def)
  have E: "length (pe_msg demo_env) = MSG_SIZE" by (simp add: demo_env_def)
  have ne: "''logs/srv.log'' \<noteq> ([] :: string)" by simp
  note levels = raft_logger_levels [OF opens E path ne demo_listed room refl, where tz = "- 300" and src_file = "''logger.cpp''"
      and lines = "(893, 899)" and this = 7 and display = WARNING]
  show ?thesis using levels [of SYS] levels [of INFO] by auto
qed

end
