(* ===== verification/Logger_Steps.thy ===== *)
theory Logger_Steps
  imports Logger "HOL-Library.Multiset"
begin

section \<open>Threads that share the logger's ring\<close>

text \<open>
  \<open>SimpleLogger::put\<close>, \<open>flush\<close>, \<open>LogElem::write\<close> and \<open>LogElem::flush\<close> as interleaved atomic steps of
  any number of threads: the NuRaft threads that call \<open>put\<close>, and the manager's flushing thread,
  which calls \<open>flushAll\<close>. A step is one access to a shared variable: the cursor, the status of a
  slot, its contents, the lock \<open>flushingLogs\<close> or the file. Loads and compare-and-swaps of one atomic
  variable are taken in one order for all threads, as the language guarantees. A spinning thread
  has no step until its condition holds.
\<close>

subsection \<open>Program points\<close>

text \<open>
  The slot that a \<open>put\<close> has claimed and its line; for a flush the slots still to visit, and the \<open>put\<close>
  it returns to (none for \<open>flushAll\<close>). \<open>At_out\<close> also carries the line that the slot held when it was
  taken, for the accounting below; what is written is the contents of the slot.
\<close>

datatype pc =
    Idle
  | At_available nat string
  | At_test nat string
  | At_lock nat string
  | At_wait nat string
  | At_write nat string
  | At_memcpy nat string
  | At_dirty nat string
  | At_flush "nat list" "(nat \<times> string) option"
  | At_out nat string "nat list" "(nat \<times> string) option"
  | At_clean nat "nat list" "(nat \<times> string) option"

text \<open>The shared variables, and three lists for the accounting: lines given to \<open>put\<close>, written, and dropped.\<close>

record ring_sh =
  rs_cursor :: nat
  rs_status :: "log_status list"
  rs_ctx :: "string list"
  rs_lock :: "nat option"
  rs_put :: "string list"
  rs_file :: "string list"
  rs_lost :: "string list"

fun after_flush :: "(nat \<times> string) option \<Rightarrow> pc" where
  "after_flush None = Idle"
| "after_flush (Some (i, m)) = At_write i m"

definition flush_order :: "nat \<Rightarrow> nat \<Rightarrow> nat list" where
  "flush_order start_pos num = [start_pos ..< num] @ [0 ..< start_pos]"

text \<open>The steps of thread \<open>t\<close>.\<close>

inductive tstep :: "nat \<Rightarrow> pc \<Rightarrow> ring_sh \<Rightarrow> pc \<Rightarrow> ring_sh \<Rightarrow> bool" for t where
  claim: "tstep t Idle s (At_available (rs_cursor s) m)
    (s\<lparr>rs_cursor := (rs_cursor s + 1) mod length (rs_status s), rs_put := rs_put s @ [m]\<rparr>)"
| available: "rs_status s ! i \<in> {CLEAN, DIRTY} \<Longrightarrow> tstep t (At_available i m) s (At_test i m) s"
| test_dirty: "rs_status s ! i = DIRTY \<Longrightarrow> tstep t (At_test i m) s (At_lock i m) s"
| test_clean: "rs_status s ! i \<noteq> DIRTY \<Longrightarrow> tstep t (At_test i m) s (At_write i m) s"
| lock: "rs_lock s = None \<Longrightarrow>
    tstep t (At_lock i m) s (At_flush (flush_order i (length (rs_status s))) (Some (i, m))) (s\<lparr>rs_lock := Some t\<rparr>)"
| lock_busy: "tstep t (At_lock i m) s (At_wait i m) s"
| waited: "rs_status s ! i \<noteq> DIRTY \<Longrightarrow> tstep t (At_wait i m) s (At_write i m) s"
| write_ok: "rs_status s ! i = CLEAN \<Longrightarrow>
    tstep t (At_write i m) s (At_memcpy i m) (s\<lparr>rs_status := (rs_status s)[i := WRITING]\<rparr>)"
| write_fails: "rs_status s ! i \<noteq> CLEAN \<Longrightarrow> tstep t (At_write i m) s Idle (s\<lparr>rs_lost := rs_lost s @ [m]\<rparr>)"
| memcpy: "tstep t (At_memcpy i m) s (At_dirty i m) (s\<lparr>rs_ctx := (rs_ctx s)[i := m]\<rparr>)"
| dirty: "tstep t (At_dirty i m) s Idle (s\<lparr>rs_status := (rs_status s)[i := DIRTY]\<rparr>)"
| flush_all: "rs_lock s = None \<Longrightarrow>
    tstep t Idle s (At_flush (flush_order (rs_cursor s) (length (rs_status s))) None) (s\<lparr>rs_lock := Some t\<rparr>)"
| flush_hit: "rs_status s ! i = DIRTY \<Longrightarrow>
    tstep t (At_flush (i # is) k) s (At_out i (rs_ctx s ! i) is k) (s\<lparr>rs_status := (rs_status s)[i := FLUSHING]\<rparr>)"
| flush_skip: "rs_status s ! i \<noteq> DIRTY \<Longrightarrow> tstep t (At_flush (i # is) k) s (At_flush is k) s"
| out: "tstep t (At_out i m is k) s (At_clean i is k) (s\<lparr>rs_file := rs_file s @ [rs_ctx s ! i]\<rparr>)"
| clean: "tstep t (At_clean i is k) s (At_flush is k) (s\<lparr>rs_status := (rs_status s)[i := CLEAN]\<rparr>)"
| unlock: "tstep t (At_flush [] k) s (after_flush k) (s\<lparr>rs_lock := None\<rparr>)"

text \<open>The system of the threads \<open>T\<close> over a ring of \<open>num\<close> slots.\<close>

type_synonym ring_sys = "ring_sh \<times> (nat \<Rightarrow> pc)"

definition ring_init :: "nat \<Rightarrow> ring_sys" where
  "ring_init num = (\<lparr>rs_cursor = 0, rs_status = replicate num CLEAN, rs_ctx = replicate num [], rs_lock = None,
     rs_put = [], rs_file = [], rs_lost = []\<rparr>, \<lambda>_. Idle)"

inductive ring_reach :: "nat set \<Rightarrow> nat \<Rightarrow> ring_sys \<Rightarrow> bool" for T num where
  init: "ring_reach T num (ring_init num)"
| step: "ring_reach T num (s, pcs) \<Longrightarrow> t \<in> T \<Longrightarrow> tstep t (pcs t) s p s' \<Longrightarrow> ring_reach T num (s', pcs(t := p))"

inductive_simps tstep_idle: "tstep t Idle s p s'"
inductive_simps tstep_at_available: "tstep t (At_available i m) s p s'"
inductive_simps tstep_at_wait: "tstep t (At_wait i m) s p s'"
inductive_simps tstep_at_write: "tstep t (At_write i m) s p s'"

subsection \<open>Who works on a slot\<close>

fun writer :: "pc \<Rightarrow> nat \<Rightarrow> bool" where
  "writer (At_memcpy i m) j \<longleftrightarrow> i = j"
| "writer (At_dirty i m) j \<longleftrightarrow> i = j"
| "writer _ j \<longleftrightarrow> False"

fun flusher :: "pc \<Rightarrow> nat \<Rightarrow> bool" where
  "flusher (At_out i m is k) j \<longleftrightarrow> i = j"
| "flusher (At_clean i is k) j \<longleftrightarrow> i = j"
| "flusher _ j \<longleftrightarrow> False"

fun holds_lock :: "pc \<Rightarrow> bool" where
  "holds_lock (At_flush is k) \<longleftrightarrow> True"
| "holds_lock (At_out i m is k) \<longleftrightarrow> True"
| "holds_lock (At_clean i is k) \<longleftrightarrow> True"
| "holds_lock _ \<longleftrightarrow> False"

definition cont_ok :: "nat \<Rightarrow> (nat \<times> string) option \<Rightarrow> bool" where
  "cont_ok num k \<longleftrightarrow> (case k of None \<Rightarrow> True | Some (i, m) \<Rightarrow> i < num)"

text \<open>The slots of a program point are slots of the ring.\<close>

fun pc_ok :: "nat \<Rightarrow> pc \<Rightarrow> bool" where
  "pc_ok num Idle \<longleftrightarrow> True"
| "pc_ok num (At_flush is k) \<longleftrightarrow> (\<forall>i \<in> set is. i < num) \<and> cont_ok num k"
| "pc_ok num (At_out i m is k) \<longleftrightarrow> i < num \<and> (\<forall>i \<in> set is. i < num) \<and> cont_ok num k"
| "pc_ok num (At_clean i is k) \<longleftrightarrow> i < num \<and> (\<forall>i \<in> set is. i < num) \<and> cont_ok num k"
| "pc_ok num (At_available i m) \<longleftrightarrow> i < num"
| "pc_ok num (At_test i m) \<longleftrightarrow> i < num"
| "pc_ok num (At_lock i m) \<longleftrightarrow> i < num"
| "pc_ok num (At_wait i m) \<longleftrightarrow> i < num"
| "pc_ok num (At_write i m) \<longleftrightarrow> i < num"
| "pc_ok num (At_memcpy i m) \<longleftrightarrow> i < num"
| "pc_ok num (At_dirty i m) \<longleftrightarrow> i < num"

definition shape_inv :: "nat \<Rightarrow> ring_sys \<Rightarrow> bool" where
  "shape_inv num = (\<lambda>(s, pcs). length (rs_status s) = num \<and> length (rs_ctx s) = num \<and> rs_cursor s < num \<and> (\<forall>t. pc_ok num (pcs t)))"

definition lock_inv :: "ring_sys \<Rightarrow> bool" where
  "lock_inv = (\<lambda>(s, pcs). \<forall>t. holds_lock (pcs t) \<longleftrightarrow> rs_lock s = Some t)"

definition status_inv :: "ring_sys \<Rightarrow> bool" where
  "status_inv = (\<lambda>(s, pcs).
     (\<forall>i < length (rs_status s). (rs_status s ! i = WRITING \<longleftrightarrow> (\<exists>t. writer (pcs t) i)) \<and>
       (rs_status s ! i = FLUSHING \<longleftrightarrow> (\<exists>t. flusher (pcs t) i))) \<and>
     (\<forall>i t t'. writer (pcs t) i \<longrightarrow> writer (pcs t') i \<longrightarrow> t = t'))"

lemma after_flush_pc [simp]:
  "holds_lock (after_flush k) \<longleftrightarrow> False" "writer (after_flush k) i \<longleftrightarrow> False" "flusher (after_flush k) i \<longleftrightarrow> False"
  "cont_ok num k \<Longrightarrow> pc_ok num (after_flush k)"
  by (cases k; auto simp: cont_ok_def)+

lemma flush_order_less: "c < num \<Longrightarrow> i \<in> set (flush_order c num) \<Longrightarrow> i < num"
  by (auto simp: flush_order_def)

lemma shape_inv_step:
  assumes "shape_inv num (s, pcs)" "tstep t (pcs t) s p s'"
  shows "shape_inv num (s', pcs(t := p))"
proof -
  have inv: "length (rs_status s) = num" "length (rs_ctx s) = num" "rs_cursor s < num" "pc_ok num (pcs t)" "\<And>u. pc_ok num (pcs u)"
    using assms(1) by (auto simp: shape_inv_def)
  have "length (rs_status s') = num \<and> length (rs_ctx s') = num \<and> rs_cursor s' < num \<and> pc_ok num p"
    using assms(2) inv(1-4) by cases (auto simp: cont_ok_def dest: flush_order_less)
  then show ?thesis using inv(5) by (simp add: shape_inv_def)
qed

lemma flusher_holds: "flusher p i \<Longrightarrow> holds_lock p"
  by (cases p) auto

lemma lock_inv_step:
  assumes "lock_inv (s, pcs)" "tstep t (pcs t) s p s'"
  shows "lock_inv (s', pcs(t := p))"
proof -
  have inv: "holds_lock (pcs u) \<longleftrightarrow> rs_lock s = Some u" for u using assms(1) by (simp add: lock_inv_def)
  show ?thesis using assms(2) inv inv [of t] by cases (auto simp: lock_inv_def)
qed

text \<open>Other threads that work on a slot, for the case analysis of a step.\<close>

definition others_write :: "(nat \<Rightarrow> pc) \<Rightarrow> nat \<Rightarrow> nat \<Rightarrow> bool" where
  "others_write pcs t i \<longleftrightarrow> (\<exists>u. u \<noteq> t \<and> writer (pcs u) i)"

definition others_flush :: "(nat \<Rightarrow> pc) \<Rightarrow> nat \<Rightarrow> nat \<Rightarrow> bool" where
  "others_flush pcs t i \<longleftrightarrow> (\<exists>u. u \<noteq> t \<and> flusher (pcs u) i)"

lemma ex_writer: "(\<exists>u. writer (pcs u) i) \<longleftrightarrow> writer (pcs t) i \<or> others_write pcs t i"
  by (auto simp: others_write_def)

lemma ex_flusher: "(\<exists>u. flusher (pcs u) i) \<longleftrightarrow> flusher (pcs t) i \<or> others_flush pcs t i"
  by (auto simp: others_flush_def)

lemma others_update [simp]:
  "others_write (pcs(t := p)) t i = others_write pcs t i" "others_flush (pcs(t := p)) t i = others_flush pcs t i"
  by (auto simp: others_write_def others_flush_def)

text \<open>The invariant, seen from one thread: its own work and that of the others exclude each other.\<close>

lemma status_inv_view:
  assumes "status_inv (s, pcs)" "lock_inv (s, pcs)"
  shows "\<And>i. i < length (rs_status s) \<Longrightarrow> rs_status s ! i = WRITING \<longleftrightarrow> writer (pcs t) i \<or> others_write pcs t i"
    "\<And>i. i < length (rs_status s) \<Longrightarrow> rs_status s ! i = FLUSHING \<longleftrightarrow> flusher (pcs t) i \<or> others_flush pcs t i"
    "\<And>i. writer (pcs t) i \<Longrightarrow> \<not> others_write pcs t i"
    "\<And>i. holds_lock (pcs t) \<Longrightarrow> \<not> others_flush pcs t i"
proof -
  show "\<And>i. i < length (rs_status s) \<Longrightarrow> rs_status s ! i = WRITING \<longleftrightarrow> writer (pcs t) i \<or> others_write pcs t i"
    "\<And>i. i < length (rs_status s) \<Longrightarrow> rs_status s ! i = FLUSHING \<longleftrightarrow> flusher (pcs t) i \<or> others_flush pcs t i"
    using assms(1) unfolding status_inv_def prod.case ex_writer [of pcs _ t] ex_flusher [of pcs _ t] by blast+
  show "\<And>i. writer (pcs t) i \<Longrightarrow> \<not> others_write pcs t i"
    using assms(1) unfolding status_inv_def prod.case others_write_def by blast
  show "\<And>i. holds_lock (pcs t) \<Longrightarrow> \<not> others_flush pcs t i"
    using assms(2) flusher_holds unfolding lock_inv_def prod.case others_flush_def by (metis option.inject)
qed

lemma status_inv_step:
  assumes "shape_inv num (s, pcs)" "lock_inv (s, pcs)" "status_inv (s, pcs)" "tstep t (pcs t) s p s'"
  shows "status_inv (s', pcs(t := p))"
proof -
  note view = status_inv_view [OF assms(3,2), where t = t]
  have ok: "pc_ok (length (rs_status s)) (pcs t)" using assms(1) by (auto simp: shape_inv_def)
  have st: "(rs_status s' ! i = WRITING \<longleftrightarrow> writer p i \<or> others_write pcs t i) \<and>
      (rs_status s' ! i = FLUSHING \<longleftrightarrow> flusher p i \<or> others_flush pcs t i)" if "i < length (rs_status s')" for i
  proof -
    have "length (rs_status s') = length (rs_status s)" using assms(4) by cases simp_all
    then have i: "i < length (rs_status s)" using that by simp
    show ?thesis
      using assms(4) view(1) [OF i] view(2) [OF i] view(3) [of i] view(4) [of i] ok i
      by cases (auto simp: nth_list_update)
  qed
  have new: "writer p i \<Longrightarrow> \<not> others_write pcs t i" for i
    using assms(4) view(3) [of i] view(1) [of i] ok by cases auto
  have "u = u'" if "writer ((pcs(t := p)) u) i" "writer ((pcs(t := p)) u') i" for u u' i
  proof -
    have old: "\<And>u u'. writer (pcs u) i \<Longrightarrow> writer (pcs u') i \<Longrightarrow> u = u'" using assms(3) by (simp add: status_inv_def)
    have new': "writer p i \<Longrightarrow> v \<noteq> t \<Longrightarrow> \<not> writer (pcs v) i" for v using new [of i] unfolding others_write_def by blast
    show ?thesis using that old [of u u'] new' [of u] new' [of u'] by (cases "u = t"; cases "u' = t") simp_all
  qed
  moreover have "(\<exists>u. writer ((pcs(t := p)) u) i) \<longleftrightarrow> writer p i \<or> others_write pcs t i"
      "(\<exists>u. flusher ((pcs(t := p)) u) i) \<longleftrightarrow> flusher p i \<or> others_flush pcs t i" for i
    using ex_writer [of "pcs(t := p)" i t] ex_flusher [of "pcs(t := p)" i t] by (simp_all only: others_update fun_upd_same)
  ultimately show ?thesis using st unfolding status_inv_def prod.case by blast
qed

subsection \<open>Where a line is\<close>

text \<open>A slot that is being published or written out holds the line of its thread.\<close>

definition ctx_inv :: "ring_sys \<Rightarrow> bool" where
  "ctx_inv = (\<lambda>(s, pcs). (\<forall>t i m. pcs t = At_dirty i m \<longrightarrow> rs_ctx s ! i = m) \<and>
     (\<forall>t i m is k. pcs t = At_out i m is k \<longrightarrow> rs_ctx s ! i = m))"

fun cont_lines :: "(nat \<times> string) option \<Rightarrow> string multiset" where
  "cont_lines None = {#}"
| "cont_lines (Some (i, m)) = {#m#}"

text \<open>The lines that a thread carries, and those that wait in the ring.\<close>

fun flight :: "pc \<Rightarrow> string multiset" where
  "flight Idle = {#}"
| "flight (At_available i m) = {#m#}"
| "flight (At_test i m) = {#m#}"
| "flight (At_lock i m) = {#m#}"
| "flight (At_wait i m) = {#m#}"
| "flight (At_write i m) = {#m#}"
| "flight (At_memcpy i m) = {#m#}"
| "flight (At_dirty i m) = {#m#}"
| "flight (At_flush is k) = cont_lines k"
| "flight (At_out i m is k) = {#m#} + cont_lines k"
| "flight (At_clean i is k) = cont_lines k"

definition slot_lines :: "ring_sh \<Rightarrow> nat \<Rightarrow> string multiset" where
  "slot_lines s i = (if rs_status s ! i = DIRTY then {#rs_ctx s ! i#} else {#})"

definition ring_lines :: "ring_sh \<Rightarrow> string multiset" where
  "ring_lines s = (\<Sum>i < length (rs_status s). slot_lines s i)"

definition conserved :: "nat set \<Rightarrow> ring_sys \<Rightarrow> bool" where
  "conserved T = (\<lambda>(s, pcs).
     mset (rs_put s) = mset (rs_file s) + mset (rs_lost s) + ring_lines s + (\<Sum>t \<in> T. flight (pcs t)))"

lemma sum_one_change:
  fixes f g :: "'a \<Rightarrow> 'b multiset"
  assumes "finite A" "a \<in> A" "\<And>x. x \<in> A \<Longrightarrow> x \<noteq> a \<Longrightarrow> f x = g x"
  shows "sum f A + g a = sum g A + f a"
proof -
  have "sum f (A - {a}) = sum g (A - {a})" using assms(3) by (intro sum.cong) auto
  then show ?thesis using sum.remove [OF assms(1,2), of f] sum.remove [OF assms(1,2), of g] by simp
qed

lemma ring_lines_status:
  assumes "i < length (rs_status s)"
  shows "ring_lines (s\<lparr>rs_status := (rs_status s)[i := x]\<rparr>) + slot_lines s i =
    ring_lines s + (if x = DIRTY then {#rs_ctx s ! i#} else {#})"
  using sum_one_change [of "{..< length (rs_status s)}" i "slot_lines (s\<lparr>rs_status := (rs_status s)[i := x]\<rparr>)" "slot_lines s"] assms
  by (simp add: ring_lines_def slot_lines_def)

lemma ring_lines_ctx:
  assumes "rs_status s ! i \<noteq> DIRTY"
  shows "ring_lines (s\<lparr>rs_ctx := (rs_ctx s)[i := m]\<rparr>) = ring_lines s"
proof -
  have "slot_lines (s\<lparr>rs_ctx := (rs_ctx s)[i := m]\<rparr>) j = slot_lines s j" for j
    using assms by (cases "j = i") (simp_all add: slot_lines_def)
  then show ?thesis by (simp add: ring_lines_def)
qed

lemma ring_lines_others [simp]:
  "ring_lines (s\<lparr>rs_cursor := c, rs_put := ps\<rparr>) = ring_lines s" "ring_lines (s\<lparr>rs_lock := l\<rparr>) = ring_lines s"
  "ring_lines (s\<lparr>rs_file := f\<rparr>) = ring_lines s" "ring_lines (s\<lparr>rs_lost := f\<rparr>) = ring_lines s"
  by (simp_all add: ring_lines_def slot_lines_def cong: if_cong)

lemma flight_after_flush [simp]: "flight (after_flush k) = cont_lines k"
  by (cases k) auto

lemma after_flush_neq [simp]: "after_flush k \<noteq> At_dirty i m" "after_flush k \<noteq> At_out i m is l"
  by (cases k; auto)+

lemma ctx_inv_step:
  assumes "shape_inv num (s, pcs)" "lock_inv (s, pcs)" "status_inv (s, pcs)" "ctx_inv (s, pcs)" "tstep t (pcs t) s p s'"
  shows "ctx_inv (s', pcs(t := p))"
proof -
  note view = status_inv_view [OF assms(3,2), where t = t]
  have ok: "pc_ok (length (rs_status s)) (pcs t)" "length (rs_ctx s) = length (rs_status s)"
    using assms(1) by (auto simp: shape_inv_def)
  have other: "rs_ctx s' ! i = rs_ctx s ! i" if "others_write pcs t i \<or> others_flush pcs t i" for i
    using assms(5) that view(1,3) [of i] view(2) [of i] ok by cases (auto simp: nth_list_update)
  have u: "rs_ctx s' ! i = m" if "u \<noteq> t" "pcs u = At_dirty i m \<or> pcs u = At_out i m is k" for u i m "is" k
  proof -
    have "writer (pcs u) i \<or> flusher (pcs u) i" using that(2) by auto
    then have "rs_ctx s' ! i = rs_ctx s ! i" using that(1) by (intro other) (auto simp: others_write_def others_flush_def)
    then show ?thesis using that(2) assms(4) unfolding ctx_inv_def prod.case by metis
  qed
  have "(p = At_dirty i m \<longrightarrow> rs_ctx s' ! i = m) \<and> (p = At_out i m is k \<longrightarrow> rs_ctx s' ! i = m)" for i m "is" k
    using assms(5) ok by cases auto
  then show ?thesis using u by (auto simp: ctx_inv_def split: if_splits)
qed

text \<open>One step moves lines between the places but neither makes nor destroys one.\<close>

lemma step_balance:
  assumes "shape_inv num (s, pcs)" "lock_inv (s, pcs)" "status_inv (s, pcs)" "ctx_inv (s, pcs)" "tstep t (pcs t) s p s'"
  shows "mset (rs_put s') + (mset (rs_file s) + mset (rs_lost s) + ring_lines s + flight (pcs t)) =
    mset (rs_put s) + (mset (rs_file s') + mset (rs_lost s') + ring_lines s' + flight p)"
proof -
  note view = status_inv_view [OF assms(3,2), where t = t]
  have ok: "pc_ok (length (rs_status s)) (pcs t)" using assms(1) by (auto simp: shape_inv_def)
  have ctx: "pcs t = At_dirty i m \<Longrightarrow> rs_ctx s ! i = m" "pcs t = At_out i m is k \<Longrightarrow> rs_ctx s ! i = m" for i m "is" k
    using assms(4) unfolding ctx_inv_def prod.case by blast+
  show ?thesis using assms(5)
  proof cases
    case (write_ok i m)
    then show ?thesis using ring_lines_status [of i s WRITING] ok by (simp add: slot_lines_def)
  next
    case (memcpy i m)
    then have "rs_status s ! i = WRITING" using view(1) [of i] ok by simp
    then show ?thesis using memcpy ring_lines_ctx [of s i m] by simp
  next
    case (dirty i m)
    then have "rs_status s ! i = WRITING" using view(1) [of i] ok by simp
    then show ?thesis using dirty ring_lines_status [of i s DIRTY] ok ctx(1) [of i m] by (simp add: slot_lines_def)
  next
    case (flush_hit i "is" k)
    then show ?thesis using ring_lines_status [of i s FLUSHING] ok by (simp add: slot_lines_def)
  next
    case (out i m "is" k)
    then show ?thesis using ctx(2) [of i m] by simp
  next
    case (clean i "is" k)
    then have "rs_status s ! i = FLUSHING" using view(2) [of i] ok by simp
    then show ?thesis using clean ring_lines_status [of i s CLEAN] ok by (simp add: slot_lines_def)
  qed simp_all
qed

lemma conserved_step:
  assumes "shape_inv num (s, pcs)" "lock_inv (s, pcs)" "status_inv (s, pcs)" "ctx_inv (s, pcs)" "tstep t (pcs t) s p s'"
    "finite T" "t \<in> T" "conserved T (s, pcs)"
  shows "conserved T (s', pcs(t := p))"
proof -
  let ?fl = "\<Sum>u \<in> T. flight (pcs u)" and ?fl' = "\<Sum>u \<in> T. flight ((pcs(t := p)) u)"
  have fl: "?fl' + flight (pcs t) = ?fl + flight p"
    using sum_one_change [OF assms(6,7), of "\<lambda>u. flight ((pcs(t := p)) u)" "\<lambda>u. flight (pcs u)"] by simp
  have c: "mset (rs_put s) = mset (rs_file s) + mset (rs_lost s) + ring_lines s + ?fl"
    using assms(8) by (simp add: conserved_def)
  have "mset (rs_put s') + (mset (rs_file s) + mset (rs_lost s) + ring_lines s + flight (pcs t)) + ?fl =
      (mset (rs_file s') + mset (rs_lost s') + ring_lines s' + ?fl') + (mset (rs_file s) + mset (rs_lost s) + ring_lines s + flight (pcs t)) + ?fl"
    unfolding step_balance [OF assms(1-5)] c using fl by (simp add: ac_simps)
  then show ?thesis by (simp add: conserved_def)
qed

subsection \<open>Reachable states\<close>

definition ring_inv :: "nat set \<Rightarrow> nat \<Rightarrow> ring_sys \<Rightarrow> bool" where
  "ring_inv T num c \<longleftrightarrow> shape_inv num c \<and> lock_inv c \<and> status_inv c \<and> ctx_inv c \<and> conserved T c"

lemma ring_inv_init:
  assumes "num \<noteq> 0"
  shows "ring_inv T num (ring_init num)"
  using assms
  by (auto simp: ring_inv_def ring_init_def shape_inv_def lock_inv_def status_inv_def ctx_inv_def conserved_def
      ring_lines_def slot_lines_def)

lemma ring_reach_inv:
  assumes "ring_reach T num c" "finite T" "num \<noteq> 0"
  shows "ring_inv T num c"
  using assms(1)
proof induction
  case init
  show ?case by (rule ring_inv_init [OF assms(3)])
next
  case (step s pcs t p s')
  then have inv: "shape_inv num (s, pcs)" "lock_inv (s, pcs)" "status_inv (s, pcs)" "ctx_inv (s, pcs)" "conserved T (s, pcs)"
    by (simp_all add: ring_inv_def)
  note st = step.hyps(3)
  show ?case
    unfolding ring_inv_def
    using shape_inv_step [OF inv(1) st] lock_inv_step [OF inv(2) st] status_inv_step [OF inv(1-3) st] ctx_inv_step [OF inv(1-4) st]
      conserved_step [OF inv(1-4) st assms(2) step.hyps(2) inv(5)]
    by blast
qed

text \<open>
  C15. Threads that log at the same time never work on one slot together: in every reachable state
  at most one thread copies into or out of a slot, so no line is mixed with another; and every line
  given to \<open>put\<close> is, exactly once, in the file, in the ring, with its thread, or among the lines
  that were dropped because the result of \<open>LogElem::write\<close> is not checked.
\<close>

theorem ring_threads_safe:
  assumes "ring_reach T num (s, pcs)" "finite T" "num \<noteq> 0"
  shows "(\<forall>t t' i. t \<noteq> t' \<longrightarrow> writer (pcs t) i \<or> flusher (pcs t) i \<longrightarrow> \<not> (writer (pcs t') i \<or> flusher (pcs t') i)) \<and>
    mset (rs_put s) = mset (rs_file s) + mset (rs_lost s) + ring_lines s + (\<Sum>t \<in> T. flight (pcs t))"
proof -
  have inv: "ring_inv T num (s, pcs)" by (rule ring_reach_inv [OF assms])
  then have c: "conserved T (s, pcs)" and st: "status_inv (s, pcs)" and l: "lock_inv (s, pcs)"
    and sh: "shape_inv num (s, pcs)" by (simp_all add: ring_inv_def)
  have "\<not> (writer (pcs t') i \<or> flusher (pcs t') i)" if "t \<noteq> t'" "writer (pcs t) i \<or> flusher (pcs t) i" for t t' i
  proof -
    note view = status_inv_view [OF st l, where t = t]
    have "pc_ok (length (rs_status s)) (pcs t)" using sh by (auto simp: shape_inv_def)
    then have i: "i < length (rs_status s)" using that(2) by (cases "pcs t") auto
    have "\<not> others_write pcs t i \<and> \<not> others_flush pcs t i"
      using that(2) view(1,2) [OF i] view(3) [of i] view(4) [of i] flusher_holds by auto
    then show ?thesis using that(1) unfolding others_write_def others_flush_def by metis
  qed
  then show ?thesis using c by (simp add: conserved_def)
qed

text \<open>A run of two threads over one slot: the second overtakes the first, whose line is dropped.\<close>

definition lost_state :: ring_sys where
  "lost_state = (\<lparr>rs_cursor = 0, rs_status = [DIRTY], rs_ctx = [''b''], rs_lock = None, rs_put = [''a'', ''b''],
     rs_file = [], rs_lost = [''a'']\<rparr>, \<lambda>_. Idle)"

lemma reach_step: "ring_reach T num (s, pcs) \<Longrightarrow> tstep t (pcs t) s p s' \<Longrightarrow> t \<in> T \<Longrightarrow> pcs' = pcs(t := p) \<Longrightarrow> ring_reach T num (s', pcs')"
  using ring_reach.step by metis

lemma lost_state_reachable: "ring_reach {0, 1} 1 lost_state"
proof -
  let ?s = "\<lambda>st c ps lo. \<lparr>rs_cursor = 0, rs_status = [st], rs_ctx = [c], rs_lock = None, rs_put = ps, rs_file = [], rs_lost = lo\<rparr>"
  let ?pc = "\<lambda>a b. (\<lambda>_. Idle)(0 := a, 1 := b)"
  note go = reach_step [where T = "{0, 1}" and num = 1]
  have "ring_reach {0, 1} 1 (?s CLEAN [] [] [], \<lambda>_. Idle)"
    using ring_reach.init [of "{0, 1}" 1] by (simp add: ring_init_def)
  then have "ring_reach {0, 1} 1 (?s CLEAN [] [''a''] [], ?pc (At_available 0 ''a'') Idle)"
    by (rule go [where t = 0 and p = "At_available 0 ''a''"]) (auto simp: tstep.simps fun_eq_iff)
  then have "ring_reach {0, 1} 1 (?s CLEAN [] [''a''] [], ?pc (At_test 0 ''a'') Idle)"
    by (rule go [where t = 0 and p = "At_test 0 ''a''"]) (auto simp: tstep.simps fun_eq_iff)
  then have "ring_reach {0, 1} 1 (?s CLEAN [] [''a''] [], ?pc (At_write 0 ''a'') Idle)"
    by (rule go [where t = 0 and p = "At_write 0 ''a''"]) (auto simp: tstep.simps fun_eq_iff)
  then have "ring_reach {0, 1} 1 (?s CLEAN [] [''a'', ''b''] [], ?pc (At_write 0 ''a'') (At_available 0 ''b''))"
    by (rule go [where t = 1 and p = "At_available 0 ''b''"]) (auto simp: tstep.simps fun_eq_iff)
  then have "ring_reach {0, 1} 1 (?s CLEAN [] [''a'', ''b''] [], ?pc (At_write 0 ''a'') (At_test 0 ''b''))"
    by (rule go [where t = 1 and p = "At_test 0 ''b''"]) (auto simp: tstep.simps fun_eq_iff)
  then have "ring_reach {0, 1} 1 (?s CLEAN [] [''a'', ''b''] [], ?pc (At_write 0 ''a'') (At_write 0 ''b''))"
    by (rule go [where t = 1 and p = "At_write 0 ''b''"]) (auto simp: tstep.simps fun_eq_iff)
  then have "ring_reach {0, 1} 1 (?s WRITING [] [''a'', ''b''] [], ?pc (At_write 0 ''a'') (At_memcpy 0 ''b''))"
    by (rule go [where t = 1 and p = "At_memcpy 0 ''b''"]) (auto simp: tstep.simps fun_eq_iff)
  then have "ring_reach {0, 1} 1 (?s WRITING ''b'' [''a'', ''b''] [], ?pc (At_write 0 ''a'') (At_dirty 0 ''b''))"
    by (rule go [where t = 1 and p = "At_dirty 0 ''b''"]) (auto simp: tstep.simps fun_eq_iff)
  then have "ring_reach {0, 1} 1 (?s DIRTY ''b'' [''a'', ''b''] [], ?pc (At_write 0 ''a'') Idle)"
    by (rule go [where t = 1 and p = Idle]) (auto simp: tstep.simps fun_eq_iff)
  then have "ring_reach {0, 1} 1 (?s DIRTY ''b'' [''a'', ''b''] [''a''], \<lambda>_. Idle)"
    by (rule go [where t = 0 and p = Idle]) (auto simp: tstep.simps fun_eq_iff)
  then show ?thesis by (simp add: lost_state_def)
qed

theorem ring_threads_safe_witness:
  "mset [''a'', ''b''] = mset (rs_file (fst lost_state)) + mset (rs_lost (fst lost_state)) + ring_lines (fst lost_state) +
    (\<Sum>t \<in> {0, 1 :: nat}. flight (snd lost_state t))"
  using ring_threads_safe [of "{0, 1}" 1 "fst lost_state" "snd lost_state"] lost_state_reachable
  by (simp add: lost_state_def)

text \<open>Which program points have a step.\<close>

lemma owner_steps:
  assumes "holds_lock p \<or> writer p i \<or> flusher p i"
  shows "\<exists>p' s'. tstep t p s p' s'"
proof (cases p)
  case (At_flush "is" k)
  then show ?thesis
  proof (cases "is")
    case (Cons j js)
    then show ?thesis using At_flush tstep.flush_hit [of s j t js k] tstep.flush_skip [of s j t js k] by blast
  qed (use At_flush tstep.unlock in blast)
next
  case (At_memcpy j m)
  then show ?thesis using tstep.memcpy by blast
next
  case (At_dirty j m)
  then show ?thesis using tstep.dirty by blast
next
  case (At_out j m js k)
  then show ?thesis using tstep.out by blast
next
  case (At_clean j js k)
  then show ?thesis using tstep.clean by blast
qed (use assms in auto)

lemma put_steps:
  assumes "pc_ok num p" "\<And>i. i < num \<Longrightarrow> rs_status s ! i \<in> {CLEAN, DIRTY}" "\<not> holds_lock p" "\<And>i. \<not> writer p i" "\<And>i. \<not> flusher p i"
    and none: "\<nexists>p' s'. tstep t p s p' s'" and "p \<noteq> Idle"
  shows "\<exists>i m. p = At_wait i m \<and> rs_status s ! i = DIRTY"
proof (cases p)
  case (At_available i m)
  then show ?thesis using tstep.available [of s i t m] assms(1,2) none by auto
next
  case (At_test i m)
  then show ?thesis using tstep.test_dirty [of s i t m] tstep.test_clean [of s i t m] none by blast
next
  case (At_lock i m)
  then show ?thesis using tstep.lock_busy none by blast
next
  case (At_wait i m)
  then show ?thesis using tstep.waited none by blast
next
  case (At_write i m)
  then show ?thesis using tstep.write_ok [of s i t m] tstep.write_fails [of s i t m] none by blast
qed (use assms in auto)

text \<open>A flush that no other thread disturbs visits its slots and leaves none of them full.\<close>

lemma flush_run:
  assumes "ring_reach T num (s, pcs)" "t \<in> T" "pcs t = At_flush is k"
  shows "\<exists>s'. ring_reach T num (s', pcs(t := At_flush [] k)) \<and> length (rs_status s') = length (rs_status s) \<and>
    (\<forall>j < length (rs_status s). j \<in> set is \<or> rs_status s ! j \<noteq> DIRTY \<longrightarrow> rs_status s' ! j \<noteq> DIRTY)"
  using assms
proof (induction "is" arbitrary: s pcs)
  case Nil
  then have "pcs(t := At_flush [] k) = pcs" by auto
  then show ?case using Nil by auto
next
  case (Cons i js)
  have "\<exists>s1. ring_reach T num (s1, pcs(t := At_flush js k)) \<and> length (rs_status s1) = length (rs_status s) \<and>
      (\<forall>j < length (rs_status s). j = i \<or> rs_status s ! j \<noteq> DIRTY \<longrightarrow> rs_status s1 ! j \<noteq> DIRTY)"
  proof (cases "rs_status s ! i = DIRTY")
    case False
    then show ?thesis using reach_step [OF Cons.prems(1) _ Cons.prems(2) refl] tstep.flush_skip [of s i t js k] Cons.prems(3) by auto
  next
    case True
    let ?s1 = "s\<lparr>rs_status := (rs_status s)[i := FLUSHING]\<rparr>"
    let ?s2 = "?s1\<lparr>rs_file := rs_file ?s1 @ [rs_ctx ?s1 ! i]\<rparr>"
    let ?s3 = "?s2\<lparr>rs_status := (rs_status ?s2)[i := CLEAN]\<rparr>"
    have "ring_reach T num (?s1, pcs(t := At_out i (rs_ctx s ! i) js k))"
      using Cons.prems tstep.flush_hit [OF True, of t js k] by (intro reach_step [OF Cons.prems(1)]) auto
    then have "ring_reach T num (?s2, pcs(t := At_clean i js k))"
      using Cons.prems(2) tstep.out [of t i _ js k ?s1] by (elim reach_step) auto
    then have "ring_reach T num (?s3, pcs(t := At_flush js k))"
      using Cons.prems(2) tstep.clean [of t i js k ?s2] by (elim reach_step) auto
    moreover have "rs_status ?s3 ! j \<noteq> DIRTY" if "j < length (rs_status s)" "j = i \<or> rs_status s ! j \<noteq> DIRTY" for j
      using that by (cases "i = j") auto
    ultimately show ?thesis by (intro exI [of _ ?s3]) simp
  qed
  then obtain s1 where s1: "ring_reach T num (s1, pcs(t := At_flush js k))" "length (rs_status s1) = length (rs_status s)"
      "\<forall>j < length (rs_status s). j = i \<or> rs_status s ! j \<noteq> DIRTY \<longrightarrow> rs_status s1 ! j \<noteq> DIRTY"
    by blast
  have "(pcs(t := At_flush js k)) t = At_flush js k" by simp
  from Cons.IH [OF s1(1) Cons.prems(2) this] obtain s2 where "ring_reach T num (s2, pcs(t := At_flush [] k))"
      "length (rs_status s2) = length (rs_status s1)"
      "\<forall>j < length (rs_status s1). j \<in> set js \<or> rs_status s1 ! j \<noteq> DIRTY \<longrightarrow> rs_status s2 ! j \<noteq> DIRTY"
    unfolding fun_upd_upd by blast
  then show ?case using s1(2,3) by (intro exI [of _ s2] conjI) (assumption, auto)
qed

text \<open>
  C16. No thread waits for ever on the others alone. In every reachable state in which some thread
  is inside the logger, either one of these threads can take a step, or the lock is free and all
  of them wait in \<open>put\<close> for a slot that is full; then one call of \<open>flushAll\<close> by a thread outside the
  logger, as the flushing thread makes it every half second, leads to a state with no full slot.
\<close>

theorem ring_progress:
  assumes "ring_reach T num (s, pcs)" "finite T" "num \<noteq> 0"
  shows "(\<exists>t. pcs t \<noteq> Idle \<and> (\<exists>p s'. tstep t (pcs t) s p s')) \<or>
    (rs_lock s = None \<and> (\<forall>t. pcs t = Idle \<or> (\<exists>i m. pcs t = At_wait i m \<and> rs_status s ! i = DIRTY)) \<and>
     (\<forall>t \<in> T. pcs t = Idle \<longrightarrow> (\<exists>s'. ring_reach T num (s', pcs) \<and> (\<forall>i < num. rs_status s' ! i \<noteq> DIRTY))))"
proof (cases "\<exists>t. pcs t \<noteq> Idle \<and> (\<exists>p s'. tstep t (pcs t) s p s')")
  case False
  then have stuck: "pcs t \<noteq> Idle \<Longrightarrow> \<nexists>p s'. tstep t (pcs t) s p s'" for t by blast
  have inv: "ring_inv T num (s, pcs)" by (rule ring_reach_inv [OF assms])
  have sh: "length (rs_status s) = num" "\<And>t. pc_ok num (pcs t)" "rs_cursor s < num" using inv by (auto simp: ring_inv_def shape_inv_def)
  have free: "\<not> holds_lock (pcs t)" "\<not> writer (pcs t) i" "\<not> flusher (pcs t) i" for t i
    using stuck [of t] owner_steps [of "pcs t" i t s] by (cases "pcs t = Idle"; auto)+
  have lock: "rs_lock s = None" using inv free by (cases "rs_lock s") (auto simp: ring_inv_def lock_inv_def)
  have st: "rs_status s ! i \<in> {CLEAN, DIRTY}" if "i < num" for i
    using inv free that sh(1) unfolding ring_inv_def status_inv_def prod.case by (cases "rs_status s ! i") auto
  have wait: "pcs t = Idle \<or> (\<exists>i m. pcs t = At_wait i m \<and> rs_status s ! i = DIRTY)" for t
    using put_steps [OF sh(2) st free stuck] by blast
  have "\<exists>s'. ring_reach T num (s', pcs) \<and> (\<forall>i < num. rs_status s' ! i \<noteq> DIRTY)" if t: "t \<in> T" "pcs t = Idle" for t
  proof -
    let ?js = "flush_order (rs_cursor s) num"
    have "ring_reach T num (s\<lparr>rs_lock := Some t\<rparr>, pcs(t := At_flush ?js None))"
      using t tstep.flush_all [OF lock, of t] sh(1) by (intro reach_step [OF assms(1)]) auto
    from flush_run [OF this t(1)] obtain s1 where s1: "ring_reach T num (s1, pcs(t := At_flush [] None))"
        "\<forall>j < num. j \<in> set ?js \<longrightarrow> rs_status s1 ! j \<noteq> DIRTY"
      using sh(1) by auto
    have "ring_reach T num (s1\<lparr>rs_lock := None\<rparr>, pcs)"
      using t tstep.unlock [of t None s1] by (intro reach_step [OF s1(1)]) auto
    moreover have "j \<in> set ?js" if "j < num" for j using that sh(3) by (auto simp: flush_order_def)
    ultimately show ?thesis using s1(2) by (intro exI [of _ "s1\<lparr>rs_lock := None\<rparr>"]) simp
  qed
  then show ?thesis using lock wait by blast
qed simp

theorem ring_progress_witness:
  "\<exists>s'. ring_reach {0, 1} 1 (s', snd lost_state) \<and> rs_status s' ! 0 \<noteq> DIRTY"
  using ring_progress [of "{0, 1}" 1 "fst lost_state" "snd lost_state"] lost_state_reachable by (auto simp: lost_state_def)

end
