(* ===== verification/Logger_Alone.thy ===== *)
theory Logger_Alone
  imports Logger_Steps Logger_Ring
begin

section \<open>The two models of the logger's ring agree\<close>

text \<open>
  \<open>Logger\<close> has \<open>put\<close> and \<open>flushAll\<close> as functions, for calls one after the other; \<open>Logger_Steps\<close> has them as
  atomic steps of threads. Here the steps of one thread that runs alone are shown to do exactly what
  the functions do: the run of steps that a call starts ends in the state the function gives, and in
  no other.
\<close>

subsection \<open>A thread that runs alone\<close>

text \<open>The steps of thread \<open>t\<close> inside a call.\<close>

definition busy :: "nat \<Rightarrow> pc \<times> ring_sh \<Rightarrow> pc \<times> ring_sh \<Rightarrow> bool" where
  "busy t x y \<longleftrightarrow> fst x \<noteq> Idle \<and> tstep t (fst x) (snd x) (fst y) (snd y)"

text \<open>A call that is at \<open>p\<close> returns with the shared state \<open>s'\<close>.\<close>

definition returns :: "nat \<Rightarrow> pc \<Rightarrow> ring_sh \<Rightarrow> ring_sh \<Rightarrow> bool" where
  "returns t p s s' \<longleftrightarrow> (busy t)\<^sup>*\<^sup>* (p, s) (Idle, s')"

text \<open>A step without an alternative, except one from which the thread alone cannot go on.\<close>

definition sure :: "nat \<Rightarrow> pc \<times> ring_sh \<Rightarrow> pc \<times> ring_sh \<Rightarrow> bool" where
  "sure t x y \<longleftrightarrow> busy t x y \<and> (\<forall>z. busy t x z \<longrightarrow> z = y \<or> fst z \<noteq> Idle \<and> (\<forall>u. \<not> busy t z u))"

lemma sure_returns:
  assumes "(sure t)\<^sup>*\<^sup>* x (Idle, s)"
  shows "(busy t)\<^sup>*\<^sup>* x (Idle, s') \<longleftrightarrow> s' = s"
  using assms
proof (induction rule: converse_rtranclp_induct)
  case base
  have "\<not> busy t (Idle, s) u" for u by (simp add: busy_def)
  then show ?case by (auto elim: converse_rtranclpE)
next
  case (step x y)
  have b: "busy t x y" and u: "\<And>z. busy t x z \<Longrightarrow> z = y \<or> fst z \<noteq> Idle \<and> (\<forall>u. \<not> busy t z u)"
    using step.hyps(1) unfolding sure_def by blast+
  have "(busy t)\<^sup>*\<^sup>* y (Idle, s')" if r: "(busy t)\<^sup>*\<^sup>* x (Idle, s')"
    using r
  proof (cases rule: converse_rtranclpE)
    case base
    then show ?thesis using b by (simp add: busy_def)
  next
    case (step z)
    show ?thesis
    proof (cases "z = y")
      case False
      then have "fst z \<noteq> Idle" "\<And>u. \<not> busy t z u" using u [OF step(1)] by auto
      then show ?thesis using step(2) by (auto elim: converse_rtranclpE)
    qed (use step in simp)
  qed
  then show ?case using step.IH b by (meson converse_rtranclp_into_rtranclp)
qed

inductive_simps tstep_at_test: "tstep t (At_test i m) s p s'"
inductive_simps tstep_at_lock: "tstep t (At_lock i m) s p s'"
inductive_simps tstep_at_memcpy: "tstep t (At_memcpy i m) s p s'"
inductive_simps tstep_at_dirty: "tstep t (At_dirty i m) s p s'"
inductive_simps tstep_at_flush: "tstep t (At_flush is k) s p s'"
inductive_simps tstep_at_out: "tstep t (At_out i m is k) s p s'"
inductive_simps tstep_at_clean: "tstep t (At_clean i is k) s p s'"

lemmas tstep_at = tstep_at_available tstep_at_test tstep_at_lock tstep_at_wait tstep_at_write tstep_at_memcpy
  tstep_at_dirty tstep_at_flush tstep_at_out tstep_at_clean

lemma sure_steps:
  "rs_status s ! i \<in> {CLEAN, DIRTY} \<Longrightarrow> sure t (At_available i m, s) (At_test i m, s)"
  "rs_status s ! i = DIRTY \<Longrightarrow> sure t (At_test i m, s) (At_lock i m, s)"
  "rs_status s ! i = CLEAN \<Longrightarrow> sure t (At_test i m, s) (At_write i m, s)"
  "rs_lock s = None \<Longrightarrow> rs_status s ! i = DIRTY \<Longrightarrow>
    sure t (At_lock i m, s) (At_flush (flush_order i (length (rs_status s))) (Some (i, m)), s\<lparr>rs_lock := Some t\<rparr>)"
  "rs_status s ! i = CLEAN \<Longrightarrow> sure t (At_write i m, s) (At_memcpy i m, s\<lparr>rs_status := (rs_status s)[i := WRITING]\<rparr>)"
  "sure t (At_memcpy i m, s) (At_dirty i m, s\<lparr>rs_ctx := (rs_ctx s)[i := m]\<rparr>)"
  "sure t (At_dirty i m, s) (Idle, s\<lparr>rs_status := (rs_status s)[i := DIRTY]\<rparr>)"
  "rs_status s ! i = DIRTY \<Longrightarrow>
    sure t (At_flush (i # is) k, s) (At_out i (rs_ctx s ! i) is k, s\<lparr>rs_status := (rs_status s)[i := FLUSHING]\<rparr>)"
  "rs_status s ! i \<noteq> DIRTY \<Longrightarrow> sure t (At_flush (i # is) k, s) (At_flush is k, s)"
  "sure t (At_out i m is k, s) (At_clean i is k, s\<lparr>rs_file := rs_file s @ [rs_ctx s ! i]\<rparr>)"
  "sure t (At_clean i is k, s) (At_flush is k, s\<lparr>rs_status := (rs_status s)[i := CLEAN]\<rparr>)"
  "sure t (At_flush [] k, s) (after_flush k, s\<lparr>rs_lock := None\<rparr>)"
  by (auto simp: sure_def busy_def tstep_at)

lemma sure_then: "sure t x y \<Longrightarrow> (sure t)\<^sup>*\<^sup>* y z \<Longrightarrow> (sure t)\<^sup>*\<^sup>* x z"
  by (rule converse_rtranclp_into_rtranclp)

lemma sure_one: "sure t x y \<Longrightarrow> (sure t)\<^sup>*\<^sup>* x y"
  by (rule r_into_rtranclp)

subsection \<open>The ring of a logger as the threads see it\<close>

definition held_line :: "log_elem \<Rightarrow> string" where
  "held_line e = take (le_len e) (le_ctx e)"

definition ring_view :: "nat option \<Rightarrow> simple_logger \<Rightarrow> string list \<Rightarrow> string list \<Rightarrow> string list \<Rightarrow> ring_sh" where
  "ring_view lk lg ps fs xs = \<lparr>rs_cursor = sl_cursor lg, rs_status = map le_status (sl_logs lg),
     rs_ctx = map held_line (sl_logs lg), rs_lock = lk, rs_put = ps, rs_file = fs, rs_lost = xs\<rparr>"

text \<open>The slots after a flush of \<open>iis\<close>, and the lines it writes.\<close>

definition clean_all :: "nat list \<Rightarrow> log_elem list \<Rightarrow> log_elem list" where
  "clean_all iis es = fold (\<lambda>i es. es[i := cleaned (es ! i)]) iis es"

fun flush_lines :: "nat list \<Rightarrow> log_elem list \<Rightarrow> string list" where
  "flush_lines [] es = []"
| "flush_lines (i # iis) es = (if le_status (es ! i) = DIRTY then [held_line (es ! i)] else []) @ flush_lines iis (es[i := cleaned (es ! i)])"

lemma clean_all_simps [simp]:
  "clean_all [] es = es" "clean_all (i # iis) es = clean_all iis (es[i := cleaned (es ! i)])"
  by (simp_all add: clean_all_def)

lemma length_clean_all [simp]: "length (clean_all iis es) = length es"
  by (induction iis arbitrary: es) simp_all

lemma le_flush_elem: "fst (snd (le_flush e fs w)) = cleaned e"
  by (simp add: le_flush_def cleaned_def split: prod.splits)

lemma flush_elems_logs:
  "sl_logs (fst (flush_elems iis st)) = clean_all iis (sl_logs (fst st)) \<and> sl_cursor (fst (flush_elems iis st)) = sl_cursor (fst st)"
proof (induction iis arbitrary: st)
  case (Cons ii iis)
  obtain lg w where st: "st = (lg, w)" by force
  obtain n e fs w1 where e: "le_flush (sl_logs lg ! ii) (sl_fs lg) w = (n, e, fs, w1)" by (metis prod_cases4)
  then have "e = cleaned (sl_logs lg ! ii)" using le_flush_elem [of "sl_logs lg ! ii" "sl_fs lg" w] by simp
  then show ?case using Cons.IH by (simp add: st e)
qed simp

lemma new_revision_logs:
  "sl_logs (fst (new_revision this st)) = sl_logs (fst st) \<and> sl_cursor (fst (new_revision this st)) = sl_cursor (fst st)"
  by (auto simp: new_revision_def Let_def split: prod.splits option.splits)

lemma flush_logs:
  assumes "\<not> sl_flushingLogs (fst st)"
  shows "fst (flush this c st) \<and> sl_cursor (fst (snd (flush this c st))) = sl_cursor (fst st) \<and>
    sl_logs (fst (snd (flush this c st))) = clean_all (flush_order c (length (sl_logs (fst st)))) (sl_logs (fst st))"
  using assms flush_elems_logs new_revision_logs by (simp add: flush_def flush_order_def)

text \<open>The loop of a flush.\<close>

lemma flush_sure:
  assumes "set iis \<subseteq> {..< length (sl_logs lg)}"
  shows "(sure t)\<^sup>*\<^sup>* (At_flush iis k, ring_view lk lg ps fs xs)
    (At_flush [] k, ring_view lk (lg\<lparr>sl_logs := clean_all iis (sl_logs lg)\<rparr>) ps (fs @ flush_lines iis (sl_logs lg)) xs)"
  using assms
proof (induction iis arbitrary: lg fs)
  case (Cons i iis)
  let ?e = "sl_logs lg ! i" and ?lg = "lg\<lparr>sl_logs := (sl_logs lg)[i := cleaned (sl_logs lg ! i)]\<rparr>"
  have i: "i < length (sl_logs lg)" and sub: "set iis \<subseteq> {..< length (sl_logs ?lg)}" using Cons.prems by auto
  have first: "(sure t)\<^sup>*\<^sup>* (At_flush (i # iis) k, ring_view lk lg ps fs xs)
      (At_flush iis k, ring_view lk ?lg ps (fs @ (if le_status ?e = DIRTY then [held_line ?e] else [])) xs)"
  proof (cases "le_status ?e = DIRTY")
    case True
    let ?s = "ring_view lk lg ps fs xs"
    let ?s1 = "?s\<lparr>rs_status := (rs_status ?s)[i := FLUSHING]\<rparr>"
    let ?s2 = "?s1\<lparr>rs_file := rs_file ?s1 @ [rs_ctx ?s1 ! i]\<rparr>"
    let ?s3 = "?s2\<lparr>rs_status := (rs_status ?s2)[i := CLEAN]\<rparr>"
    have "rs_status ?s ! i = DIRTY" using True i by (simp add: ring_view_def)
    then have "(sure t)\<^sup>*\<^sup>* (At_flush (i # iis) k, ?s) (At_flush iis k, ?s3)"
      by (intro sure_then [OF sure_steps(8)] sure_then [OF sure_steps(10)] sure_one [OF sure_steps(11)])
    moreover have "?s3 = ring_view lk ?lg ps (fs @ [held_line ?e]) xs"
    proof -
      have "held_line (cleaned ?e) = map held_line (sl_logs lg) ! i" "le_status (cleaned ?e) = CLEAN"
        using True i by (simp_all add: cleaned_def held_line_def)
      then have "map held_line ((sl_logs lg)[i := cleaned ?e]) = map held_line (sl_logs lg)"
          "map le_status ((sl_logs lg)[i := cleaned ?e]) = (map le_status (sl_logs lg))[i := CLEAN]"
        by (simp_all only: map_update list_update_id)
      then show ?thesis using i by (simp add: ring_view_def)
    qed
    ultimately show ?thesis using True by simp
  next
    case False
    then have "?lg = lg" by (simp add: cleaned_def)
    then show ?thesis using sure_steps(9) [of "ring_view lk lg ps fs xs" i t iis k] False i by (simp add: ring_view_def)
  qed
  from rtranclp_trans [OF first Cons.IH [OF sub]] show ?case by simp
qed simp

text \<open>A flush writes the pending lines in order.\<close>

lemma flush_lines_map:
  "distinct iis \<Longrightarrow> set iis \<subseteq> {..< length es} \<Longrightarrow> concat (flush_lines iis es) = concat (map (\<lambda>i. dirty_text (es ! i)) iis)"
proof (induction iis arbitrary: es)
  case (Cons i iis)
  have "map (\<lambda>j. dirty_text ((es[i := cleaned (es ! i)]) ! j)) iis = map (\<lambda>j. dirty_text (es ! j)) iis"
    using Cons.prems(1) by (intro map_cong refl) (metis distinct.simps(2) nth_list_update_neq)
  moreover have "concat (flush_lines iis (es[i := cleaned (es ! i)])) =
      concat (map (\<lambda>j. dirty_text ((es[i := cleaned (es ! i)]) ! j)) iis)"
    using Cons.prems by (intro Cons.IH) auto
  moreover have "concat (if le_status (es ! i) = DIRTY then [held_line (es ! i)] else []) = dirty_text (es ! i)"
    by (simp add: dirty_text_def held_line_def)
  ultimately show ?case by (simp only: flush_lines.simps concat_append list.map concat.simps)
qed simp

lemma clean_all_nth:
  "i < length es \<Longrightarrow> clean_all iis es ! i = (if i \<in> set iis then cleaned (es ! i) else es ! i)"
proof (induction iis arbitrary: es)
  case (Cons j iis)
  have "cleaned (cleaned e) = cleaned e" for e by (simp add: cleaned_def)
  then show ?case using Cons by (cases "i = j") auto
qed simp

lemma set_flush_order: "c \<le> num \<Longrightarrow> set (flush_order c num) = {..< num}"
  by (auto simp: flush_order_def)

lemma clean_ring: "c \<le> length es \<Longrightarrow> clean_all (flush_order c (length es)) es = map cleaned es"
  by (intro nth_equalityI) (simp_all add: clean_all_nth set_flush_order)

lemma flush_lines_pending:
  assumes "sl_cursor lg < length (sl_logs lg)"
  shows "concat (flush_lines (flush_order (sl_cursor lg) (length (sl_logs lg))) (sl_logs lg)) = pending lg"
proof -
  let ?is = "flush_order (sl_cursor lg) (length (sl_logs lg))"
  have "distinct ?is" "set ?is \<subseteq> {..< length (sl_logs lg)}" using assms by (auto simp: flush_order_def)
  then have "concat (flush_lines ?is (sl_logs lg)) = concat (map (\<lambda>i. dirty_text (sl_logs lg ! i)) ?is)" by (rule flush_lines_map)
  also have "map (\<lambda>i. dirty_text (sl_logs lg ! i)) ?is = map dirty_text (slots lg)"
    using ring_indices [of "sl_cursor lg" "sl_logs lg" dirty_text] assms by (simp add: flush_order_def slots_def)
  finally show ?thesis by (simp add: pending_def)
qed

lemma flush_whole_sure:
  assumes "c < length (sl_logs lg)"
  shows "(sure t)\<^sup>*\<^sup>* (At_flush (flush_order c (length (sl_logs lg))) k, ring_view (Some t) lg ps fs xs)
    (after_flush k, ring_view None (lg\<lparr>sl_logs := map cleaned (sl_logs lg)\<rparr>) ps
      (fs @ flush_lines (flush_order c (length (sl_logs lg))) (sl_logs lg)) xs)"
proof -
  let ?is = "flush_order c (length (sl_logs lg))"
  have first: "(sure t)\<^sup>*\<^sup>* (At_flush ?is k, ring_view (Some t) lg ps fs xs)
      (At_flush [] k, ring_view (Some t) (lg\<lparr>sl_logs := map cleaned (sl_logs lg)\<rparr>) ps (fs @ flush_lines ?is (sl_logs lg)) xs)"
    using flush_sure [of ?is lg] assms by (simp add: clean_ring set_flush_order)
  have last: "(sure t)\<^sup>*\<^sup>* (At_flush [] k, ring_view (Some t) lg' ps fs' xs) (after_flush k, ring_view None lg' ps fs' xs)" for lg' fs'
    using sure_one [OF sure_steps(12), of t k "ring_view (Some t) lg' ps fs' xs"] by (simp add: ring_view_def)
  show ?thesis by (rule rtranclp_trans [OF first last])
qed

text \<open>Storing a line in a free slot.\<close>

lemma write_sure:
  assumes "i < length (sl_logs lg)" "le_status (sl_logs lg ! i) = CLEAN" "elem_ok (sl_logs lg ! i)" "n \<le> length msg" "n \<le> MSG_SIZE"
  shows "(sure t)\<^sup>*\<^sup>* (At_write i (take n msg), ring_view lk lg ps fs xs)
    (Idle, ring_view lk (lg\<lparr>sl_logs := (sl_logs lg)[i := snd (le_write n msg (sl_logs lg ! i))]\<rparr>) ps fs xs)"
proof -
  let ?s = "ring_view lk lg ps fs xs" and ?m = "take n msg" and ?e = "snd (le_write n msg (sl_logs lg ! i))"
  let ?s1 = "?s\<lparr>rs_status := (rs_status ?s)[i := WRITING]\<rparr>"
  let ?s2 = "?s1\<lparr>rs_ctx := (rs_ctx ?s1)[i := ?m]\<rparr>"
  let ?s3 = "?s2\<lparr>rs_status := (rs_status ?s2)[i := DIRTY]\<rparr>"
  have "rs_status ?s ! i = CLEAN" using assms(1,2) by (simp add: ring_view_def)
  then have "(sure t)\<^sup>*\<^sup>* (At_write i ?m, ?s) (Idle, ?s3)"
    by (intro sure_then [OF sure_steps(5)] sure_then [OF sure_steps(6)] sure_one [OF sure_steps(7)])
  moreover have "le_status ?e = DIRTY" "held_line ?e = ?m"
    using le_write_clean [OF assms(2-5)] by (auto simp: dirty_text_def held_line_def)
  then have "?s3 = ring_view lk (lg\<lparr>sl_logs := (sl_logs lg)[i := ?e]\<rparr>) ps fs xs"
    by (simp add: ring_view_def map_update)
  ultimately show ?thesis by simp
qed

subsection \<open>A call alone\<close>

lemma dirty_text_cleaned [simp]: "dirty_text (cleaned e) = []" "held_line (cleaned e) = held_line e"
  by (simp_all add: dirty_text_def cleaned_def held_line_def)

lemma elem_ok_cleaned_slot: "elem_ok e \<Longrightarrow> elem_ok (cleaned e) \<and> le_status (cleaned e) = CLEAN"
  by (auto simp: elem_ok_def cleaned_def available_def)

text \<open>After the slot at the cursor is free, storing the line ends the call and appends it to what is pending.\<close>

lemma store_sure:
  assumes "sl_cursor lg < length (sl_logs lg)" "le_status (sl_logs lg ! sl_cursor lg) = CLEAN" "list_all elem_ok (sl_logs lg)"
    "n \<le> length msg" "n \<le> MSG_SIZE"
  defines "lg' \<equiv> lg\<lparr>sl_cursor := (sl_cursor lg + 1) mod length (sl_logs lg),
      sl_logs := (sl_logs lg)[sl_cursor lg := snd (le_write n msg (sl_logs lg ! sl_cursor lg))]\<rparr>"
  shows "(sure t)\<^sup>*\<^sup>* (At_write (sl_cursor lg) (take n msg),
      ring_view None (lg\<lparr>sl_cursor := (sl_cursor lg + 1) mod length (sl_logs lg)\<rparr>) ps fs xs) (Idle, ring_view None lg' ps fs xs)"
    and "pending lg' = pending lg @ take n msg"
proof -
  let ?e = "sl_logs lg ! sl_cursor lg" and ?lg = "lg\<lparr>sl_cursor := (sl_cursor lg + 1) mod length (sl_logs lg)\<rparr>"
  have ok: "elem_ok ?e" using assms(1,3) by (simp add: list_all_length)
  show "(sure t)\<^sup>*\<^sup>* (At_write (sl_cursor lg) (take n msg), ring_view None ?lg ps fs xs) (Idle, ring_view None lg' ps fs xs)"
    using write_sure [of "sl_cursor lg" ?lg n msg t None ps fs xs] assms(1,2,4,5) ok by (simp add: lg'_def)
  have "dirty_text (snd (le_write n msg ?e)) = take n msg" using le_write_clean [OF assms(2) ok assms(4,5)] by simp
  moreover have "dirty_text ?e = []" using assms(2) by (simp add: dirty_text_def)
  moreover have "slots lg' = tl (slots lg) @ [snd (le_write n msg ?e)]" unfolding lg'_def by (rule slots_fill [OF assms(1)])
  moreover have "pending lg = dirty_text ?e @ concat (map dirty_text (tl (slots lg)))"
    by (subst (1) pending_def, subst hd_slots [OF assms(1)]) simp
  ultimately show "pending lg' = pending lg @ take n msg" by (simp add: pending_def)
qed

lemma same_ring:
  assumes "sl_cursor a = sl_cursor b" "sl_logs a = sl_logs b"
  shows "ring_view lk a ps fs xs = ring_view lk b ps fs xs" "pending a = pending b"
  using assms by (simp_all add: ring_view_def pending_def slots_def)

text \<open>A call that finds its slot still full flushes the whole ring first.\<close>

lemma put_alone_full:
  fixes ps fs xs :: "string list"
  assumes ok: "ring_ok lg" and n: "n \<le> length msg" "n \<le> MSG_SIZE" and e: "le_status (sl_logs lg ! sl_cursor lg) = DIRTY"
  defines "s1 \<equiv> ring_view None (lg\<lparr>sl_cursor := (sl_cursor lg + 1) mod length (sl_logs lg)\<rparr>) (ps @ [take n msg]) fs xs"
  shows "\<exists>lg' w' ls. put_ring this msg n (lg, w) = Inr (lg', w') \<and>
    (sure t)\<^sup>*\<^sup>* (At_available (sl_cursor lg) (take n msg), s1) (Idle, ring_view None lg' (ps @ [take n msg]) (fs @ ls) xs) \<and>
    concat ls @ pending lg' = pending lg @ take n msg"
proof -
  let ?c = "sl_cursor lg" and ?num = "length (sl_logs lg)" and ?m = "take n msg"
  let ?lgc = "lg\<lparr>sl_cursor := (sl_cursor lg + 1) mod length (sl_logs lg)\<rparr>"
  have c: "?c < ?num" "\<not> sl_flushingLogs lg" "list_all elem_ok (sl_logs lg)" using ok by (simp_all add: ring_ok_def)
  have av: "available (sl_logs lg ! ?c)" using e by (simp add: available_def)
  have st: "rs_status s1 ! ?c = DIRTY" "rs_lock s1 = None" "length (rs_status s1) = ?num"
    using c(1) e by (simp_all add: s1_def ring_view_def)
  have test: "sure t (At_available ?c ?m, s1) (At_test ?c ?m, s1)" by (intro sure_steps(1)) (simp add: st)
  obtain lg3 w3 where f: "flush this ?c (?lgc, w) = (True, lg3, w3)" "sl_cursor lg3 = sl_cursor ?lgc" "sl_logs lg3 = map cleaned (sl_logs lg)"
    using flush_logs [of "(?lgc, w)" this ?c] c(1,2) by (cases "flush this ?c (?lgc, w)") (auto simp: clean_ring)
  let ?lg = "lg3\<lparr>sl_logs := (sl_logs lg3)[?c := snd (le_write n msg (sl_logs lg3 ! ?c))]\<rparr>"
  let ?lg2 = "lg\<lparr>sl_logs := map cleaned (sl_logs lg)\<rparr>" and ?ls = "flush_lines (flush_order ?c ?num) (sl_logs lg)"
  have r: "put_ring this msg n (lg, w) = Inr (?lg, w3)" using e c(1) av f(1) by (auto simp: put_ring_def Let_def needToFlush_def)
  have ok2: "sl_cursor ?lg2 < length (sl_logs ?lg2)" "le_status (sl_logs ?lg2 ! sl_cursor ?lg2) = CLEAN" "list_all elem_ok (sl_logs ?lg2)"
    using c(1,3) elem_ok_cleaned_slot by (auto simp: list_all_length)
  note w = store_sure [OF ok2 n, simplified]
  have eq: "sl_cursor ?lg = sl_cursor (?lg2\<lparr>sl_cursor := (?c + 1) mod ?num, sl_logs := (map cleaned (sl_logs lg))[?c := snd (le_write n msg (map cleaned (sl_logs lg) ! ?c))]\<rparr>)"
    "sl_logs ?lg = sl_logs (?lg2\<lparr>sl_cursor := (?c + 1) mod ?num, sl_logs := (map cleaned (sl_logs lg))[?c := snd (le_write n msg (map cleaned (sl_logs lg) ! ?c))]\<rparr>)"
    by (simp_all add: f)
  have p0: "pending ?lg2 = []" by (simp add: pending_def slots_def drop_map take_map comp_def)
  have "(sure t)\<^sup>*\<^sup>* (At_available ?c ?m, s1) (At_flush (flush_order ?c ?num) (Some (?c, ?m)), ring_view (Some t) ?lgc (ps @ [?m]) fs xs)"
    using sure_then [OF test sure_then [OF sure_steps(2) sure_one [OF sure_steps(4)]]] e st by (simp add: s1_def ring_view_def)
  moreover have "(sure t)\<^sup>*\<^sup>* (At_flush (flush_order ?c ?num) (Some (?c, ?m)), ring_view (Some t) ?lgc (ps @ [?m]) fs xs)
      (At_write ?c ?m, ring_view None (?lg2\<lparr>sl_cursor := (?c + 1) mod ?num\<rparr>) (ps @ [?m]) (fs @ ?ls) xs)"
    using flush_whole_sure [of ?c ?lgc t "Some (?c, ?m)" "ps @ [?m]" fs xs] c(1) by (simp add: ring_view_def)
  moreover have "(sure t)\<^sup>*\<^sup>* (At_write ?c ?m, ring_view None (?lg2\<lparr>sl_cursor := (?c + 1) mod ?num\<rparr>) (ps @ [?m]) (fs @ ?ls) xs)
      (Idle, ring_view None ?lg (ps @ [?m]) (fs @ ?ls) xs)"
    unfolding same_ring(1) [OF eq] using w(1) [of t "ps @ [?m]" "fs @ ?ls" xs] c(1) by simp
  ultimately have "(sure t)\<^sup>*\<^sup>* (At_available ?c ?m, s1) (Idle, ring_view None ?lg (ps @ [?m]) (fs @ ?ls) xs)"
    by (blast intro: rtranclp_trans)
  moreover have "concat ?ls @ pending ?lg = pending lg @ ?m"
    unfolding same_ring(2) [OF eq] flush_lines_pending [OF c(1)] using w(2) c(1) p0 by simp
  ultimately show ?thesis using r by blast
qed

lemma put_alone:
  fixes ps fs xs :: "string list"
  assumes ok: "ring_ok lg" and n: "n \<le> length msg" "n \<le> MSG_SIZE"
  defines "s1 \<equiv> ring_view None (lg\<lparr>sl_cursor := (sl_cursor lg + 1) mod length (sl_logs lg)\<rparr>) (ps @ [take n msg]) fs xs"
  shows "\<exists>lg' w' ls. put_ring this msg n (lg, w) = Inr (lg', w') \<and>
    (sure t)\<^sup>*\<^sup>* (At_available (sl_cursor lg) (take n msg), s1) (Idle, ring_view None lg' (ps @ [take n msg]) (fs @ ls) xs) \<and>
    concat ls @ pending lg' = pending lg @ take n msg"
proof -
  let ?c = "sl_cursor lg" and ?num = "length (sl_logs lg)" and ?m = "take n msg"
  let ?e = "sl_logs lg ! ?c" and ?lgc = "lg\<lparr>sl_cursor := (sl_cursor lg + 1) mod length (sl_logs lg)\<rparr>"
  have c: "?c < ?num" "\<not> sl_flushingLogs lg" "list_all elem_ok (sl_logs lg)" using ok by (simp_all add: ring_ok_def)
  have av: "available ?e" using c(1,3) by (simp add: list_all_length elem_ok_def)
  have st: "rs_status s1 ! ?c = le_status ?e" "rs_lock s1 = None" "length (rs_status s1) = ?num"
    using c(1) by (simp_all add: s1_def ring_view_def)
  have test: "sure t (At_available ?c ?m, s1) (At_test ?c ?m, s1)" using av by (intro sure_steps(1)) (auto simp: st available_def)
  show ?thesis
  proof (cases "needToFlush ?e")
    case True
    then show ?thesis unfolding s1_def using put_alone_full [OF ok n] by (simp add: needToFlush_def)
  next
    case False
    then have e: "le_status ?e = CLEAN" using av by (simp add: needToFlush_def available_def)
    let ?lg = "?lgc\<lparr>sl_logs := (sl_logs lg)[?c := snd (le_write n msg ?e)]\<rparr>"
    have "put_ring this msg n (lg, w) = Inr (?lg, w)" using False c(1) av by (auto simp: put_ring_def Let_def)
    moreover have "(sure t)\<^sup>*\<^sup>* (At_available ?c ?m, s1) (Idle, ring_view None ?lg (ps @ [?m]) (fs @ []) xs)"
      using sure_then [OF test sure_then [OF sure_steps(3)]] store_sure(1) [OF c(1) e c(3) n, of t "ps @ [?m]" fs xs] e st(1)
      by (simp add: s1_def)
    ultimately show ?thesis using store_sure(2) [OF c(1) e c(3) n] by (intro exI conjI) (assumption, assumption, simp)
  qed
qed

lemma flush_alone:
  assumes "ring_ok lg"
  shows "\<exists>lg' w'. flushAll this (lg, w) = (lg', w') \<and>
    (sure t)\<^sup>*\<^sup>* (At_flush (flush_order (sl_cursor lg) (length (sl_logs lg))) None, ring_view (Some t) lg ps fs xs)
      (Idle, ring_view None lg' ps (fs @ flush_lines (flush_order (sl_cursor lg) (length (sl_logs lg))) (sl_logs lg)) xs) \<and>
    pending lg' = []"
proof -
  let ?c = "sl_cursor lg"
  have c: "?c < length (sl_logs lg)" "\<not> sl_flushingLogs lg" using assms by (simp_all add: ring_ok_def)
  obtain lg' w' where f: "flushAll this (lg, w) = (lg', w')" "sl_cursor lg' = ?c" "sl_logs lg' = map cleaned (sl_logs lg)"
    using flush_logs [of "(lg, w)" this ?c] c by (cases "flushAll this (lg, w)") (auto simp: flushAll_def clean_ring)
  have eq: "sl_cursor lg' = sl_cursor (lg\<lparr>sl_logs := map cleaned (sl_logs lg)\<rparr>)" "sl_logs lg' = sl_logs (lg\<lparr>sl_logs := map cleaned (sl_logs lg)\<rparr>)"
    by (simp_all add: f)
  have "pending lg' = []" by (simp add: pending_def slots_def f drop_map take_map comp_def)
  then show ?thesis using f(1) flush_whole_sure [OF c(1), of t None ps fs xs] by (simp add: same_ring(1) [OF eq])
qed

text \<open>
  C25. One thread alone: the steps of a \<open>put\<close> and of a \<open>flushAll\<close> are equivalent to the functions. On a
  ring that is in order, with the lock free, a call that has claimed the slot at the cursor (or taken
  the lock) returns with exactly one shared state: that of the logger after the function, the
  written lines followed by what is then pending being what was pending before followed by the new
  line. So what is proved of calls one after the other holds of the steps, and the other way round.
\<close>

theorem alone_equivalent:
  assumes "ring_ok lg" "n \<le> length msg" "n \<le> MSG_SIZE"
  shows "(\<exists>lg' w' ls s1. put_ring this msg n (lg, w) = Inr (lg', w') \<and>
      tstep t Idle (ring_view None lg ps fs xs) (At_available (sl_cursor lg) (take n msg)) s1 \<and>
      (\<forall>s'. returns t (At_available (sl_cursor lg) (take n msg)) s1 s' \<longleftrightarrow> s' = ring_view None lg' (ps @ [take n msg]) (fs @ ls) xs) \<and>
      concat ls @ pending lg' = pending lg @ take n msg) \<and>
    (\<exists>lg' w' ls p s1. flushAll this (lg, w) = (lg', w') \<and> tstep t Idle (ring_view None lg ps fs xs) p s1 \<and>
      (\<forall>s'. returns t p s1 s' \<longleftrightarrow> s' = ring_view None lg' ps (fs @ ls) xs) \<and> concat ls = pending lg \<and> pending lg' = [])"
proof -
  let ?c = "sl_cursor lg" and ?num = "length (sl_logs lg)" and ?m = "take n msg"
  let ?s = "ring_view None lg ps fs xs" and ?is = "flush_order (sl_cursor lg) (length (sl_logs lg))"
  let ?s1 = "ring_view None (lg\<lparr>sl_cursor := (?c + 1) mod ?num\<rparr>) (ps @ [?m]) fs xs"
  have "tstep t Idle ?s (At_available ?c ?m) ?s1" using tstep.claim [of t ?s ?m] by (simp add: ring_view_def)
  moreover have "tstep t Idle ?s (At_flush ?is None) (ring_view (Some t) lg ps fs xs)"
    using tstep.flush_all [of ?s t] by (simp add: ring_view_def)
  moreover obtain lg1 w1 ls where "put_ring this msg n (lg, w) = Inr (lg1, w1)" "concat ls @ pending lg1 = pending lg @ ?m"
      "(sure t)\<^sup>*\<^sup>* (At_available ?c ?m, ?s1) (Idle, ring_view None lg1 (ps @ [?m]) (fs @ ls) xs)"
    using put_alone [OF assms, of this w t ps fs xs] by blast
  moreover obtain lg2 w2 where "flushAll this (lg, w) = (lg2, w2)" "pending lg2 = []"
      "(sure t)\<^sup>*\<^sup>* (At_flush ?is None, ring_view (Some t) lg ps fs xs) (Idle, ring_view None lg2 ps (fs @ flush_lines ?is (sl_logs lg)) xs)"
    using flush_alone [OF assms(1), of this w t ps fs xs] by blast
  moreover have "concat (flush_lines ?is (sl_logs lg)) = pending lg"
    using assms(1) by (intro flush_lines_pending) (simp add: ring_ok_def)
  ultimately show ?thesis unfolding returns_def using sure_returns by metis
qed

theorem alone_equivalent_witness:
  "\<exists>lg' w' ls s1. put_ring 7 ''hello'' 5 (demo_logger, demo_log_world) = Inr (lg', w') \<and>
     tstep 1 Idle (ring_view None demo_logger [] [] []) (At_available 0 ''hello'') s1 \<and>
     (\<forall>s'. returns 1 (At_available 0 ''hello'') s1 s' \<longleftrightarrow> s' = ring_view None lg' [''hello''] ls []) \<and>
     concat ls @ pending lg' = ''hello''"
proof -
  have "log_ok 0 1 (demo_logger, demo_log_world)" by (rule demo_logger_ok) simp
  then have "ring_ok demo_logger" by (simp add: log_ok_def Let_def)
  moreover have "pending demo_logger = []" by (simp add: demo_logger_def pending_def slots_def dirty_text_def elem_ok_new)
  moreover have "sl_cursor demo_logger = 0" by (simp add: demo_logger_def)
  ultimately show ?thesis
    using alone_equivalent [of demo_logger 5 "''hello''" 7 demo_log_world 1 "[]" "[]" "[]"] by (simp add: MSG_SIZE_def)
qed

end
