(* ===== verification/Ieee_Double.thy ===== *)
theory Ieee_Double
  imports Complex_Main Prelude
begin

section \<open>Double precision numbers\<close>

text \<open>
  The arithmetic of \<open>double\<close> that the code uses, on rational numbers: the result of an operation
  is the exact one rounded to the nearest number with 53 significant bits, a tie going to the even
  one (IEEE 754 binary64, the default rounding mode). The exponent is not bounded: the values the
  code computes with, times and durations, are far from the limits of the format. Conversion to an
  unsigned integer truncates and is undefined outside the range of the type; \<open>std::fixed\<close> with a
  precision prints the exact value rounded to that many decimals, as the C library does.
\<close>

subsection \<open>Rounding\<close>

text \<open>The number of binary digits.\<close>

function blen :: "int \<Rightarrow> nat" where
  "blen n = (if n \<le> 0 then 0 else Suc (blen (n div 2)))"
  by pat_completeness auto
termination by (relation "measure nat") auto

declare blen.simps [simp del]

text \<open>To the nearest integer, a tie to the even one.\<close>

definition rne :: "rat \<Rightarrow> int" where
  "rne x = (let f = \<lfloor>x\<rfloor>; d = x - of_int f
            in if d < 1 / 2 then f else if d > 1 / 2 then f + 1 else if even f then f else f + 1)"

text \<open>The \<open>e\<close> with \<open>2\<^sup>e \<le> \<bar>x\<bar> < 2\<^sup>e\<^sup>+\<^sup>1\<close>, and the distance of neighbouring numbers there.\<close>

definition binexp :: "rat \<Rightarrow> int" where
  "binexp x = (let (p, q) = quotient_of \<bar>x\<bar>; e = int (blen p) - int (blen q)
               in if 2 powi e \<le> \<bar>x\<bar> then e else e - 1)"

definition ulp :: "rat \<Rightarrow> rat" where
  "ulp x = 2 powi (binexp x - 52)"

definition dbl :: "rat \<Rightarrow> rat" where
  "dbl x = (if x = 0 then 0 else of_int (rne (x / ulp x)) * ulp x)"

text \<open>\<open>static_cast<uint64_t>\<close> of a double.\<close>

definition dbl_to_u64 :: "rat \<Rightarrow> u64 option" where
  "dbl_to_u64 x =
     (let t = (if 0 \<le> x then \<lfloor>x\<rfloor> else - \<lfloor>- x\<rfloor>)
      in if 0 \<le> t \<and> t < 18446744073709551616 then Some (word_of_int t) else None)"

subsection \<open>Error bounds\<close>

lemma blen_bounds: "0 < n \<Longrightarrow> 2 ^ (blen n - 1) \<le> n \<and> n < 2 ^ blen n \<and> 0 < blen n"
proof (induction n rule: blen.induct)
  case (1 n)
  show ?case
  proof (cases "n = 1")
    case True
    then show ?thesis by (simp add: blen.simps)
  next
    case False
    then have pos: "0 < n div 2" using 1(2) by linarith
    with 1 have "2 ^ (blen (n div 2) - 1) \<le> n div 2" "n div 2 < 2 ^ blen (n div 2)" "0 < blen (n div 2)"
      by auto
    moreover obtain k where "blen (n div 2) = Suc k" using \<open>0 < blen (n div 2)\<close> gr0_conv_Suc by blast
    moreover have "blen n = Suc (blen (n div 2))" using 1(2) by (simp add: blen.simps [of n])
    moreover have "a \<le> n div 2 \<Longrightarrow> 2 * a \<le> n" "n div 2 < a \<Longrightarrow> n < 2 * a" for a :: int by linarith+
    ultimately show ?thesis by fastforce
  qed
qed

lemma binexp_bounds:
  assumes "x \<noteq> 0"
  shows "2 powi binexp x \<le> \<bar>x\<bar>" "\<bar>x\<bar> < 2 powi (binexp x + 1)"
proof -
  obtain p q where pq: "quotient_of \<bar>x\<bar> = (p, q)" by force
  have q: "0 < q" using quotient_of_denom_pos [OF pq] .
  have xpq: "\<bar>x\<bar> = rat_of_int p / rat_of_int q" using quotient_of_div [OF pq] .
  with assms q have p: "0 < p" by (metis abs_le_zero_iff divide_nonpos_pos not_less of_int_0_le_iff of_int_0_less_iff of_int_le_0_iff)
  define e where "e = int (blen p) - int (blen q)"
  have bp: "2 ^ (blen p - 1) \<le> rat_of_int p" "rat_of_int p < 2 ^ blen p" "0 < blen p"
    using blen_bounds [OF p] by (metis of_int_le_iff of_int_numeral of_int_power, metis of_int_less_iff of_int_numeral of_int_power, simp)
  have bq: "2 ^ (blen q - 1) \<le> rat_of_int q" "rat_of_int q < 2 ^ blen q" "0 < blen q"
    using blen_bounds [OF q] by (metis of_int_le_iff of_int_numeral of_int_power, metis of_int_less_iff of_int_numeral of_int_power, simp)
  have powm: "2 powi (int a - int b) = (2 :: rat) ^ a / 2 ^ b" for a b
    by (simp add: power_int_diff)
  have half: "(2::rat) ^ (n - 1) = 2 ^ n / 2" if "0 < n" for n using that by (cases n) auto
  have upper: "\<bar>x\<bar> < 2 powi (e + 1)"
  proof -
    have "\<bar>x\<bar> < 2 ^ blen p / (2 ^ blen q / 2)"
      unfolding xpq using bp(2) p bq(1) [unfolded half [OF bq(3)]] by (intro frac_less) simp_all
    then show ?thesis by (simp add: e_def power_int_add powm)
  qed
  have lower: "2 powi (e - 1) \<le> \<bar>x\<bar>"
  proof -
    have "(2 ^ blen p / 2) / 2 ^ blen q \<le> \<bar>x\<bar>"
      unfolding xpq using bp(1) [unfolded half [OF bp(3)]] less_imp_le [OF bq(2)] p q
      by (intro frac_le) simp_all
    then show ?thesis by (simp add: e_def power_int_diff)
  qed
  have be: "binexp x = (if 2 powi e \<le> \<bar>x\<bar> then e else e - 1)"
    by (simp add: binexp_def pq e_def Let_def)
  show "2 powi binexp x \<le> \<bar>x\<bar>" using lower by (simp add: be)
  show "\<bar>x\<bar> < 2 powi (binexp x + 1)" using upper by (auto simp: be)
qed

lemma ulp_pos [simp]: "0 < ulp x"
  by (simp add: ulp_def)

text \<open>Below \<open>2\<^sup>k\<close> the neighbours are at most \<open>2\<^sup>k\<^sup>-\<^sup>5\<^sup>3\<close> apart.\<close>

lemma ulp_below:
  assumes "x \<noteq> 0" "\<bar>x\<bar> < 2 powi k"
  shows "ulp x \<le> 2 powi (k - 53)"
proof -
  have "(2::rat) powi binexp x < 2 powi k" using binexp_bounds [OF assms(1)] assms(2) by linarith
  then have "binexp x < k" by (meson not_less power_int_increasing one_le_numeral)
  then show ?thesis unfolding ulp_def by (intro power_int_increasing) auto
qed

lemma rne_err: "\<bar>of_int (rne x) - x\<bar> \<le> 1 / 2"
proof -
  have "of_int \<lfloor>x\<rfloor> \<le> x" "x < of_int \<lfloor>x\<rfloor> + 1" by linarith+
  then show ?thesis unfolding rne_def Let_def by (simp split: if_splits)
qed

lemma rne_int [simp]: "rne (of_int n) = n"
  by (simp add: rne_def)

lemma rne_ge: "of_int n \<le> x \<Longrightarrow> n \<le> rne x"
  using rne_err [of x] by (auto simp: rne_def Let_def) linarith+

lemma rne_le: "x \<le> of_int n \<Longrightarrow> rne x \<le> n"
proof -
  assume x: "x \<le> of_int n"
  show ?thesis
  proof (cases "x = of_int n")
    case False
    with x have "\<lfloor>x\<rfloor> < n" by linarith
    then show ?thesis by (simp add: rne_def Let_def)
  qed simp
qed

lemma dbl_err: "\<bar>dbl x - x\<bar> \<le> ulp x / 2"
proof (cases "x = 0")
  case False
  have "\<bar>dbl x - x\<bar> = \<bar>of_int (rne (x / ulp x)) - x / ulp x\<bar> * ulp x"
    using False by (simp add: dbl_def abs_mult_pos [OF less_imp_le [OF ulp_pos]] left_diff_distrib
        less_imp_neq [OF ulp_pos, symmetric])
  also have "\<dots> \<le> 1 / 2 * ulp x" by (intro mult_right_mono rne_err) (simp add: less_imp_le)
  finally show ?thesis by simp
qed (simp add: dbl_def less_imp_le)

lemma dbl_err_below: "\<bar>x\<bar> < 2 powi k \<Longrightarrow> \<bar>dbl x - x\<bar> \<le> 2 powi (k - 54)"
proof (cases "x = 0")
  case False
  assume "\<bar>x\<bar> < 2 powi k"
  then have "ulp x / 2 \<le> 2 powi (k - 53) / 2" using ulp_below [OF False] by simp
  also have "\<dots> = 2 powi (k - 54)" by (simp add: power_int_diff field_simps)
  finally show ?thesis using dbl_err [of x] by linarith
qed (simp add: dbl_def)

lemma dbl_err_pow: "\<bar>x\<bar> < 2 ^ k \<Longrightarrow> k \<le> 54 \<Longrightarrow> \<bar>dbl x - x\<bar> \<le> 1 / 2 ^ (54 - k)"
  using dbl_err_below [of x "int k"]
  by (simp add: power_int_def nat_diff_distrib power_one_over split: if_splits)

text \<open>Rounding does not cross an integer, for values below \<open>2\<^sup>5\<^sup>3\<close>.\<close>

lemma int_over_ulp:
  assumes "x \<noteq> 0" "\<bar>x\<bar> < 2 ^ 53"
  shows "\<exists>m. of_int n / ulp x = of_int m"
proof -
  have "\<bar>x\<bar> < 2 powi 53" using assms(2) by simp
  then have "binexp x < 53" using binexp_bounds(1) [OF assms(1)]
    by (meson le_less_trans not_less power_int_increasing one_le_numeral)
  then have "of_int n / ulp x = of_int (n * 2 ^ nat (52 - binexp x))"
    by (simp add: ulp_def power_int_def field_simps)
  then show ?thesis by blast
qed

lemma dbl_ge_int:
  assumes "of_int n \<le> x" "\<bar>x\<bar> < 2 ^ 53"
  shows "of_int n \<le> dbl x"
proof (cases "x = 0")
  case False
  obtain m where m: "of_int n / ulp x = of_int m" using int_over_ulp [OF False assms(2)] by blast
  have "of_int m \<le> x / ulp x" using assms(1) by (simp add: m [symmetric] divide_right_mono less_imp_le)
  then have "of_int n / ulp x \<le> of_int (rne (x / ulp x))" unfolding m using rne_ge by simp
  then show ?thesis using False by (simp add: dbl_def pos_divide_le_eq)
qed (use assms in \<open>simp add: dbl_def\<close>)

lemma dbl_le_int:
  assumes "x \<le> of_int n" "\<bar>x\<bar> < 2 ^ 53"
  shows "dbl x \<le> of_int n"
proof (cases "x = 0")
  case False
  obtain m where m: "of_int n / ulp x = of_int m" using int_over_ulp [OF False assms(2)] by blast
  have "x / ulp x \<le> of_int m" using assms(1) by (simp add: m [symmetric] divide_right_mono less_imp_le)
  then have "of_int (rne (x / ulp x)) \<le> of_int n / ulp x" unfolding m using rne_le by simp
  then show ?thesis using False by (simp add: dbl_def pos_le_divide_eq)
qed (use assms in \<open>simp add: dbl_def\<close>)

lemma dbl_int [simp]: "\<bar>n\<bar> < 2 ^ 53 \<Longrightarrow> dbl (of_int n) = of_int n"
proof -
  assume "\<bar>n\<bar> < 2 ^ 53"
  then have "\<bar>rat_of_int n\<bar> < 2 ^ 53" by (metis of_int_abs of_int_less_iff of_int_numeral of_int_power)
  then show ?thesis using dbl_ge_int [of n "of_int n"] dbl_le_int [of "of_int n" n] by simp
qed

lemma dbl_nonneg: "0 \<le> x \<Longrightarrow> 0 \<le> dbl x"
proof -
  assume "0 \<le> x"
  then have "0 \<le> rne (x / ulp x)" using rne_ge [of 0] by (simp add: less_imp_le)
  then show ?thesis by (simp add: dbl_def less_imp_le)
qed

text \<open>The truncated value of a double close to the exact one.\<close>

lemma dbl_to_u64_floor:
  assumes "0 \<le> x" "x < 18446744073709551616"
  shows "dbl_to_u64 x = Some (word_of_int \<lfloor>x\<rfloor>)"
  using assms by (simp add: dbl_to_u64_def floor_less_iff)

end
