(* ===== verification/Timer.thy ===== *)
theory Timer
  imports Ieee_Double Std_String
begin

section \<open>Timers and printed durations\<close>

text \<open>
  The class \<open>Timer\<close>, \<open>usToString\<close> and \<open>sleep_ms\<close> of \<open>include/common/timer.h\<close>. The system clock
  counts nanoseconds; its reading is an argument of every operation that asks for the time. A
  difference of two readings converted to \<open>duration<double>\<close> is the count as a double divided by
  \<open>1e9\<close>. An operation whose conversion to an unsigned integer is undefined (the clock was set
  back by a second or more) gives \<open>None\<close>.

  What is shown: below 104 days the timer works in whole seconds, so that it never fires early and
  is at most one second late; the readings in milliseconds and microseconds are the elapsed time
  rounded down, or one less exactly at a full unit; a printed duration is off by at most half of
  its last digit.
\<close>

subsection \<open>The operations\<close>

type_synonym time_point = int

record timer =
  tm_start :: time_point
  tm_duration_ms :: u64

definition timer_default :: "time_point \<Rightarrow> timer" where
  "timer_default now = \<lparr>tm_start = now, tm_duration_ms = 0\<rparr>"

definition timer_new :: "time_point \<Rightarrow> u64 \<Rightarrow> timer" where
  "timer_new now ms = \<lparr>tm_start = now, tm_duration_ms = ms\<rparr>"

text \<open>\<open>std::chrono::duration<double> elapsed = cur - start\<close>, its count.\<close>

definition elapsed :: "time_point \<Rightarrow> time_point \<Rightarrow> rat" where
  "elapsed cur s = dbl (dbl (of_int (cur - s)) / 1000000000)"

definition timeover :: "time_point \<Rightarrow> timer \<Rightarrow> bool option" where
  "timeover cur t =
     (case dbl_to_u64 (elapsed cur (tm_start t)) of
        None \<Rightarrow> None
      | Some sec \<Rightarrow> Some (tm_duration_ms t < sec * 1000))"

definition timeout :: "time_point \<Rightarrow> timer \<Rightarrow> bool option" where
  "timeout cur t = timeover cur t"

definition getTimeSec :: "time_point \<Rightarrow> timer \<Rightarrow> u64 option" where
  "getTimeSec cur t = dbl_to_u64 (elapsed cur (tm_start t))"

definition getTimeMs :: "time_point \<Rightarrow> timer \<Rightarrow> u64 option" where
  "getTimeMs cur t = dbl_to_u64 (dbl (elapsed cur (tm_start t) * 1000))"

definition getTimeUs :: "time_point \<Rightarrow> timer \<Rightarrow> u64 option" where
  "getTimeUs cur t = dbl_to_u64 (dbl (elapsed cur (tm_start t) * 1000000))"

definition timer_reset :: "time_point \<Rightarrow> timer \<Rightarrow> timer" where
  "timer_reset now t = t\<lparr>tm_start := now\<rparr>"

definition resetSec :: "time_point \<Rightarrow> u64 \<Rightarrow> timer \<Rightarrow> timer" where
  "resetSec now sec t = timer_reset now (t\<lparr>tm_duration_ms := sec * 1000\<rparr>)"

definition resetMs :: "time_point \<Rightarrow> u64 \<Rightarrow> timer \<Rightarrow> timer" where
  "resetMs now ms t = timer_reset now (t\<lparr>tm_duration_ms := ms\<rparr>)"

text \<open>\<open>ss << std::fixed << std::setprecision(p) << x\<close> for a nonnegative double and \<open>p \<in> {0, 1}\<close>.\<close>

definition fixed0 :: "rat \<Rightarrow> string" where
  "fixed0 x = show_nat (nat (rne x))"

definition fixed1 :: "rat \<Rightarrow> string" where
  "fixed1 x = (let r = nat (rne (x * 10)) in show_nat (r div 10) @ ''.'' @ show_nat (r mod 10))"

definition usToString :: "u64 \<Rightarrow> string" where
  "usToString us =
     (if us < 1000 then show_nat (unat us) @ '' us''
      else if us < 1000000 then
        (let tmp = dbl (dbl (of_int (uint us)) / 1000) in fixed1 tmp @ '' ms'')
      else if us < 600 * 1000000 then
        (let tmp = dbl (dbl (of_int (uint us)) / 1000000) in fixed1 tmp @ '' s'')
      else
        (let tmp = dbl (dbl (dbl (of_int (uint us)) / 60) / 1000000) in fixed0 tmp @ '' m''))"

text \<open>What \<open>sleep_ms\<close> prints and how many milliseconds it sleeps.\<close>

definition sleep_ms :: "u64 \<Rightarrow> string \<Rightarrow> string \<times> u64" where
  "sleep_ms ms msg =
     (if msg \<noteq> [] then msg @ '' ('' @ show_nat (unat ms) @ '' ms)'' @ [CHR 0x0A] else [], ms)"

subsection \<open>Elapsed time\<close>

text \<open>\<open>2\<^sup>5\<^sup>3\<close> nanoseconds are 104 days, \<open>2\<^sup>5\<^sup>1\<close> are 26.\<close>

lemma elapsed_close:
  assumes "0 \<le> cur - s" "cur - s < 2 ^ 53"
  shows "elapsed cur s = dbl (of_int (cur - s) / 1000000000)"
    and "\<bar>elapsed cur s - of_int (cur - s) / 1000000000\<bar> \<le> 1 / 2 ^ 30"
    and "0 \<le> elapsed cur s"
proof -
  have n: "\<bar>cur - s\<bar> < 2 ^ 53" using assms by simp
  show e: "elapsed cur s = dbl (of_int (cur - s) / 1000000000)"
    unfolding elapsed_def dbl_int [OF n] ..
  have "rat_of_int (cur - s) < rat_of_int (2 ^ 53)" using assms(2) unfolding of_int_less_iff .
  then have "\<bar>rat_of_int (cur - s) / 1000000000\<bar> < 2 ^ 24" using assms(1) by simp
  from dbl_err_pow [OF this] show "\<bar>elapsed cur s - of_int (cur - s) / 1000000000\<bar> \<le> 1 / 2 ^ 30"
    unfolding e by simp
  show "0 \<le> elapsed cur s" unfolding e using assms(1) by (intro dbl_nonneg) simp
qed

text \<open>A number closer to \<open>n / d\<close> than \<open>1 / d\<close> has its integer part, up to an exact multiple.\<close>

lemma floor_div_close:
  fixes y :: rat
  assumes d: "0 < d" and y: "\<bar>y - of_int n / of_int d\<bar> < 1 / of_int d"
  shows "\<lfloor>y\<rfloor> = n div d \<or> d dvd n \<and> \<lfloor>y\<rfloor> = n div d - 1"
proof -
  define q r where "q = n div d" and "r = n mod d"
  have "n = q * d + r" by (simp add: q_def r_def)
  then have nd: "rat_of_int n / of_int d = of_int q + of_int r / of_int d" using d by (simp add: add_divide_distrib)
  have r: "0 \<le> r" "r \<le> d - 1" using d by (simp_all add: r_def)
  have "(rat_of_int r + 1) / of_int d \<le> 1" using r d by (simp add: divide_le_eq_1)
  then have up: "y < of_int q + 1" using y unfolding nd by (simp add: add_divide_distrib abs_less_iff) 
  show ?thesis
  proof (cases "r = 0")
    case True
    have "1 / rat_of_int d \<le> 1" using d by simp
    then have "of_int q - 1 < y" using y unfolding nd True by (simp add: abs_less_iff)
    then have "\<lfloor>y\<rfloor> = q \<or> \<lfloor>y\<rfloor> = q - 1" using up by linarith
    moreover have "d dvd n" using True by (simp add: r_def dvd_eq_mod_eq_0)
    ultimately show ?thesis by (auto simp: q_def)
  next
    case False
    then have "1 \<le> rat_of_int r" using r by simp
    then have "1 / rat_of_int d \<le> of_int r / of_int d" using d by (intro divide_right_mono) simp_all
    then have "of_int q < y" using y unfolding nd by (simp add: abs_less_iff)
    then have "\<lfloor>y\<rfloor> = q" using up by linarith
    then show ?thesis by (simp add: q_def)
  qed
qed

lemma floor_elapsed:
  assumes "0 \<le> cur - s" "cur - s < 2 ^ 53"
  shows "\<lfloor>elapsed cur s\<rfloor> = (cur - s) div 1000000000"
proof -
  define n where "n = cur - s"
  have n: "0 \<le> n" "n < 2 ^ 53" using assms by (simp_all add: n_def)
  have "rat_of_int n < rat_of_int (2 ^ 53)" using n(2) unfolding of_int_less_iff .
  then have b: "\<bar>rat_of_int n / 1000000000\<bar> < 2 ^ 53" using n(1) by simp
  have "\<bar>elapsed cur s - of_int n / 1000000000\<bar> < 1 / of_int 1000000000"
    using elapsed_close(2) [OF assms] by (simp add: n_def [symmetric])
  then have cases: "\<lfloor>elapsed cur s\<rfloor> = n div 1000000000 \<or> \<lfloor>elapsed cur s\<rfloor> = n div 1000000000 - 1"
    using floor_div_close [of 1000000000 "elapsed cur s" n] by auto
  have "rat_of_int (n div 1000000000) \<le> of_int n / 1000000000"
    using floor_divide_of_int_eq [of n 1000000000, where 'a = rat] by (metis of_int_floor_le of_int_numeral)
  then have "rat_of_int (n div 1000000000) \<le> elapsed cur s"
    unfolding elapsed_close(1) [OF assms] n_def [symmetric] using b by (intro dbl_ge_int) simp_all
  then have "n div 1000000000 \<le> \<lfloor>elapsed cur s\<rfloor>" by (simp add: le_floor_iff)
  with cases show ?thesis by (auto simp: n_def)
qed

lemma scaled_elapsed:
  assumes "0 \<le> cur - s" "cur - s < 2 ^ 51" and c: "c = 1000 \<or> c = (1000000 :: int)"
  shows "\<bar>dbl (elapsed cur s * of_int c) - of_int (cur - s) / of_int (1000000000 div c)\<bar> < 1 / of_int (1000000000 div c)"
    and "0 \<le> dbl (elapsed cur s * of_int c)"
proof -
  define n where "n = cur - s"
  define x where "x = elapsed cur s"
  have n: "0 \<le> n" "n < 2 ^ 51" using assms by (simp_all add: n_def)
  have n53: "0 \<le> cur - s" "cur - s < 2 ^ 53" using assms by simp_all
  have nr: "0 \<le> rat_of_int n" "rat_of_int n < 2251799813685248"
    using n by (simp_all add: of_int_less_iff [of n 2251799813685248, where 'a = rat, simplified])
  then have "\<bar>rat_of_int n / 1000000000\<bar> < 2 ^ 22" by simp
  from dbl_err_pow [OF this] have x: "\<bar>x - of_int n / 1000000000\<bar> \<le> 1 / 4294967296"
    by (simp add: x_def elapsed_close(1) [OF n53] n_def)
  have x0: "0 \<le> x" using elapsed_close(3) [OF n53] by (simp add: x_def)
  have xb: "x < 2251801" using x nr(2) by linarith
  show "0 \<le> dbl (elapsed cur s * of_int c)" using x0 c by (intro dbl_nonneg) (auto simp: x_def)
  show "\<bar>dbl (elapsed cur s * of_int c) - of_int (cur - s) / of_int (1000000000 div c)\<bar> < 1 / of_int (1000000000 div c)"
    using c
  proof
    assume c: "c = 1000"
    have "\<bar>x * 1000\<bar> < 2 ^ 32" using x0 xb by simp
    from dbl_err_pow [OF this] have "\<bar>dbl (x * 1000) - x * 1000\<bar> \<le> 1 / 4194304" by simp
    with x have "\<bar>dbl (x * 1000) - of_int n / 1000000\<bar> < 1 / 1000000" by linarith
    then show ?thesis by (simp add: c x_def n_def)
  next
    assume c: "c = 1000000"
    have "\<bar>x * 1000000\<bar> < 2 ^ 42" using x0 xb by simp
    from dbl_err_pow [OF this] have "\<bar>dbl (x * 1000000) - x * 1000000\<bar> \<le> 1 / 4096" by simp
    with x have "\<bar>dbl (x * 1000000) - of_int n / 1000\<bar> < 1 / 1000" by linarith
    then show ?thesis by (simp add: c x_def n_def)
  qed
qed

subsection \<open>The timer\<close>

text \<open>
  C40. While less than \<open>2\<^sup>5\<^sup>3\<close> nanoseconds (104 days) have passed since a timer was started, \<open>timeover\<close>
  is defined and compares the duration with the elapsed whole seconds; so it never reports true
  before the duration has passed, and reports true at the latest one second after it.
\<close>

theorem timer_fires:
  assumes "tm_start t \<le> cur" "cur - tm_start t < 2 ^ 53"
  shows "\<exists>b. timeover cur t = Some b \<and>
    (b \<longleftrightarrow> uint (tm_duration_ms t) < (cur - tm_start t) div 1000000000 * 1000) \<and>
    (b \<longrightarrow> uint (tm_duration_ms t) * 1000000 < cur - tm_start t) \<and>
    (uint (tm_duration_ms t) * 1000000 + 1000000000 \<le> cur - tm_start t \<longrightarrow> b)"
proof -
  define n where "n = cur - tm_start t"
  define q where "q = n div 1000000000"
  have n: "0 \<le> n" "n < 9007199254740992" using assms by (simp_all add: n_def)
  then have q: "0 \<le> q" "q \<le> 9007199" by (simp_all add: q_def)
  have fl: "\<lfloor>elapsed cur (tm_start t)\<rfloor> = q"
    using floor_elapsed [of cur "tm_start t"] assms by (simp add: n_def q_def)
  have e: "0 \<le> elapsed cur (tm_start t)" using elapsed_close(3) assms by simp
  have "elapsed cur (tm_start t) < of_int (q + 1)" using fl by linarith
  also have "\<dots> \<le> 9007200" using q(2) by simp
  finally have "dbl_to_u64 (elapsed cur (tm_start t)) = Some (word_of_int q)"
    using dbl_to_u64_floor [OF e] fl by simp
  moreover have "uint (word_of_int q * 1000 :: u64) = q * 1000"
    using q by (simp add: uint_word_ariths uint_word_of_int)
  ultimately have "timeover cur t = Some (uint (tm_duration_ms t) < q * 1000)"
    by (simp add: timeover_def word_less_def)
  moreover have "q * 1000000000 \<le> n" "n < q * 1000000000 + 1000000000" by (simp_all add: q_def)
  ultimately show ?thesis unfolding n_def [symmetric] q_def [symmetric] by auto
qed

text \<open>Two seconds and a nanosecond into a timer of two seconds; three seconds are needed.\<close>

theorem timer_fires_witness:
  "timeover 3000000000 (timer_new 0 2000) = Some True \<and> timeover 2999999999 (timer_new 0 2000) = Some False"
  using timer_fires [of "timer_new 0 2000" 3000000000] timer_fires [of "timer_new 0 2000" 2999999999]
  by (auto simp: timer_new_def)

text \<open>
  Below \<open>2\<^sup>5\<^sup>1\<close> nanoseconds (26 days) the readings of a timer in milliseconds and in microseconds
  are the elapsed time rounded down, except that exactly at a full unit the product with the
  factor may have been rounded below it and the reading is one less.
\<close>

theorem timer_readings:
  assumes "tm_start t \<le> cur" "cur - tm_start t < 2 ^ 51"
  shows "\<exists>ms us. getTimeMs cur t = Some ms \<and> getTimeUs cur t = Some us \<and>
    (uint ms = (cur - tm_start t) div 1000000 \<or>
     1000000 dvd cur - tm_start t \<and> uint ms + 1 = (cur - tm_start t) div 1000000) \<and>
    (uint us = (cur - tm_start t) div 1000 \<or>
     1000 dvd cur - tm_start t \<and> uint us + 1 = (cur - tm_start t) div 1000)"
proof -
  have n: "0 \<le> cur - tm_start t" "cur - tm_start t < 2251799813685248" using assms by simp_all
  have *: "\<exists>w. dbl_to_u64 y = Some w \<and> uint w = \<lfloor>y\<rfloor>"
    if "0 \<le> y" "\<bar>y - of_int n / of_int d\<bar> < 1 / of_int d" "0 < d" "n < 2251799813685248" for y :: rat and n d :: int
  proof -
    have "\<lfloor>y\<rfloor> \<le> n div d" using floor_div_close [OF that(3,2)] by auto
    also have "\<dots> \<le> max 0 n" using that(3) by (smt (verit) div_by_1 zdiv_mono2 div_neg_pos_less0)
    finally have "\<lfloor>y\<rfloor> < 2251799813685248" using that(4) by linarith
    moreover have "0 \<le> \<lfloor>y\<rfloor>" using that(1) by simp
    ultimately show ?thesis using that(1) by (simp add: dbl_to_u64_def uint_word_of_int)
  qed
  have "\<exists>ms. getTimeMs cur t = Some ms \<and> uint ms = \<lfloor>dbl (elapsed cur (tm_start t) * 1000)\<rfloor>"
    unfolding getTimeMs_def using scaled_elapsed [of cur "tm_start t" 1000] n
    by (intro * [where n = "cur - tm_start t" and d = 1000000]) simp_all
  moreover have "\<exists>us. getTimeUs cur t = Some us \<and> uint us = \<lfloor>dbl (elapsed cur (tm_start t) * 1000000)\<rfloor>"
    unfolding getTimeUs_def using scaled_elapsed [of cur "tm_start t" 1000000] n
    by (intro * [where n = "cur - tm_start t" and d = 1000]) simp_all
  moreover have "\<lfloor>dbl (elapsed cur (tm_start t) * 1000)\<rfloor> = (cur - tm_start t) div 1000000 \<or>
      1000000 dvd cur - tm_start t \<and> \<lfloor>dbl (elapsed cur (tm_start t) * 1000)\<rfloor> = (cur - tm_start t) div 1000000 - 1"
    using scaled_elapsed [of cur "tm_start t" 1000] n by (intro floor_div_close) simp_all
  moreover have "\<lfloor>dbl (elapsed cur (tm_start t) * 1000000)\<rfloor> = (cur - tm_start t) div 1000 \<or>
      1000 dvd cur - tm_start t \<and> \<lfloor>dbl (elapsed cur (tm_start t) * 1000000)\<rfloor> = (cur - tm_start t) div 1000 - 1"
    using scaled_elapsed [of cur "tm_start t" 1000000] n by (intro floor_div_close) simp_all
  ultimately show ?thesis by auto
qed

text \<open>The reading one less does occur: after 1001 milliseconds the timer reads 1000.\<close>

lemma reading_one_less: "getTimeMs 1001000000 (timer_default 0) = Some 1000"
  by code_simp

theorem timer_readings_witness:
  "\<exists>ms. getTimeMs 1001000001 (timer_default 0) = Some ms \<and> uint ms = 1001"
  using timer_readings [of "timer_default 0" 1001000001] by (auto simp: timer_default_def)

subsection \<open>Printed durations\<close>

lemma rne_close: "\<bar>x - y\<bar> \<le> e \<Longrightarrow> \<bar>of_int (rne x) - y\<bar> \<le> 1 / 2 + e"
  using rne_err [of x] by linarith

text \<open>The amounts that \<open>usToString\<close> computes, in the printed unit.\<close>

lemma us_amounts:
  fixes n :: int
  assumes "0 \<le> n"
  shows "n < 1000000 \<Longrightarrow> \<bar>100 * rne (dbl (of_int n / 1000) * 10) - n\<bar> \<le> 50"
    and "n < 600000000 \<Longrightarrow> \<bar>100000 * rne (dbl (of_int n / 1000000) * 10) - n\<bar> \<le> 50000"
    and "n < 2 ^ 50 \<Longrightarrow> \<bar>60000000 * rne (dbl (dbl (of_int n / 60) / 1000000)) - n\<bar> \<le> 30000000"
proof -
  have n0: "0 \<le> rat_of_int n" using assms by simp
  have int: "\<bar>a\<bar> \<le> b" if "\<bar>rat_of_int a\<bar> < of_int b + 1" for a b :: int using that by linarith
  have cast: "rat_of_int n < of_int m" if "n < m" for m using that by simp
  {
    assume "n < 1000000"
    then have "\<bar>rat_of_int n / 1000\<bar> < 2 ^ 10" using n0 cast [of 1000000] by simp
    from dbl_err_pow [OF this] have "\<bar>dbl (of_int n / 1000) - of_int n / 1000\<bar> \<le> 1 / 17592186044416" by simp
    then have "\<bar>dbl (of_int n / 1000) * 10 - of_int n / 100\<bar> \<le> 1 / 10000" by linarith
    from rne_close [OF this] have "\<bar>100 * of_int (rne (dbl (of_int n / 1000) * 10)) - rat_of_int n\<bar> < 51" by linarith
    then show "\<bar>100 * rne (dbl (of_int n / 1000) * 10) - n\<bar> \<le> 50" by (intro int) simp
  next
    assume "n < 600000000"
    then have "\<bar>rat_of_int n / 1000000\<bar> < 2 ^ 10" using n0 cast [of 600000000] by simp
    from dbl_err_pow [OF this] have "\<bar>dbl (of_int n / 1000000) - of_int n / 1000000\<bar> \<le> 1 / 17592186044416" by simp
    then have "\<bar>dbl (of_int n / 1000000) * 10 - of_int n / 100000\<bar> \<le> 1 / 1000000" by linarith
    from rne_close [OF this] have "\<bar>100000 * of_int (rne (dbl (of_int n / 1000000) * 10)) - rat_of_int n\<bar> < 50001"
      by linarith
    then show "\<bar>100000 * rne (dbl (of_int n / 1000000) * 10) - n\<bar> \<le> 50000" by (intro int) simp
  next
    assume "n < 2 ^ 50"
    then have b: "rat_of_int n < 1125899906842624" using cast [of 1125899906842624] by simp
    then have "\<bar>rat_of_int n / 60\<bar> < 2 ^ 45" using n0 by simp
    from dbl_err_pow [OF this] have d1: "\<bar>dbl (of_int n / 60) - of_int n / 60\<bar> \<le> 1 / 512" by simp
    define x where "x = dbl (rat_of_int n / 60)"
    have "0 \<le> x" unfolding x_def using n0 by (intro dbl_nonneg) simp
    moreover have "x < 18764998500000" using d1 b unfolding x_def by linarith
    ultimately have "\<bar>x / 1000000\<bar> < 2 ^ 25" by simp
    from dbl_err_pow [OF this] have "\<bar>dbl (x / 1000000) - x / 1000000\<bar> \<le> 1 / 536870912" by simp
    with d1 have "\<bar>dbl (x / 1000000) - of_int n / 60000000\<bar> \<le> 1 / 100000000" unfolding x_def by linarith
    from rne_close [OF this] have "\<bar>60000000 * of_int (rne (dbl (x / 1000000))) - rat_of_int n\<bar> < 30000001" by linarith
    then show "\<bar>60000000 * rne (dbl (dbl (of_int n / 60) / 1000000)) - n\<bar> \<le> 30000000"
      unfolding x_def by (intro int) simp
  }
qed

text \<open>
  \<open>usToString\<close> prints microseconds exactly below a millisecond, milliseconds and seconds with one
  decimal up to a second and up to ten minutes, and whole minutes from there; below \<open>2\<^sup>5\<^sup>0\<close>
  microseconds (35 years) the printed amount differs from the duration by at most half of its last
  digit. At the upper end of a unit the amount may be rounded up to the next one: 999950
  microseconds are printed as \<open>1000.0 ms\<close>.
\<close>

theorem us_to_string_close:
  assumes "uint us < 2 ^ 50"
  shows "\<exists>r :: nat.
    (uint us < 1000 \<and> usToString us = show_nat r @ '' us'' \<and> int r = uint us) \<or>
    (1000 \<le> uint us \<and> uint us < 1000000 \<and> \<bar>100 * int r - uint us\<bar> \<le> 50 \<and>
     usToString us = show_nat (r div 10) @ ''.'' @ show_nat (r mod 10) @ '' ms'') \<or>
    (1000000 \<le> uint us \<and> uint us < 600000000 \<and> \<bar>100000 * int r - uint us\<bar> \<le> 50000 \<and>
     usToString us = show_nat (r div 10) @ ''.'' @ show_nat (r mod 10) @ '' s'') \<or>
    (600000000 \<le> uint us \<and> \<bar>60000000 * int r - uint us\<bar> \<le> 30000000 \<and> usToString us = show_nat r @ '' m'')"
proof -
  define n where "n = uint us"
  have n: "0 \<le> n" "\<bar>n\<bar> < 2 ^ 53" "n < 2 ^ 50" using assms by (simp_all add: n_def)
  have d: "dbl (of_int n) = of_int n" by (rule dbl_int [OF n(2)])
  have lt: "us < 1000 \<longleftrightarrow> n < 1000" "us < 1000000 \<longleftrightarrow> n < 1000000" "us < 600000000 \<longleftrightarrow> n < 600000000"
    by (simp_all add: word_less_def n_def)
  have nn: "0 \<le> rne x" if "0 \<le> x" for x using rne_ge [of 0 x] that by simp
  have pos: "0 \<le> rne (dbl (of_int n / 1000) * 10)" "0 \<le> rne (dbl (of_int n / 1000000) * 10)"
    "0 \<le> rne (dbl (dbl (of_int n / 60) / 1000000))"
    using n(1) by (intro nn mult_nonneg_nonneg divide_nonneg_nonneg dbl_nonneg; simp)+
  consider "n < 1000" | "1000 \<le> n" "n < 1000000" | "1000000 \<le> n" "n < 600000000" | "600000000 \<le> n" by linarith
  then show ?thesis
  proof cases
    case 1
    then show ?thesis by (intro exI [of _ "unat us"]) (simp add: usToString_def lt n_def)
  next
    case 2
    then show ?thesis using us_amounts(1) [OF n(1)] pos(1)
      by (intro exI [of _ "nat (rne (dbl (of_int n / 1000) * 10))"])
        (simp add: usToString_def lt d fixed1_def Let_def n_def [symmetric])
  next
    case 3
    then show ?thesis using us_amounts(2) [OF n(1)] pos(2)
      by (intro exI [of _ "nat (rne (dbl (of_int n / 1000000) * 10))"])
        (simp add: usToString_def lt d fixed1_def Let_def n_def [symmetric])
  next
    case 4
    then show ?thesis using us_amounts(3) [OF n(1) n(3)] pos(3)
      by (intro exI [of _ "nat (rne (dbl (dbl (of_int n / 60) / 1000000)))"])
        (simp add: usToString_def lt d fixed0_def Let_def n_def [symmetric])
  qed
qed

lemma us_to_string_rounds_up: "usToString 999950 = ''1000.0 ms''"
proof -
  have "rne (dbl (dbl (of_int 999950) / 1000) * 10) = 10000" by code_simp
  moreover have "char_of (48 :: nat) = CHR ''0''" "char_of (49 :: nat) = CHR ''1''" by code_simp+
  ultimately show ?thesis by (simp add: usToString_def fixed1_def show_nat.simps Let_def)
qed

theorem us_to_string_close_witness:
  "\<exists>r :: nat. \<bar>100 * int r - 1500\<bar> \<le> 50 \<and> usToString 1500 = show_nat (r div 10) @ ''.'' @ show_nat (r mod 10) @ '' ms''"
  using us_to_string_close [of 1500] by auto

end
