(* ===== verification/Logger_Timed.thy ===== *)
theory Logger_Timed
  imports Timer Logger_Ring
begin

section \<open>Messages that are raised once per interval\<close>

text \<open>
  The macros \<open>_timed_log_g\<close> and \<open>_timed_log_t\<close> of \<open>logger.h\<close>: a message of level \<open>lv1\<close> that is logged
  at level \<open>lv2\<close> the first time and then once per interval. The variables they declare (static, or
  one set per thread) are the state; the two readings of the clock are arguments, the second one
  being taken under the lock. Also the macros that name a level.
\<close>

subsection \<open>The macros\<close>

record timed_state =
  first_event_fired :: bool
  last_timeout :: time_point

definition timed_log_definition :: "time_point \<Rightarrow> timed_state" where
  "timed_log_definition now = \<lparr>first_event_fired = False, last_timeout = now\<rparr>"

text \<open>The condition of the macro, which it evaluates twice.\<close>

definition interval_over :: "time_point \<Rightarrow> int \<Rightarrow> timed_state \<Rightarrow> bool" where
  "interval_over cur interval_ms ts \<longleftrightarrow>
     dbl (elapsed cur (last_timeout ts) * 1000) > of_int interval_ms \<or> \<not> first_event_fired ts"

definition timed_check :: "time_point \<Rightarrow> time_point \<Rightarrow> int \<Rightarrow> timed_state \<Rightarrow> bool \<times> timed_state" where
  "timed_check cur cur' interval_ms ts =
     (if interval_over cur interval_ms ts then
        if interval_over cur' interval_ms ts
        then (True, ts\<lparr>first_event_fired := True, last_timeout := cur'\<rparr>)
        else (False, ts)
      else (False, ts))"

definition timed_log_body :: "put_env \<Rightarrow> nat \<Rightarrow> time_point \<times> time_point \<Rightarrow> int \<Rightarrow> int \<Rightarrow> int \<Rightarrow> string \<Rightarrow> string \<Rightarrow> nat \<Rightarrow> string \<Rightarrow>
    timed_state \<times> log_st \<Rightarrow> timed_state \<times> (log_error + log_st)" where
  "timed_log_body E this = (\<lambda>(cur, cur') interval_ms lv1 lv2 src func line body (ts, st).
     case timed_check cur cur' interval_ms ts of
       (over, ts) \<Rightarrow> (ts, if over then log_macro E this lv2 src func line body st
                             else log_macro E this lv1 src func line body st))"

text \<open>
  \<open>_timed_log_g\<close>: the variables are static, made when control first passes the statement; \<open>now\<close> is the
  clock at that moment. \<open>_timed_log_t\<close>: every thread makes its own.
\<close>

definition timed_log_g :: "put_env \<Rightarrow> nat \<Rightarrow> time_point \<Rightarrow> time_point \<times> time_point \<Rightarrow> int \<Rightarrow> int \<Rightarrow> int \<Rightarrow> string \<Rightarrow> string \<Rightarrow> nat \<Rightarrow>
    string \<Rightarrow> timed_state option \<times> log_st \<Rightarrow> timed_state option \<times> (log_error + log_st)" where
  "timed_log_g E this now clock interval_ms lv1 lv2 src func line body = (\<lambda>(vars, st).
     let ts = (case vars of None \<Rightarrow> timed_log_definition now | Some ts \<Rightarrow> ts) in
     (case timed_log_body E this clock interval_ms lv1 lv2 src func line body (ts, st) of (ts, r) \<Rightarrow> (Some ts, r)))"

definition timed_log_t :: "nat \<Rightarrow> put_env \<Rightarrow> nat \<Rightarrow> time_point \<Rightarrow> time_point \<times> time_point \<Rightarrow> int \<Rightarrow> int \<Rightarrow> int \<Rightarrow> string \<Rightarrow> string \<Rightarrow>
    nat \<Rightarrow> string \<Rightarrow> (nat \<rightharpoonup> timed_state) \<times> log_st \<Rightarrow> (nat \<rightharpoonup> timed_state) \<times> (log_error + log_st)" where
  "timed_log_t thread E this now clock interval_ms lv1 lv2 src func line body = (\<lambda>(vars, st).
     case timed_log_g E this now clock interval_ms lv1 lv2 src func line body (vars thread, st) of
       (ts, r) \<Rightarrow> (vars(thread := ts), r))"

text \<open>\<open>_log_sys\<close> to \<open>_log_trace\<close>.\<close>

definition log_sys :: "put_env \<Rightarrow> nat \<Rightarrow> string \<Rightarrow> string \<Rightarrow> nat \<Rightarrow> string \<Rightarrow> log_st \<Rightarrow> log_error + log_st" where
  "log_sys E this = log_macro E this 0"

definition log_fatal :: "put_env \<Rightarrow> nat \<Rightarrow> string \<Rightarrow> string \<Rightarrow> nat \<Rightarrow> string \<Rightarrow> log_st \<Rightarrow> log_error + log_st" where
  "log_fatal E this = log_macro E this 1"

definition log_err :: "put_env \<Rightarrow> nat \<Rightarrow> string \<Rightarrow> string \<Rightarrow> nat \<Rightarrow> string \<Rightarrow> log_st \<Rightarrow> log_error + log_st" where
  "log_err E this = log_macro E this 2"

definition log_warn :: "put_env \<Rightarrow> nat \<Rightarrow> string \<Rightarrow> string \<Rightarrow> nat \<Rightarrow> string \<Rightarrow> log_st \<Rightarrow> log_error + log_st" where
  "log_warn E this = log_macro E this 3"

definition log_info :: "put_env \<Rightarrow> nat \<Rightarrow> string \<Rightarrow> string \<Rightarrow> nat \<Rightarrow> string \<Rightarrow> log_st \<Rightarrow> log_error + log_st" where
  "log_info E this = log_macro E this 4"

definition log_debug :: "put_env \<Rightarrow> nat \<Rightarrow> string \<Rightarrow> string \<Rightarrow> nat \<Rightarrow> string \<Rightarrow> log_st \<Rightarrow> log_error + log_st" where
  "log_debug E this = log_macro E this 5"

definition log_trace :: "put_env \<Rightarrow> nat \<Rightarrow> string \<Rightarrow> string \<Rightarrow> nat \<Rightarrow> string \<Rightarrow> log_st \<Rightarrow> log_error + log_st" where
  "log_trace E this = log_macro E this 6"

text \<open>\<open>_s_sys\<close> to \<open>_s_trace\<close>.\<close>

definition s_sys :: "put_env \<Rightarrow> nat \<Rightarrow> string \<Rightarrow> string \<Rightarrow> nat \<Rightarrow> string list \<Rightarrow>
    logger_stream \<times> log_st \<Rightarrow> logger_stream \<times> (log_error + log_st)" where
  "s_sys E this = log_stream E this 0"

definition s_fatal :: "put_env \<Rightarrow> nat \<Rightarrow> string \<Rightarrow> string \<Rightarrow> nat \<Rightarrow> string list \<Rightarrow>
    logger_stream \<times> log_st \<Rightarrow> logger_stream \<times> (log_error + log_st)" where
  "s_fatal E this = log_stream E this 1"

definition s_err :: "put_env \<Rightarrow> nat \<Rightarrow> string \<Rightarrow> string \<Rightarrow> nat \<Rightarrow> string list \<Rightarrow>
    logger_stream \<times> log_st \<Rightarrow> logger_stream \<times> (log_error + log_st)" where
  "s_err E this = log_stream E this 2"

definition s_warn :: "put_env \<Rightarrow> nat \<Rightarrow> string \<Rightarrow> string \<Rightarrow> nat \<Rightarrow> string list \<Rightarrow>
    logger_stream \<times> log_st \<Rightarrow> logger_stream \<times> (log_error + log_st)" where
  "s_warn E this = log_stream E this 3"

definition s_info :: "put_env \<Rightarrow> nat \<Rightarrow> string \<Rightarrow> string \<Rightarrow> nat \<Rightarrow> string list \<Rightarrow>
    logger_stream \<times> log_st \<Rightarrow> logger_stream \<times> (log_error + log_st)" where
  "s_info E this = log_stream E this 4"

definition s_debug :: "put_env \<Rightarrow> nat \<Rightarrow> string \<Rightarrow> string \<Rightarrow> nat \<Rightarrow> string list \<Rightarrow>
    logger_stream \<times> log_st \<Rightarrow> logger_stream \<times> (log_error + log_st)" where
  "s_debug E this = log_stream E this 5"

definition s_trace :: "put_env \<Rightarrow> nat \<Rightarrow> string \<Rightarrow> string \<Rightarrow> nat \<Rightarrow> string list \<Rightarrow>
    logger_stream \<times> log_st \<Rightarrow> logger_stream \<times> (log_error + log_st)" where
  "s_trace E this = log_stream E this 6"

text \<open>A sequence of calls with the same interval: which of them are raised.\<close>

fun timed_run :: "int \<Rightarrow> timed_state \<Rightarrow> (time_point \<times> time_point) list \<Rightarrow> bool list" where
  "timed_run I ts [] = []"
| "timed_run I ts ((cur, cur') # cs) = (case timed_check cur cur' I ts of (b, ts') \<Rightarrow> b # timed_run I ts' cs)"

subsection \<open>Once per interval\<close>

text \<open>Below 26 days the comparison of doubles decides up to the exact boundary.\<close>

lemma interval_over_iff:
  assumes "0 \<le> cur - last_timeout ts" "cur - last_timeout ts < 2 ^ 51" "first_event_fired ts"
  shows "interval_over cur I ts \<Longrightarrow> I * 1000000 \<le> cur - last_timeout ts"
    and "I * 1000000 < cur - last_timeout ts \<Longrightarrow> interval_over cur I ts"
proof -
  define n where "n = cur - last_timeout ts"
  define y where "y = dbl (elapsed cur (last_timeout ts) * 1000)"
  have y: "\<bar>y - of_int n / 1000000\<bar> < 1 / 1000000"
    using scaled_elapsed(1) [of cur "last_timeout ts" 1000] assms by (simp add: y_def n_def)
  have iff: "interval_over cur I ts \<longleftrightarrow> of_int I < y" using assms(3) by (simp add: interval_over_def y_def)
  {
    assume "interval_over cur I ts"
    then have "of_int I < y" using iff by simp
    then have "rat_of_int (I * 1000000) < of_int (n + 1)" using y by (simp, linarith)
    then show "I * 1000000 \<le> cur - last_timeout ts" unfolding of_int_less_iff by (simp add: n_def)
  next
    assume "I * 1000000 < cur - last_timeout ts"
    then have "rat_of_int (I * 1000000 + 1) \<le> of_int n" unfolding of_int_le_iff by (simp add: n_def)
    then have "of_int I < y" using y by (simp, linarith)
    then show "interval_over cur I ts" using iff by simp
  }
qed

text \<open>The calls read the clock in order, within 26 days of \<open>t0\<close>.\<close>

fun in_time :: "time_point \<Rightarrow> time_point \<Rightarrow> (time_point \<times> time_point) list \<Rightarrow> bool" where
  "in_time tmax t [] = True"
| "in_time tmax t ((cur, cur') # cs) \<longleftrightarrow> t \<le> cur \<and> cur \<le> cur' \<and> cur' < tmax \<and> in_time tmax cur' cs"

text \<open>
  What the comment above the macros promises, for calls after a raised one at \<open>L\<close>: a raised call is at
  least the interval after the last raised one, and a call more than the interval after it is raised.
\<close>

fun once_per :: "int \<Rightarrow> time_point \<Rightarrow> bool list \<Rightarrow> (time_point \<times> time_point) list \<Rightarrow> bool" where
  "once_per I L (b # bs) ((cur, cur') # cs) \<longleftrightarrow>
     (if b then I * 1000000 \<le> cur' - L \<and> once_per I cur' bs cs
      else cur - L \<le> I * 1000000 \<and> once_per I L bs cs)"
| "once_per I L bs cs \<longleftrightarrow> bs = [] \<and> cs = []"

lemma timed_run_once_per:
  assumes "in_time tmax t cs" "last_timeout ts \<le> t" "tmax \<le> last_timeout ts + 2 ^ 51" "first_event_fired ts"
  shows "once_per I (last_timeout ts) (timed_run I ts cs) cs"
  using assms
proof (induction cs arbitrary: t ts)
  case (Cons c cs)
  obtain cur cur' where c: "c = (cur, cur')" by force
  have tm: "last_timeout ts \<le> cur" "cur \<le> cur'" "cur' < tmax" and rest: "in_time tmax cur' cs"
    using Cons.prems by (auto simp: c)
  have n: "0 \<le> cur - last_timeout ts" "cur - last_timeout ts < 2 ^ 51"
      "0 \<le> cur' - last_timeout ts" "cur' - last_timeout ts < 2 ^ 51"
    using tm Cons.prems(3) by linarith+
  note over = interval_over_iff [OF n(1,2) Cons.prems(4)] interval_over_iff [OF n(3,4) Cons.prems(4)]
  show ?case
  proof (cases "interval_over cur I ts \<and> interval_over cur' I ts")
    case True
    have "once_per I cur' (timed_run I (ts\<lparr>first_event_fired := True, last_timeout := cur'\<rparr>) cs) cs"
      using Cons.IH [OF rest, of "ts\<lparr>first_event_fired := True, last_timeout := cur'\<rparr>"] tm Cons.prems(3) by simp
    then show ?thesis using True over(3) by (simp add: c timed_check_def)
  next
    case False
    then have "cur - last_timeout ts \<le> I * 1000000" using over tm(2) by (smt (verit))
    moreover have "once_per I (last_timeout ts) (timed_run I ts cs) cs"
      using Cons.IH [OF rest _ Cons.prems(3,4)] tm by simp
    ultimately show ?thesis using False by (auto simp: c timed_check_def)
  qed
qed simp

text \<open>
  A message logged through \<open>_timed_log_g\<close> is raised the first time; after that, as long as the
  calls read a clock that does not go back within 26 days, raised messages are at least the interval
  apart and every call that comes more than the interval after the last raised one is raised.
\<close>

theorem timed_log_once:
  assumes "in_time (t0 + 2 ^ 51) t0 ((cur, cur') # cs)"
  shows "\<exists>bs. timed_run I (timed_log_definition t0) ((cur, cur') # cs) = True # bs \<and> once_per I cur' bs cs"
proof -
  have "once_per I cur' (timed_run I \<lparr>first_event_fired = True, last_timeout = cur'\<rparr> cs) cs"
    using timed_run_once_per [of "t0 + 2 ^ 51" cur' cs "\<lparr>first_event_fired = True, last_timeout = cur'\<rparr>"] assms by simp
  then show ?thesis by (simp add: timed_check_def timed_log_definition_def interval_over_def)
qed

theorem timed_log_once_witness:
  "\<exists>bs. timed_run 500 (timed_log_definition 0) [(1, 2), (3, 4), (500000003, 500000004)] = True # bs \<and>
     once_per 500 2 bs [(3, 4), (500000003, 500000004)]"
  using timed_log_once [of 0 1 2 "[(3, 4), (500000003, 500000004)]" 500] by simp

subsection \<open>One interval per process or per thread\<close>

lemma timed_log_g_check:
  "timed_log_g E this now (cur, cur') I lv1 lv2 src func line body (vars, st) =
     (let (over, ts) = timed_check cur cur' I (case vars of None \<Rightarrow> timed_log_definition now | Some ts \<Rightarrow> ts)
      in (Some ts, log_macro E this (if over then lv2 else lv1) src func line body st))"
  by (simp add: timed_log_g_def timed_log_body_def Let_def split: prod.split)

text \<open>
  With \<open>_timed_log_t\<close>, after any interleaving of calls by several threads, each with the logger in any
  state, the variables of a thread are those it would have had with only its own calls of \<open>_timed_log_g\<close>:
  no thread takes the raised message of another.
\<close>

lemma timed_log_t_threads:
  "fold (\<lambda>(i, now, clock, st) vars. fst (timed_log_t i E this now clock I lv1 lv2 src func line body (vars, st))) cs vars j =
   fold (\<lambda>(i, now, clock, st) v. fst (timed_log_g E this now clock I lv1 lv2 src func line body (v, st)))
     (filter (\<lambda>c. fst c = j) cs) (vars j)"
  by (induction cs arbitrary: vars) (auto simp: timed_log_t_def split: prod.split)

end
