(* ===== verification/Backtrace.thy ===== *)
theory Backtrace
  imports Logger
begin

section \<open>The text of a stack trace\<close>

text \<open>
  \<open>src/server/backtrace.h\<close>, the part that is compiled on Linux: a stack is turned into lines with the
  help of \<open>addr2line\<close>, and the lines are appended to a buffer by the same macro \<open>_snprintf\<close> as in
  \<open>logger.cpp\<close>. What the system gives is a parameter: the symbols of \<open>backtrace_symbols\<close>, the output of
  a command run by \<open>popen\<close> (\<open>None\<close> when it cannot be run), the demangler of the C++ runtime, and the
  contents of the two local arrays when \<open>fscanf\<close> does not fill them.
\<close>

record symbol_env =
  se_symbols :: "u64 list \<Rightarrow> string list"
  se_popen :: "string \<Rightarrow> string option"
  se_demangle :: "string \<Rightarrow> string option"
  se_junk :: "nat \<Rightarrow> string \<times> string"

subsection \<open>Hexadecimal numbers\<close>

definition hex_digit :: "nat \<Rightarrow> char" where
  "hex_digit n = ''0123456789abcdef'' ! n"

fun show_hex :: "nat \<Rightarrow> string" where
  "show_hex n = (if n < 16 then [hex_digit n] else show_hex (n div 16) @ [hex_digit (n mod 16)])"

declare show_hex.simps [simp del]

text \<open>\<open>%016lx\<close> and \<open>%-2zu\<close>.\<close>

definition fmt_x0 :: "nat \<Rightarrow> nat \<Rightarrow> string" where
  "fmt_x0 w n = (let ds = show_hex n in replicate (w - length ds) (CHR ''0'') @ ds)"

definition fmt_left :: "nat \<Rightarrow> nat \<Rightarrow> string" where
  "fmt_left w n = (let ds = show_nat n in ds @ replicate (w - length ds) (CHR '' ''))"

definition hex_value :: "char \<Rightarrow> nat option" where
  "hex_value c = (let k = of_char c :: nat in
     if 48 \<le> k \<and> k \<le> 57 then Some (k - 48) else if 97 \<le> k \<and> k \<le> 102 then Some (k - 87)
     else if 65 \<le> k \<and> k \<le> 70 then Some (k - 55) else None)"

fun hex_val :: "nat \<Rightarrow> string \<Rightarrow> nat" where
  "hex_val v [] = v"
| "hex_val v (c # cs) = (case hex_value c of None \<Rightarrow> v | Some d \<Rightarrow> hex_val (16 * v + d) cs)"

text \<open>
  \<open>ss >> actual_addr\<close> of a stream in hexadecimal mode: blanks, a sign, \<open>0x\<close>, digits; 0 without a
  digit, the largest value on overflow.
\<close>

definition read_hex :: "string \<Rightarrow> u64" where
  "read_hex s =
     (let s = dropWhile is_space s;
          neg = (case s of c # _ \<Rightarrow> c = CHR ''-'' | [] \<Rightarrow> False);
          s = (case s of c # r \<Rightarrow> if c = CHR ''-'' \<or> c = CHR ''+'' then r else s | [] \<Rightarrow> s);
          s = (if prefix ''0x'' s \<or> prefix ''0X'' s then drop 2 s else s);
          v = hex_val 0 s
      in if v \<ge> 18446744073709551616 then - 1 else if neg then - word_of_nat v else word_of_nat v)"

subsection \<open>One frame\<close>

text \<open>The name of the executable, and the address: after \<open>(+\<close>, or else the stack pointer itself.\<close>

definition frame_file :: "string \<Rightarrow> string" where
  "frame_file stack_msg = takeWhile (\<lambda>c. c \<noteq> CHR ''('' \<and> c \<noteq> CHR '' '') stack_msg"

definition frame_addr :: "string \<Rightarrow> u64 \<Rightarrow> string \<times> u64" where
  "frame_addr stack_msg stack_ptr =
     (let rest = drop (length (frame_file stack_msg)) stack_msg
      in if prefix ''(+'' rest
         then let addr_str = take 255 (takeWhile (\<lambda>c. c \<noteq> CHR '')'') (drop 2 rest)) in (addr_str, read_hex addr_str)
         else (take 255 (show_hex (unat stack_ptr)), stack_ptr))"

definition frame_cmd :: "string \<Rightarrow> string \<Rightarrow> string" where
  "frame_cmd stack_msg addr_str = take 1023 (''addr2line -f -e '' @ frame_file stack_msg @ '' '' @ addr_str)"

text \<open>\<open>fscanf(fp, "%1023s %1023s", ...)\<close>.\<close>

definition scan_words :: "string \<Rightarrow> string \<times> string \<Rightarrow> string \<times> string" where
  "scan_words out junk =
     (let s = dropWhile is_space out; w = take 1023 (takeWhile (\<lambda>c. \<not> is_space c) s)
      in if s = [] then junk
         else let s' = dropWhile is_space (drop (length w) s)
              in if s' = [] then (w, snd junk) else (w, take 1023 (takeWhile (\<lambda>c. \<not> is_space c) s')))"

definition find_char :: "char \<Rightarrow> string \<Rightarrow> nat option" where
  "find_char c s = (if c \<in> set s then Some (length (takeWhile (\<lambda>x. x \<noteq> c) s)) else None)"

text \<open>With the parentheses the wrong way round the length of \<open>substr\<close> wraps around: the rest of the text.\<close>

definition func_name_part :: "string \<Rightarrow> string" where
  "func_name_part msg_str =
     (let s_pos = find_char (CHR ''('') msg_str;
          e_pos = (case rfind (CHR ''+'') msg_str of Some e \<Rightarrow> Some e | None \<Rightarrow> rfind (CHR '')'') msg_str)
      in case (s_pos, e_pos) of
           (Some s, Some e) \<Rightarrow> if s < e then take (e - s - 1) (drop (s + 1) msg_str) else drop (s + 1) msg_str
         | _ \<Rightarrow> msg_str)"

definition frame_head :: "nat \<Rightarrow> u64 \<Rightarrow> string" where
  "frame_head frame_num actual_addr = ''#'' @ fmt_left 2 frame_num @ '' 0x'' @ fmt_x0 16 (unat actual_addr) @ '' in ''"

definition frame_name :: "symbol_env \<Rightarrow> string \<Rightarrow> string \<Rightarrow> string" where
  "frame_name S stack_msg mangled_name =
     (case se_demangle S mangled_name of
        Some cc \<Rightarrow> cc @ '' at ''
      | None \<Rightarrow> (if func_name_part stack_msg = [] then mangled_name else func_name_part stack_msg) @ ''() at '')"

subsection \<open>The loop over the frames\<close>

text \<open>\<open>avail_len\<close> starts from the size of the buffer in every round; a frame whose command cannot be run is left out.\<close>

fun interpret_loop :: "symbol_env \<Rightarrow> nat \<Rightarrow> nat \<Rightarrow> (nat \<times> string \<times> u64) list \<Rightarrow> string \<times> nat \<Rightarrow> string \<times> nat" where
  "interpret_loop S output_buflen frame_num [] bc = bc"
| "interpret_loop S output_buflen frame_num ((i, stack_msg, stack_ptr) # frames) (output_buf, cur_len) =
     (let (addr_str, actual_addr) = frame_addr stack_msg stack_ptr
      in case se_popen S (frame_cmd stack_msg addr_str) of
           None \<Rightarrow> interpret_loop S output_buflen frame_num frames (output_buf, cur_len)
         | Some out \<Rightarrow>
             (let (mangled_name, file_line) = scan_words out (se_junk S i);
                  (output_buf, _, cur_len) =
                    snprintf_macro (file_line @ [CHR 0x0A])
                      (snprintf_macro (frame_name S stack_msg mangled_name)
                        (snprintf_macro (frame_head frame_num actual_addr) (output_buf, output_buflen, cur_len)))
              in interpret_loop S output_buflen (Suc frame_num) frames (output_buf, cur_len)))"

text \<open>The frames from the second on, with their positions.\<close>

definition frames_of :: "symbol_env \<Rightarrow> u64 list \<Rightarrow> (nat \<times> string \<times> u64) list" where
  "frames_of S stack_ptr = drop 1 (zip [0 ..< length stack_ptr] (zip (se_symbols S stack_ptr) stack_ptr))"

definition stack_interpret :: "symbol_env \<Rightarrow> u64 list \<Rightarrow> string \<Rightarrow> nat \<Rightarrow> string \<times> nat" where
  "stack_interpret S stack_ptr output_buf output_buflen =
     interpret_loop S output_buflen 0 (frames_of S stack_ptr) (output_buf, 0)"

subsection \<open>What the buffer holds\<close>

text \<open>The trace as it is meant: a line for every frame whose command could be run.\<close>

fun trace_lines :: "symbol_env \<Rightarrow> nat \<Rightarrow> (nat \<times> string \<times> u64) list \<Rightarrow> string" where
  "trace_lines S n [] = []"
| "trace_lines S n ((i, stack_msg, stack_ptr) # frames) =
     (let (addr_str, actual_addr) = frame_addr stack_msg stack_ptr
      in case se_popen S (frame_cmd stack_msg addr_str) of
           None \<Rightarrow> trace_lines S n frames
         | Some out \<Rightarrow>
             (let (mangled_name, file_line) = scan_words out (se_junk S i)
              in frame_head n actual_addr @ frame_name S stack_msg mangled_name @ file_line @ [CHR 0x0A] @
                 trace_lines S (Suc n) frames))"

text \<open>
  Three appends that start from the whole buffer: the third finds room for its text after three
  times what was there before, twice the first and once the second text.
\<close>

lemma three_appends:
  assumes "length buf = L" "cur \<le> L" "snprintf_macro z (snprintf_macro y (snprintf_macro x (buf, L, cur))) = (buf', a, cur')"
  shows "length buf' = L \<and> cur' \<le> L \<and>
    (3 * cur + 2 * length x + length y + length z < L \<longrightarrow>
      cur' = cur + length x + length y + length z \<and> take cur' buf' = take cur buf @ x @ y @ z)"
proof -
  have "buf_ok L (buf, L, cur)" using assms(1,2) by (simp add: buf_ok_def)
  then obtain b1 where b1: "snprintf_macro x (buf, L, cur) = (b1, L - cur, cur + min (length x) (L - cur))"
      "buf_ok L (b1, L - cur, cur + min (length x) (L - cur))"
      "take (cur + min (length x) (L - cur)) b1 = take cur buf @ appended (L - cur) x"
    by (rule snprintf_macro_run)
  define c1 r1 where "c1 = cur + min (length x) (L - cur)" and "r1 = L - cur"
  note b1 = b1 [folded c1_def r1_def]
  obtain b2 where b2: "snprintf_macro y (b1, r1, c1) = (b2, r1 - c1, c1 + min (length y) (r1 - c1))"
      "buf_ok L (b2, r1 - c1, c1 + min (length y) (r1 - c1))"
      "take (c1 + min (length y) (r1 - c1)) b2 = take c1 b1 @ appended (r1 - c1) y"
    by (rule snprintf_macro_run [OF b1(2)])
  define c2 r2 where "c2 = c1 + min (length y) (r1 - c1)" and "r2 = r1 - c1"
  note b2 = b2 [folded c2_def r2_def]
  obtain b3 where b3: "snprintf_macro z (b2, r2, c2) = (b3, r2 - c2, c2 + min (length z) (r2 - c2))"
      "buf_ok L (b3, r2 - c2, c2 + min (length z) (r2 - c2))"
      "take (c2 + min (length z) (r2 - c2)) b3 = take c2 b2 @ appended (r2 - c2) z"
    by (rule snprintf_macro_run [OF b2(2)])
  have eq: "buf' = b3" "cur' = c2 + min (length z) (r2 - c2)" using assms(3) by (auto simp: b1(1) b2(1) b3(1))
  have "c1 = cur + length x" "c2 = cur + length x + length y" "appended r1 x = x" "appended r2 y = y" "appended (r2 - c2) z = z"
      "cur' = cur + length x + length y + length z"
    if "3 * cur + 2 * length x + length y + length z < L"
    using that by (auto simp: c1_def r1_def c2_def r2_def appended_def eq)
  then show ?thesis using b1(3) b2(3) b3 by (auto simp: eq buf_ok_def)
qed

lemma interpret_loop_text:
  assumes "length buf = L" "cur \<le> L" "interpret_loop S L n frames (buf, cur) = (buf', cur')"
  shows "length buf' = L \<and> cur' \<le> L \<and>
    (3 * (cur + length (trace_lines S n frames)) < L \<longrightarrow> take cur' buf' = take cur buf @ trace_lines S n frames)"
  using assms
proof (induction S L n frames "(buf, cur)" arbitrary: buf cur rule: interpret_loop.induct)
  case (2 S L n i stack_msg stack_ptr frames buf cur)
  obtain addr_str addr where addr: "frame_addr stack_msg stack_ptr = (addr_str, addr)" by force
  show ?case
  proof (cases "se_popen S (frame_cmd stack_msg addr_str)")
    case None
    then show ?thesis using 2 addr by simp
  next
    case (Some out)
    obtain mangled file_line where sc: "scan_words out (se_junk S i) = (mangled, file_line)" by force
    let ?x = "frame_head n addr" and ?y = "frame_name S stack_msg mangled" and ?z = "file_line @ [CHR 0x0A]"
    obtain b a c where m: "snprintf_macro ?z (snprintf_macro ?y (snprintf_macro ?x (buf, L, cur))) = (b, a, c)"
      by (metis prod_cases3)
    note t = three_appends [OF "2.prems"(1,2) m]
    have run: "interpret_loop S L (Suc n) frames (b, c) = (buf', cur')" using "2.prems"(3) by (simp add: addr Some sc m)
    have IH: "length buf' = L \<and> cur' \<le> L \<and>
      (3 * (c + length (trace_lines S (Suc n) frames)) < L \<longrightarrow> take cur' buf' = take c b @ trace_lines S (Suc n) frames)"
      using "2.hyps"(2) [OF addr [symmetric] refl Some sc [symmetric] refl m [symmetric] refl] t run by blast
    have lines: "trace_lines S n ((i, stack_msg, stack_ptr) # frames) = ?x @ ?y @ ?z @ trace_lines S (Suc n) frames"
      by (simp add: addr Some sc)
    show ?thesis unfolding lines using IH t by auto
  qed
qed simp

text \<open>
  C21. The buffer of a stack trace is never overrun, whatever the stack, the symbols and the answers of
  \<open>addr2line\<close> are: the returned length is within the buffer. The text is the whole trace, a line for
  every frame but the first, numbered in order, as long as it takes less than a third of the buffer;
  beyond that lines may be cut, because \<open>_snprintf\<close> subtracts the running total again with each of
  the three appends of a frame.
\<close>

theorem stack_trace_text:
  assumes "length buf = L" "stack_interpret S ptrs buf L = (buf', len)"
  shows "length buf' = L \<and> len \<le> L \<and>
    (3 * length (trace_lines S 0 (frames_of S ptrs)) < L \<longrightarrow> take len buf' = trace_lines S 0 (frames_of S ptrs))"
  using interpret_loop_text [OF assms(1), of 0 S 0 "frames_of S ptrs" buf' len] assms(2)
  by (simp add: stack_interpret_def)

text \<open>A stack of two frames; the command gives the name and the position for the second one.\<close>

definition demo_symbols :: symbol_env where
  "demo_symbols = \<lparr>se_symbols = (\<lambda>_. [''./spl(+0x10) [0x5510]'', ''./spl(+0x5996) [0x5996]'']),
     se_popen = (\<lambda>cmd. if cmd = ''addr2line -f -e ./spl 0x5996'' then Some ''_Z4mainv main.cpp:7'' else None),
     se_demangle = (\<lambda>s. if s = ''_Z4mainv'' then Some ''main()'' else None), se_junk = (\<lambda>_. ([], []))\<rparr>"

lemma demo_frame:
  "frame_addr ''./spl(+0x5996) [0x5996]'' 2 = (''0x5996'', 0x5996)"
  "frame_cmd ''./spl(+0x5996) [0x5996]'' ''0x5996'' = ''addr2line -f -e ./spl 0x5996''"
  by (simp_all add: frame_addr_def frame_cmd_def frame_file_def read_hex_def is_space_def hex_value_def)

lemma demo_words: "scan_words ''_Z4mainv main.cpp:7'' junk = (''_Z4mainv'', ''main.cpp:7'')"
  by (simp add: scan_words_def is_space_def)

lemma replicate_numeral_Cons: "replicate (numeral n) x = x # replicate (pred_numeral n) x"
  by (simp add: numeral_eq_Suc)

lemma show_nat_0: "show_nat 0 = ''0''"
  by code_simp

lemma demo_frame_head: "frame_head 0 0x5996 = ''#0  0x0000000000005996 in ''"
  by (simp add: frame_head_def fmt_left_def fmt_x0_def show_hex.simps hex_digit_def show_nat_0 replicate_numeral_Cons)

lemma demo_trace: "trace_lines demo_symbols 0 (frames_of demo_symbols [1, 2]) =
    ''#0  0x0000000000005996 in main() at main.cpp:7'' @ [CHR 0x0A]"
proof -
  have "frames_of demo_symbols [1, 2] = [(1, ''./spl(+0x5996) [0x5996]'', 2)]" by (simp add: frames_of_def demo_symbols_def)
  moreover have "se_popen demo_symbols ''addr2line -f -e ./spl 0x5996'' = Some ''_Z4mainv main.cpp:7''"
    "se_demangle demo_symbols ''_Z4mainv'' = Some ''main()''"
    by (simp_all add: demo_symbols_def)
  ultimately show ?thesis by (simp add: demo_frame demo_words demo_frame_head frame_name_def)
qed

theorem stack_trace_text_witness:
  "case stack_interpret demo_symbols [1, 2] (replicate 65536 (CHR ''x'')) 65536 of
     (buf, len) \<Rightarrow> take len buf = ''#0  0x0000000000005996 in main() at main.cpp:7'' @ [CHR 0x0A]"
proof -
  obtain buf len where r: "stack_interpret demo_symbols [1, 2] (replicate 65536 (CHR ''x'')) 65536 = (buf, len)" by force
  have "length (replicate 65536 (CHR ''x'')) = 65536" by (rule length_replicate)
  from stack_trace_text [OF this r] show ?thesis by (simp add: r demo_trace)
qed

end
