(* ===== verification/Logger_Crash.thy ===== *)
theory Logger_Crash
  imports Logger_Ring Backtrace
begin

section \<open>The crash path of the logger's manager\<close>

text \<open>
  What \<open>SimpleLoggerMgr\<close> (\<open>logger.cpp\<close>) does on a segmentation fault or an abort: flush all
  loggers, write the critical information and the stacks of the threads to the logs and to a dump
  file, and end. The handlers run alone here: the other threads are stopped in their own handler
  for \<open>SIGUSR2\<close>, which records their stack and wakes the crashed thread.
\<close>

subsection \<open>State\<close>

text \<open>\<open>RawStackInfo\<close>, and the members of the manager that only this part uses.\<close>

record raw_stack =
  rw_tidHash :: u32
  rw_kernelTid :: u64
  rw_stackPtrs :: "u64 list"
  rw_crashOrigin :: bool

record crash_part =
  cr_crashDumpFile :: ofstream
  cr_crashDumpThreadStacks :: "raw_stack list"
  cr_activeThreads :: "u64 list"
  cr_crashOriginThread :: u64
  cr_exitOnCrash :: bool
  cr_abortTimer :: u64
  cr_stackTraceBuffer :: string
  cr_handlesSignals :: bool
  cr_oldSigSegvHandler :: bool

text \<open>
  The part as the manager's constructor leaves it: it installs the handlers unless an environment
  variable says no, and keeps whether there was a handler before (\<open>SIG_DFL\<close> is the null pointer).
  The trace buffer comes from \<open>malloc\<close>: its contents are an argument.
\<close>

definition crash_part_new :: "(string \<Rightarrow> string option) \<Rightarrow> bool \<Rightarrow> string \<Rightarrow> crash_part" where
  "crash_part_new getenv old_handler buf =
     (let handles = (case getenv ''SIMPLELOGGER_HANDLE_SEGV'' of
                       None \<Rightarrow> True | Some v \<Rightarrow> v \<notin> {''OFF'', ''off'', ''FALSE'', ''false''})
      in \<lparr>cr_crashDumpFile = ofstream_new, cr_crashDumpThreadStacks = [], cr_activeThreads = [], cr_crashOriginThread = 0,
          cr_exitOnCrash = False, cr_abortTimer = 0, cr_stackTraceBuffer = buf, cr_handlesSignals = handles,
          cr_oldSigSegvHandler = (handles \<and> old_handler)\<rparr>)"

text \<open>
  The process around a handler: the crashed thread, the stacks and ids of threads, the time zone,
  the environment variables, and the source position of the call in \<open>flushAllLoggers\<close>. The clock
  shows the same time to all messages of one run of a handler.
\<close>

record crash_env =
  ce_put :: put_env
  ce_file :: string
  ce_line :: nat
  ce_self :: u64
  ce_backtrace :: "u64 \<Rightarrow> u64 list"
  ce_hash :: "u64 \<Rightarrow> u64"
  ce_gettid :: "u64 \<Rightarrow> u64"
  ce_symbols :: symbol_env
  ce_tzGap :: int
  ce_getenv :: "string \<Rightarrow> string option"

type_synonym crash_st = "crash_part \<times> logger_heap \<times> log_world"

definition lbind :: "log_error + 'a \<Rightarrow> ('a \<Rightarrow> log_error + 'b) \<Rightarrow> log_error + 'b" where
  "lbind m f = (case m of Inl e \<Rightarrow> Inl e | Inr x \<Rightarrow> f x)"

lemma lbind_simps [simp]: "lbind (Inl e) f = Inl e" "lbind (Inr x) f = f x"
  by (simp_all add: lbind_def)

definition addThread :: "u64 \<Rightarrow> crash_part \<Rightarrow> crash_part" where
  "addThread tid c = c\<lparr>cr_activeThreads := List.insert tid (cr_activeThreads c)\<rparr>"

definition removeThread :: "u64 \<Rightarrow> crash_part \<Rightarrow> crash_part" where
  "removeThread tid c = c\<lparr>cr_activeThreads := filter (\<lambda>t. t \<noteq> tid) (cr_activeThreads c)\<rparr>"

definition setExitOnCrash :: "bool \<Rightarrow> crash_part \<Rightarrow> crash_part" where
  "setExitOnCrash exit_on_crash c = c\<lparr>cr_exitOnCrash := exit_on_crash\<rparr>"

definition setStackTraceOriginOnly :: "bool \<Rightarrow> log_world \<Rightarrow> log_world" where
  "setStackTraceOriginOnly origin_only w = (case get_mgr w of (m, w') \<Rightarrow>
     w'\<lparr>lw_mgr := Some (m\<lparr>mg_crashDumpOriginOnly := origin_only\<rparr>)\<rparr>)"

text \<open>
  \<open>ThreadWrapper\<close>, made by the first call of \<open>put\<close> in a thread: it widens the column for thread ids
  and registers the thread if there is a manager.
\<close>

fun num_digits :: "nat \<Rightarrow> nat" where
  "num_digits tid = (if tid = 0 then 0 else Suc (num_digits (tid div 10)))"

declare num_digits.simps [simp del]

definition thread_wrapper_new :: "u64 \<Rightarrow> u32 \<Rightarrow> bool \<Rightarrow> nat \<times> crash_part \<Rightarrow> nat \<times> crash_part" where
  "thread_wrapper_new mySelf myTid has_mgr = (\<lambda>(tid_digits, c).
     (if tid_digits < num_digits (unat myTid) then num_digits (unat myTid) else tid_digits,
      if has_mgr then addThread mySelf c else c))"

definition thread_wrapper_destroy :: "u64 \<Rightarrow> bool \<Rightarrow> crash_part \<Rightarrow> crash_part" where
  "thread_wrapper_destroy mySelf has_mgr c = (if has_mgr then removeThread mySelf c else c)"

subsection \<open>Writing to the loggers and to the dump file\<close>

definition crash_log :: "crash_env \<Rightarrow> int \<Rightarrow> string \<Rightarrow> crash_st \<Rightarrow> log_error + crash_st" where
  "crash_log X level msg = (\<lambda>(c, h, w).
     case get_mgr w of (m, w) \<Rightarrow>
       lbind (flushAllLoggers (ce_put X) (ce_file X) (ce_line X) level msg m (h, w)) (\<lambda>(h, w). Inr (c, h, w)))"

definition crash_dump :: "string \<Rightarrow> crash_st \<Rightarrow> crash_st" where
  "crash_dump str = (\<lambda>(c, h, w).
     if fs_path (cr_crashDumpFile c) = None then (c, h, w)
     else case fs_write str (cr_crashDumpFile c) w of (fs, w) \<Rightarrow> (c\<lparr>cr_crashDumpFile := fs\<rparr>, h, w))"

abbreviation LF :: string where
  "LF \<equiv> [CHR 0x0A]"

definition critical_msg :: "string \<Rightarrow> string" where
  "critical_msg info = '' === Critical info (given by user): '' @ show_nat (length info) @ '' bytes'' @ '' ==='' @
     (if info = [] then [] else LF @ info)"

definition flushCriticalInfo :: "crash_env \<Rightarrow> crash_st \<Rightarrow> log_error + crash_st" where
  "flushCriticalInfo X = (\<lambda>(c, h, w).
     let msg = critical_msg (mg_globalCriticalInfo (fst (get_mgr w)))
     in lbind (crash_log X 2 msg (c, h, w)) (\<lambda>st. Inr (crash_dump (msg @ LF @ LF) st)))"

subsection \<open>Stacks\<close>

definition raw_of :: "crash_env \<Rightarrow> u64 \<Rightarrow> bool \<Rightarrow> raw_stack" where
  "raw_of X tid crash_origin =
     \<lparr>rw_tidHash = ucast (ce_hash X tid mod 0x10000), rw_kernelTid = ce_gettid X tid,
      rw_stackPtrs = take 256 (ce_backtrace X tid), rw_crashOrigin = crash_origin\<rparr>"

definition addRawStackInfo :: "crash_env \<Rightarrow> u64 \<Rightarrow> bool \<Rightarrow> crash_part \<Rightarrow> crash_part" where
  "addRawStackInfo X tid crash_origin c =
     c\<lparr>cr_crashDumpThreadStacks := cr_crashDumpThreadStacks c @ [raw_of X tid crash_origin]\<rparr>"

text \<open>The handler of \<open>SIGUSR2\<close>, on thread \<open>tid\<close>.\<close>

definition handleStackTrace :: "crash_env \<Rightarrow> u64 \<Rightarrow> crash_part \<Rightarrow> crash_part" where
  "handleStackTrace X tid c =
     (if cr_crashOriginThread c = 0 then c
      else if cr_crashOriginThread c = tid then c
      else addRawStackInfo X tid False c)"

fun stacks_loop :: "crash_env \<Rightarrow> u64 list \<Rightarrow> crash_part \<Rightarrow> crash_part" where
  "stacks_loop X [] c = c"
| "stacks_loop X (tid # tids) c =
     stacks_loop X tids (if tid = cr_crashOriginThread c then c else handleStackTrace X tid c)"

definition logStackBackTraceOtherThreads :: "crash_env \<Rightarrow> crash_st \<Rightarrow> log_error + crash_st" where
  "logStackBackTraceOtherThreads X = (\<lambda>(c, h, w).
     if \<not> mg_crashDumpOriginOnly (fst (get_mgr w)) then
       (if cr_crashOriginThread c \<noteq> 0 then Inr (c, h, w)
        else
          let c = c\<lparr>cr_crashOriginThread := ce_self X\<rparr>;
              msg = ''captured '' @ show_nat (length (cr_activeThreads c)) @ '' active threads''
          in lbind (crash_log X 2 msg (c, h, w)) (\<lambda>st.
               case crash_dump (msg @ LF @ LF) st of (c, h, w) \<Rightarrow>
                 crash_log X 2 ''got all stack traces, now flushing them'' (stacks_loop X (cr_activeThreads c) c, h, w)))
     else
       let msg = ''will not explore other threads (disabled by user)''
       in lbind (crash_log X 2 msg (c, h, w)) (\<lambda>st. Inr (crash_dump (msg @ LF @ LF) st)))"

text \<open>A pointer as \<open>operator<<\<close> writes it.\<close>

definition show_ptr :: "u64 \<Rightarrow> string" where
  "show_ptr p = (if p = 0 then ''0'' else ''0x'' @ show_hex (unat p))"

definition raw_text :: "raw_stack \<Rightarrow> string" where
  "raw_text r = ''Thread '' @ fmt_x0 4 (unat (rw_tidHash r)) @ '' '' @ show_nat (unat (rw_kernelTid r)) @ LF @
     (if rw_crashOrigin r then ''(crashed here)'' @ LF else []) @
     concat (map (\<lambda>p. show_ptr p @ LF) (rw_stackPtrs r)) @ LF"

definition flushRawStack :: "raw_stack \<Rightarrow> crash_st \<Rightarrow> crash_st" where
  "flushRawStack r = crash_dump (raw_text r)"

text \<open>The loop over a message in pieces that fit into a log line.\<close>

definition per_log_size :: nat where
  "per_log_size = MSG_SIZE - 1024"

function chunks :: "string \<Rightarrow> string list" where
  "chunks msg = (if msg = [] then [] else take per_log_size msg # chunks (drop per_log_size msg))"
  by pat_completeness auto

termination chunks
  by (relation "measure length") (auto simp: per_log_size_def MSG_SIZE_def)

declare chunks.simps [simp del]

definition stack_message :: "string \<Rightarrow> u32 \<Rightarrow> u64 \<Rightarrow> bool \<Rightarrow> string" where
  "stack_message trace tid_hash kernel_tid crash_origin =
     take 255 (LF @ ''Thread '' @ fmt_x0 4 (unat tid_hash)) @
     (if kernel_tid \<noteq> 0 then '' ('' @ show_nat (unat kernel_tid) @ '')'' else []) @
     (if crash_origin then '' (crashed here)'' else []) @ LF @ LF @ trace"

definition flushStackTraceText :: "crash_env \<Rightarrow> nat \<Rightarrow> raw_stack \<Rightarrow> crash_st \<Rightarrow> log_error + crash_st" where
  "flushStackTraceText X buffer_len r = (\<lambda>(c, h, w).
     let msg = stack_message (take buffer_len (cr_stackTraceBuffer c)) (rw_tidHash r) (rw_kernelTid r) (rw_crashOrigin r)
     in lbind (run_calls (crash_log X 2) (chunks msg) (c, h, w)) (\<lambda>st. Inr (crash_dump (msg @ LF) st)))"

definition stackTraceBufferSize :: nat where
  "stackTraceBufferSize = 65536"

definition flushStackTraceBuffer :: "crash_env \<Rightarrow> raw_stack \<Rightarrow> crash_st \<Rightarrow> log_error + crash_st" where
  "flushStackTraceBuffer X r = (\<lambda>(c, h, w).
     case stack_interpret (ce_symbols X) (rw_stackPtrs r) (cr_stackTraceBuffer c) stackTraceBufferSize of (buf, len) \<Rightarrow>
       let c = c\<lparr>cr_stackTraceBuffer := buf\<rparr>
       in if len = 0 then Inr (c, h, w) else flushStackTraceText X len r (c, h, w))"

subsection \<open>The dump\<close>

text \<open>\<open>open\<close> without \<open>app\<close>: an existing file is emptied.\<close>

definition fs_open_trunc :: "string \<Rightarrow> ofstream \<Rightarrow> log_world \<Rightarrow> ofstream \<times> log_world" where
  "fs_open_trunc p fs w =
     (if fs_path fs \<noteq> None then (fs\<lparr>fs_failed := True\<rparr>, w)
      else if lw_openable w p
      then (\<lparr>fs_path = Some p, fs_failed = False, fs_pos = 0\<rparr>, w\<lparr>lw_files := (lw_files w)(p \<mapsto> [])\<rparr>)
      else (fs\<lparr>fs_failed := True\<rparr>, w))"

definition tz_sign :: "int \<Rightarrow> string" where
  "tz_sign tz_gap = (if tz_gap \<ge> 0 then ''+'' else ''-'')"

definition tz_abs :: "int \<Rightarrow> int" where
  "tz_abs tz_gap = (if tz_gap < 0 then tz_gap * - 1 else tz_gap)"

definition dump_filename :: "time_info \<Rightarrow> int \<Rightarrow> string" where
  "dump_filename lt tz_gap = take 127
     (''dump_'' @ fmt_d0 4 (ti_year lt) @ fmt_d0 2 (ti_month lt) @ fmt_d0 2 (ti_day lt) @ ''_'' @
      fmt_d0 2 (ti_hour lt) @ fmt_d0 2 (ti_min lt) @ fmt_d0 2 (ti_sec lt) @ tz_sign tz_gap @
      fmt_d0 2 (tz_abs tz_gap div 60) @ fmt_d0 2 (tz_abs tz_gap mod 60) @ ''.txt'')"

definition dump_time :: "time_info \<Rightarrow> int \<Rightarrow> string" where
  "dump_time lt tz_gap = take 63
     (fmt_d0 4 (ti_year lt) @ ''-'' @ fmt_d0 2 (ti_month lt) @ ''-'' @ fmt_d0 2 (ti_day lt) @ ''T'' @
      fmt_d0 2 (ti_hour lt) @ '':'' @ fmt_d0 2 (ti_min lt) @ '':'' @ fmt_d0 2 (ti_sec lt) @ ''.'' @
      fmt_d0 3 (ti_msec lt) @ fmt_d0 3 (ti_usec lt) @ tz_sign tz_gap @
      fmt_d0 2 (tz_abs tz_gap div 60) @ '':'' @ fmt_d0 2 (tz_abs tz_gap mod 60))"

definition dump_path :: "crash_env \<Rightarrow> logger_mgr \<Rightarrow> string" where
  "dump_path X m = mg_crashDumpPath m @ ''/'' @ dump_filename (pe_lt (ce_put X)) (ce_tzGap X)"

definition dump_head :: "crash_env \<Rightarrow> string" where
  "dump_head X = ''When: '' @ dump_time (pe_lt (ce_put X)) (ce_tzGap X) @ LF @ LF"

definition open_dump :: "crash_env \<Rightarrow> crash_st \<Rightarrow> crash_st" where
  "open_dump X = (\<lambda>(c, h, w).
     let m = fst (get_mgr w)
     in if mg_crashDumpPath m \<noteq> [] \<and> fs_path (cr_crashDumpFile c) = None
        then case fs_open_trunc (dump_path X m) (cr_crashDumpFile c) w of (fs, w) \<Rightarrow>
               (case fs_write (dump_head X) fs w of (fs, w) \<Rightarrow> (c\<lparr>cr_crashDumpFile := fs\<rparr>, h, w))
        else (c, h, w))"

definition logStackBacktrace :: "crash_env \<Rightarrow> u64 \<Rightarrow> crash_st \<Rightarrow> log_error + crash_st" where
  "logStackBacktrace X timeout_ms = (\<lambda>(c, h, w).
     lbind (flushCriticalInfo X (open_dump X (c\<lparr>cr_abortTimer := timeout_ms\<rparr>, h, w))) (\<lambda>(c, h, w).
     lbind (logStackBackTraceOtherThreads X (addRawStackInfo X (ce_self X) True c, h, w)) (\<lambda>st.
     run_calls (flushStackTraceBuffer X) (cr_crashDumpThreadStacks (fst st))
       (fold flushRawStack (cr_crashDumpThreadStacks (fst st)) st))))"

subsection \<open>The signal handlers\<close>

definition chkExitOnCrash :: "crash_env \<Rightarrow> crash_part \<Rightarrow> bool" where
  "chkExitOnCrash X c \<longleftrightarrow> cr_exitOnCrash c \<or>
     (case ce_getenv X ''SIMPLELOGGER_EXIT_ON_CRASH'' of
        None \<Rightarrow> False
      | Some v \<Rightarrow> v \<in> {''ON'', ''on'', ''TRUE'', ''true''})"

text \<open>How a handler ends: it exits, aborts, calls the handler that was set before, or returns.\<close>

datatype handler_end = Exits int | Aborts | Calls_old | Returns

definition crash_flush :: "crash_env \<Rightarrow> string \<Rightarrow> crash_st \<Rightarrow> log_error + crash_st" where
  "crash_flush X msg = (\<lambda>(c, h, w).
     case get_mgr w of (m, w) \<Rightarrow>
       lbind (crash_log X 1 msg (c, enableOnlyOneDisplayer m h, w)) (logStackBacktrace X 60000))"

definition handleSegFault :: "crash_env \<Rightarrow> crash_st \<Rightarrow> log_error + handler_end \<times> crash_st" where
  "handleSegFault X st =
     lbind (crash_flush X ''Segmentation fault'' st) (\<lambda>st.
       Inr (if chkExitOnCrash X (fst st) then Exits (- 1)
            else if cr_oldSigSegvHandler (fst st) then Calls_old else Returns, st))"

definition handleSegAbort :: "crash_env \<Rightarrow> crash_st \<Rightarrow> log_error + handler_end \<times> crash_st" where
  "handleSegAbort X st =
     lbind (crash_flush X ''Abort'' st) (\<lambda>st. Inr (if chkExitOnCrash X (fst st) then Exits (- 1) else Aborts, st))"

text \<open>
  A round of the flushing thread after its sleep of 500 ms; \<open>Some\<close> is the exit when the handler
  takes longer than its time. \<open>destroy\<close> flushes and removes the manager.
\<close>

definition flush_round :: "crash_env \<Rightarrow> crash_st \<Rightarrow> log_error + int option \<times> crash_st" where
  "flush_round X st =
     lbind (crash_log X 0 [] st) (\<lambda>(c, h, w).
       Inr (if cr_abortTimer c = 0 then (None, c, h, w)
            else if cr_abortTimer c > 500 then (None, c\<lparr>cr_abortTimer := cr_abortTimer c - 500\<rparr>, h, w)
            else (Some (- 1), c, h, w)))"

definition destroy :: "crash_env \<Rightarrow> crash_st \<Rightarrow> log_error + crash_st" where
  "destroy X = (\<lambda>(c, h, w).
     case lw_mgr w of
       None \<Rightarrow> Inr (c, h, w)
     | Some m \<Rightarrow> lbind (crash_log X 0 [] (c, h, w)) (\<lambda>(c, h, w).
         Inr (c\<lparr>cr_handlesSignals := False\<rparr>, h, w\<lparr>lw_mgr := None\<rparr>)))"

text \<open>\<open>SimpleLogger::logStackBacktrace\<close> and \<open>SimpleLogger::shutdown\<close>, the static members.\<close>

definition logger_logStackBacktrace :: "crash_env \<Rightarrow> crash_st \<Rightarrow> log_error + crash_st" where
  "logger_logStackBacktrace X = (\<lambda>(c, h, w).
     case get_mgr w of (m, w) \<Rightarrow> logStackBacktrace X 0 (c, enableOnlyOneDisplayer m h, w))"

definition shutdown :: "crash_env \<Rightarrow> crash_st \<Rightarrow> log_error + crash_st" where
  "shutdown X = (\<lambda>(c, h, w). if lw_mgr w = None then Inr (c, h, w) else destroy X (c, h, w))"

subsection \<open>What logging leaves alone\<close>

text \<open>A path outside the log's files, and all of the manager but its queue of files to compress.\<close>

definition keeps :: "string \<Rightarrow> log_world \<Rightarrow> log_world \<Rightarrow> bool" where
  "keeps d w w' \<longleftrightarrow> lw_files w' d = lw_files w d \<and> lw_openable w' = lw_openable w \<and>
     (\<forall>m. lw_mgr w = Some m \<longrightarrow> (\<exists>q. lw_mgr w' = Some (m\<lparr>mg_pendingCompElems := q\<rparr>)))"

lemma same_queue [simp]: "\<exists>q. m = m\<lparr>mg_pendingCompElems := q\<rparr>"
  by (rule exI [of _ "mg_pendingCompElems m"]) simp

lemma keeps_refl [simp]: "keeps d w w"
  by (simp add: keeps_def)

lemma keeps_trans: "keeps d w w' \<Longrightarrow> keeps d w' w'' \<Longrightarrow> keeps d w w''"
  by (fastforce simp: keeps_def)

lemma keeps_files: "lw_files w' d = lw_files w d \<Longrightarrow> lw_openable w' = lw_openable w \<Longrightarrow> lw_mgr w' = lw_mgr w \<Longrightarrow> keeps d w w'"
  by (simp add: keeps_def)

lemma fs_write_keeps: "fs_path fs \<noteq> Some d \<Longrightarrow> fs_write s fs w = (fs', w') \<Longrightarrow> keeps d w w' \<and> fs_path fs' = fs_path fs"
  by (auto simp: fs_write_def intro!: keeps_files split: if_splits option.splits)

lemma flush_elems_keeps:
  "fs_path (sl_fs lg) \<noteq> Some d \<Longrightarrow> flush_elems iis (lg, w) = (lg', w') \<Longrightarrow>
   keeps d w w' \<and> sl_filePath lg' = sl_filePath lg"
proof (induction iis arbitrary: lg w)
  case (Cons ii iis)
  obtain n e fs w1 where f: "le_flush (sl_logs lg ! ii) (sl_fs lg) w = (n, e, fs, w1)" by (metis prod_cases4)
  have "keeps d w w1 \<and> fs_path fs = fs_path (sl_fs lg)"
    using f fs_write_keeps [OF Cons.prems(1)] by (auto simp: le_flush_def split: if_splits prod.splits)
  then show ?case using Cons.IH [of "lg\<lparr>sl_logs := (sl_logs lg)[ii := e], sl_fs := fs\<rparr>" w1] Cons.prems f keeps_trans by auto
qed simp

lemma new_revision_keeps:
  assumes "d \<notin> range (rev_path lg)"
  shows "keeps d w (snd (new_revision this (lg, w)))"
proof -
  let ?lg = "lg\<lparr>sl_curRevnum := sl_curRevnum lg + 1\<rparr>"
  have "rev_path ?lg = rev_path lg" by (rule rev_path_cong) simp
  then have "getLogFilePath ?lg n \<noteq> d" for n using assms by (auto simp: getLogFilePath_rev)
  then show ?thesis
    by (auto simp: new_revision_def fs_open_def Let_def keeps_def addCompElem_def split: option.splits)
qed

text \<open>A logger that can log keeps everything at a path that is not one of its revisions.\<close>

lemma log_ok_path: "log_ok b k (lg, w) \<Longrightarrow> d \<notin> range (rev_path lg) \<Longrightarrow> fs_path (sl_fs lg) \<noteq> Some d"
  by (auto simp: log_ok_def Let_def writable_def)

lemma flush_keeps:
  assumes "fs_path (sl_fs lg) \<noteq> Some d" "d \<notin> range (rev_path lg)"
  shows "keeps d w (snd (snd (flush this s (lg, w))))"
proof -
  obtain lg1 w1 where f: "flush_elems ([s ..< length (sl_logs lg)] @ [0 ..< s]) (lg, w) = (lg1, w1)" by force
  have k: "keeps d w w1" "rev_path lg1 = rev_path lg"
    using flush_elems_keeps [OF assms(1) f] rev_path_cong [of lg1 lg] by simp_all
  then have "keeps d w1 (snd (new_revision this (lg1, w1)))" using assms(2) by (intro new_revision_keeps) simp
  then show ?thesis using k(1) keeps_trans by (auto simp: flush_def f)
qed

lemma flushAll_keeps:
  "log_ok b k (lg, w) \<Longrightarrow> d \<notin> range (rev_path lg) \<Longrightarrow> flushAll this (lg, w) = (lg', w') \<Longrightarrow> keeps d w w'"
  using flush_keeps [of lg d w this "sl_cursor lg"] log_ok_path [of b k lg w d] by (auto simp: flushAll_def)

lemma put_ring_keeps:
  assumes "log_ok b k (lg, w)" "d \<notin> range (rev_path lg)" "put_ring this msg n (lg, w) = Inr (lg', w')"
  shows "keeps d w w'"
proof -
  let ?lg = "lg\<lparr>sl_cursor := Suc (sl_cursor lg) mod length (sl_logs lg)\<rparr>"
  have "fs_path (sl_fs ?lg) \<noteq> Some d" using log_ok_path [OF assms(1,2)] by simp
  then have "keeps d w (snd (snd (flush this (sl_cursor lg) (?lg, w))))" using assms(2) by (intro flush_keeps) simp_all
  then show ?thesis using assms(3) by (auto simp: put_ring_def Let_def split: if_splits prod.splits)
qed

lemma put_keeps:
  assumes "log_ok b k (lg, w)" "d \<notin> range (rev_path lg)" "put E this level sf fn ln body (lg, w) = Inr (lg', w')"
  shows "keeps d w w'"
proof -
  have con: "keeps d w w1 \<Longrightarrow> keeps d w (w1\<lparr>lw_console := x\<rparr>)" for w1 x by (simp add: keeps_def)
  show ?thesis
    using assms(3) put_ring_keeps [OF assms(1,2)] con
    by (auto simp: put_def split: if_splits prod.splits sum.splits)
qed

subsection \<open>One logger and an open dump file\<close>

text \<open>
  The state while the handler works in a process with one logger, at address \<open>a\<close>, and the manager
  \<open>m\<close>: the logger can log, and \<open>d\<close> is not one of its files. Once the dump is open, \<open>d\<close> holds \<open>t\<close>.
\<close>

definition loggable :: "nat \<Rightarrow> nat \<Rightarrow> nat \<Rightarrow> logger_mgr \<Rightarrow> string \<Rightarrow> logger_heap \<times> log_world \<Rightarrow> bool" where
  "loggable b k a m d hw \<longleftrightarrow> (case hw of (h, w) \<Rightarrow>
     mg_loggers m = [a] \<and> (\<exists>q. lw_mgr w = Some (m\<lparr>mg_pendingCompElems := q\<rparr>)) \<and>
     log_ok b k (h a, w) \<and> 2 \<le> sl_curLogLevel (h a) \<and> d \<notin> range (rev_path (h a)))"

definition crash_ok :: "nat \<Rightarrow> nat \<Rightarrow> nat \<Rightarrow> logger_mgr \<Rightarrow> string \<Rightarrow> string \<Rightarrow> crash_st \<Rightarrow> bool" where
  "crash_ok b k a m d t st \<longleftrightarrow> (case st of (c, h, w) \<Rightarrow> loggable b k a m d (h, w) \<and>
     \<not> fs_failed (cr_crashDumpFile c) \<and> fs_path (cr_crashDumpFile c) = Some d \<and> lw_files w d = Some t)"

definition crash_line :: "crash_env \<Rightarrow> int \<Rightarrow> int \<Rightarrow> string \<Rightarrow> string" where
  "crash_line X tz level msg =
     stored_line (ce_put X) tz (nat level) (Some (ce_file X)) (Some ''flushAllLoggers'') (ce_line X) (c_string msg)"

lemma crash_log_step:
  assumes ok: "loggable b (Suc (Suc k)) a m d (h, w)" and level: "0 \<le> level" "level \<le> 2" and "msg \<noteq> []"
    and E: "length (pe_msg (ce_put X)) = MSG_SIZE"
  shows "\<exists>h' w'. crash_log X level msg (c, h, w) = Inr (c, h', w') \<and> loggable b k a m d (h', w') \<and>
    whole_text b (h' a, w') = whole_text b (h a, w) @ crash_line X (sl_tzGap (h a)) level msg \<and>
    pending (h' a) = [] \<and> same_setup (h a) (h' a) \<and> keeps d w w'"
proof -
  obtain q0 where m: "mg_loggers m = [a]" "lw_mgr w = Some (m\<lparr>mg_pendingCompElems := q0\<rparr>)"
    using ok by (auto simp: loggable_def)
  have l: "log_ok b (Suc (Suc k)) (h a, w)" "2 \<le> sl_curLogLevel (h a)" "d \<notin> range (rev_path (h a))"
    using ok by (simp_all add: loggable_def)
  obtain lg1 w1 where p: "put (ce_put X) a level (Some (ce_file X)) (Some ''flushAllLoggers'') (ce_line X) (c_string msg) (h a, w) = Inr (lg1, w1)"
      "log_ok b (Suc k) (lg1, w1)" "log_text b (lg1, w1) @ pending lg1 = log_text b (h a, w) @ pending (h a) @ crash_line X (sl_tzGap (h a)) level msg"
      "same_setup (h a) lg1"
    using put_ok [OF l(1) level(1) E, of a "Some (ce_file X)" "Some ''flushAllLoggers''" "ce_line X" "c_string msg"] l(2) level(2)
    by (auto simp: crash_line_def)
  obtain lg2 w2 where f: "flushAll a (lg1, w1) = (lg2, w2)" "log_ok b k (lg2, w2)" "log_text b (lg2, w2) = log_text b (lg1, w1) @ pending lg1"
      "pending lg2 = []" "same_setup lg1 lg2"
    using flushAll_ok [OF p(2), of a] by blast
  have r: "rev_path lg1 = rev_path (h a)" "rev_path lg2 = rev_path (h a)"
    using p(4) f(5) by (auto intro!: rev_path_cong simp: same_setup_def)
  have kp: "keeps d w w2"
    using put_keeps [OF l(1,3) p(1)] flushAll_keeps [OF p(2) _ f(1), of d] l(3) keeps_trans unfolding r by blast
  then obtain q where q: "lw_mgr w2 = Some (m\<lparr>mg_pendingCompElems := q\<rparr>)"
    using m(2) by (auto simp: keeps_def)
  have "crash_log X level msg (c, h, w) = Inr (c, h(a := lg2), w2)"
    using p(1) f(1) assms(4) by (simp add: crash_log_def get_mgr_def m flushAllLoggers_def)
  moreover have "same_setup (h a) lg2" using p(4) f(5) same_setup_trans by blast
  moreover have "loggable b k a m d (h(a := lg2), w2)"
    using f(2) q m(1) l r(2) \<open>same_setup (h a) lg2\<close> by (auto simp: loggable_def same_setup_def)
  ultimately show ?thesis using f(3,4) p(3) kp by (auto simp: whole_text_def intro!: exI [of _ "h(a := lg2)"] exI [of _ w2])
qed

lemma crash_log_ok:
  assumes "crash_ok b (Suc (Suc k)) a m d t (c, h, w)" "0 \<le> level" "level \<le> 2" "msg \<noteq> []" "length (pe_msg (ce_put X)) = MSG_SIZE"
  shows "\<exists>h' w'. crash_log X level msg (c, h, w) = Inr (c, h', w') \<and> crash_ok b k a m d t (c, h', w') \<and>
    whole_text b (h' a, w') = whole_text b (h a, w) @ crash_line X (sl_tzGap (h a)) level msg \<and>
    pending (h' a) = [] \<and> same_setup (h a) (h' a)"
  using crash_log_step [of b k a m d h w level msg X c] assms by (fastforce simp: crash_ok_def keeps_def)

text \<open>So a run of messages is a line log, and keeps their order.\<close>

interpretation crash: line_log "crash_log X 2"
    "\<lambda>k st. length (pe_msg (ce_put X)) = MSG_SIZE \<and> crash_ok b (j + 2 * k) a m d t st" "\<lambda>msg. msg \<noteq> []"
    "\<lambda>(c, h, w) (c', h', w'). c' = c \<and> same_setup (h a) (h' a) \<and> (pending (h a) = [] \<longrightarrow> pending (h' a) = [])"
    "\<lambda>(c, h, w). whole_text b (h a, w)" "\<lambda>(c, h, w). crash_line X (sl_tzGap (h a)) 2"
  for X b j a m d t
proof (unfold_locales, goal_cases)
  case (1 k s msg)
  obtain c h w where s: "s = (c, h, w)" by (cases s) auto
  show ?case using crash_log_ok [of b "j + 2 * k" a m d t c h w 2 msg X] 1 by (auto simp: s)
next
  case (2 s s' msg)
  then show ?case by (auto simp: same_setup_def)
qed (auto intro: same_setup_trans)

lemma crash_log_run:
  assumes "crash_ok b (k + 2 * length xs) a m d t (c, h, w)" "list_all (\<lambda>msg. msg \<noteq> []) xs"
    "length (pe_msg (ce_put X)) = MSG_SIZE"
  shows "\<exists>h' w'. run_calls (crash_log X 2) xs (c, h, w) = Inr (c, h', w') \<and> crash_ok b k a m d t (c, h', w') \<and>
    whole_text b (h' a, w') = whole_text b (h a, w) @ concat (map (crash_line X (sl_tzGap (h a)) 2) xs) \<and>
    (pending (h a) = [] \<longrightarrow> pending (h' a) = []) \<and> same_setup (h a) (h' a)"
  using crash.run_adds [where k = 0 and cs = xs and s = "(c, h, w)" and X = X and b = b and j = k and a = a and m = m
      and d = d and t = t] assms by auto

lemma other_file:
  assumes "d \<notin> range (rev_path lg)"
  shows "log_ok b k (lg, w\<lparr>lw_files := (lw_files w)(d \<mapsto> x)\<rparr>) = log_ok b k (lg, w)"
    "log_text b (lg, w\<lparr>lw_files := (lw_files w)(d \<mapsto> x)\<rparr>) = log_text b (lg, w)"
proof -
  have "rev_path lg r \<noteq> d" for r using assms by auto
  then show "log_ok b k (lg, w\<lparr>lw_files := (lw_files w)(d \<mapsto> x)\<rparr>) = log_ok b k (lg, w)"
    "log_text b (lg, w\<lparr>lw_files := (lw_files w)(d \<mapsto> x)\<rparr>) = log_text b (lg, w)"
    by (simp_all add: log_ok_def log_text_def Let_def writable_def)
qed

lemma crash_dump_ok:
  assumes "crash_ok b k a m d t (c, h, w)"
  shows "\<exists>fs w'. crash_dump s (c, h, w) = (c\<lparr>cr_crashDumpFile := fs\<rparr>, h, w') \<and>
    crash_ok b k a m d (t @ s) (c\<lparr>cr_crashDumpFile := fs\<rparr>, h, w') \<and> whole_text b (h a, w') = whole_text b (h a, w)"
proof -
  have d: "\<not> fs_failed (cr_crashDumpFile c)" "fs_path (cr_crashDumpFile c) = Some d" "lw_files w d = Some t" "d \<notin> range (rev_path (h a))"
    using assms by (simp_all add: crash_ok_def loggable_def)
  obtain fs where "fs_write s (cr_crashDumpFile c) w = (fs, w\<lparr>lw_files := (lw_files w)(d \<mapsto> t @ s)\<rparr>)" "\<not> fs_failed fs" "fs_path fs = Some d"
    by (rule fs_write_writable [OF d(1-3), of s])
  then show ?thesis using assms d(2) other_file [OF d(4)] by (auto simp: crash_dump_def crash_ok_def loggable_def whole_text_def)
qed

text \<open>A message to the logs and a text to the dump.\<close>

lemma log_and_dump:
  assumes ok: "crash_ok b (Suc (Suc k)) a m d t (c, h, w)" and "msg \<noteq> []" and E: "length (pe_msg (ce_put X)) = MSG_SIZE"
  shows "\<exists>fs h' w'. lbind (crash_log X 2 msg (c, h, w)) (\<lambda>st. Inr (crash_dump s st)) = Inr (c\<lparr>cr_crashDumpFile := fs\<rparr>, h', w') \<and>
    crash_ok b k a m d (t @ s) (c\<lparr>cr_crashDumpFile := fs\<rparr>, h', w') \<and>
    whole_text b (h' a, w') = whole_text b (h a, w) @ crash_line X (sl_tzGap (h a)) 2 msg \<and>
    pending (h' a) = [] \<and> same_setup (h a) (h' a)"
proof -
  obtain h1 w1 where l: "crash_log X 2 msg (c, h, w) = Inr (c, h1, w1)" "crash_ok b k a m d t (c, h1, w1)"
      "whole_text b (h1 a, w1) = whole_text b (h a, w) @ crash_line X (sl_tzGap (h a)) 2 msg"
      "pending (h1 a) = []" "same_setup (h a) (h1 a)"
    using crash_log_ok [OF ok _ _ assms(2) E, of 2] by auto
  obtain fs w2 where "crash_dump s (c, h1, w1) = (c\<lparr>cr_crashDumpFile := fs\<rparr>, h1, w2)"
      "crash_ok b k a m d (t @ s) (c\<lparr>cr_crashDumpFile := fs\<rparr>, h1, w2)" "whole_text b (h1 a, w2) = whole_text b (h1 a, w1)"
    using crash_dump_ok [OF l(2), of s] by blast
  then show ?thesis using l by auto
qed

lemma chunks_Nil [simp]: "chunks [] = []"
  by (simp add: chunks.simps)

lemma chunks_concat: "concat (chunks msg) = msg"
proof (induction msg rule: chunks.induct)
  case (1 msg)
  then show ?case by (cases "msg = []") (simp_all add: chunks.simps [of msg])
qed

lemma chunks_sizes: "list_all (\<lambda>s. s \<noteq> [] \<and> length s \<le> per_log_size) (chunks msg)"
proof (induction msg rule: chunks.induct)
  case (1 msg)
  have "take per_log_size msg \<noteq> []" if "msg \<noteq> []" using that by (simp add: per_log_size_def MSG_SIZE_def)
  with 1 show ?case by (cases "msg = []") (simp_all add: chunks.simps [of msg])
qed

text \<open>The message about a stack; empty if there is no trace.\<close>

definition stack_text :: "crash_env \<Rightarrow> string \<Rightarrow> raw_stack \<Rightarrow> string" where
  "stack_text X buf r =
     (case stack_interpret (ce_symbols X) (rw_stackPtrs r) buf stackTraceBufferSize of (buf, len) \<Rightarrow>
        if len = 0 then [] else stack_message (take len buf) (rw_tidHash r) (rw_kernelTid r) (rw_crashOrigin r))"

lemma crash_ok_irrelevant [simp]:
  "crash_ok b k a m d t (c\<lparr>cr_stackTraceBuffer := x\<rparr>, h, w) = crash_ok b k a m d t (c, h, w)"
  "crash_ok b k a m d t (c\<lparr>cr_crashDumpThreadStacks := y\<rparr>, h, w) = crash_ok b k a m d t (c, h, w)"
  by (simp_all add: crash_ok_def)

lemma flushStackTraceBuffer_ok:
  assumes ok: "crash_ok b (k + 2 * length (chunks (stack_text X (cr_stackTraceBuffer c) r))) a m d t (c, h, w)"
    and E: "length (pe_msg (ce_put X)) = MSG_SIZE"
  shows "\<exists>x fs c' h' w'. flushStackTraceBuffer X r (c, h, w) = Inr (c', h', w') \<and>
    c' = c\<lparr>cr_stackTraceBuffer := x, cr_crashDumpFile := fs\<rparr> \<and>
    crash_ok b k a m d (t @ (if stack_text X (cr_stackTraceBuffer c) r = [] then [] else stack_text X (cr_stackTraceBuffer c) r @ LF)) (c', h', w') \<and>
    whole_text b (h' a, w') = whole_text b (h a, w) @
      concat (map (crash_line X (sl_tzGap (h a)) 2) (chunks (stack_text X (cr_stackTraceBuffer c) r))) \<and>
    (pending (h a) = [] \<longrightarrow> pending (h' a) = []) \<and> same_setup (h a) (h' a)"
proof -
  obtain buf len where i: "stack_interpret (ce_symbols X) (rw_stackPtrs r) (cr_stackTraceBuffer c) stackTraceBufferSize = (buf, len)" by force
  let ?c = "c\<lparr>cr_stackTraceBuffer := buf\<rparr>" and ?msg = "stack_text X (cr_stackTraceBuffer c) r"
  show ?thesis
  proof (cases "len = 0")
    case True
    moreover have "?c = c\<lparr>cr_stackTraceBuffer := buf, cr_crashDumpFile := cr_crashDumpFile c\<rparr>" by simp
    ultimately show ?thesis using ok by (fastforce simp: flushStackTraceBuffer_def i stack_text_def)
  next
    case False
    then have msg: "?msg = stack_message (take len buf) (rw_tidHash r) (rw_kernelTid r) (rw_crashOrigin r)" by (simp add: stack_text_def i)
    then have "?msg \<noteq> []" by (simp add: stack_message_def)
    have ok': "crash_ok b (k + 2 * length (chunks ?msg)) a m d t (?c, h, w)" using ok by simp
    have "list_all (\<lambda>s. s \<noteq> []) (chunks ?msg)" using chunks_sizes [of ?msg] by (auto simp: list_all_iff)
    from crash_log_run [OF ok' this E] obtain h1 w1 where
      run: "run_calls (crash_log X 2) (chunks ?msg) (?c, h, w) = Inr (?c, h1, w1)" "crash_ok b k a m d t (?c, h1, w1)"
        "whole_text b (h1 a, w1) = whole_text b (h a, w) @ concat (map (crash_line X (sl_tzGap (h a)) 2) (chunks ?msg))"
        "pending (h a) = [] \<longrightarrow> pending (h1 a) = []" "same_setup (h a) (h1 a)"
      by blast
    obtain fs w2 where "crash_dump (?msg @ LF) (?c, h1, w1) = (?c\<lparr>cr_crashDumpFile := fs\<rparr>, h1, w2)"
        "crash_ok b k a m d (t @ ?msg @ LF) (?c\<lparr>cr_crashDumpFile := fs\<rparr>, h1, w2)" "whole_text b (h1 a, w2) = whole_text b (h1 a, w1)"
      using crash_dump_ok [OF run(2), of "?msg @ LF"] by blast
    then show ?thesis using run \<open>?msg \<noteq> []\<close> False
      by (auto simp: flushStackTraceBuffer_def i flushStackTraceText_def Let_def msg [symmetric] simp del: crash_ok_irrelevant)
  qed
qed

lemma dump_path_queue [simp]: "dump_path X (m\<lparr>mg_pendingCompElems := q\<rparr>) = dump_path X m"
  by (simp add: dump_path_def)

lemma open_dump_ok:
  assumes ok: "loggable b k a m (dump_path X m) (h, w)" and path: "mg_crashDumpPath m \<noteq> []" "lw_openable w (dump_path X m)"
    and closed: "fs_path (cr_crashDumpFile c) = None"
  shows "\<exists>fs w'. open_dump X (c, h, w) = (c\<lparr>cr_crashDumpFile := fs\<rparr>, h, w') \<and>
    crash_ok b k a m (dump_path X m) (dump_head X) (c\<lparr>cr_crashDumpFile := fs\<rparr>, h, w') \<and> whole_text b (h a, w') = whole_text b (h a, w)"
proof -
  let ?d = "dump_path X m" and ?fs = "\<lparr>fs_path = Some (dump_path X m), fs_failed = False, fs_pos = 0\<rparr>"
  let ?w = "w\<lparr>lw_files := (lw_files w)(?d \<mapsto> [])\<rparr>"
  have d: "?d \<notin> range (rev_path (h a))" "\<exists>q. lw_mgr w = Some (m\<lparr>mg_pendingCompElems := q\<rparr>)" using ok by (simp_all add: loggable_def)
  obtain fs where f: "fs_write (dump_head X) ?fs ?w = (fs, ?w\<lparr>lw_files := (lw_files ?w)(?d \<mapsto> [] @ dump_head X)\<rparr>)"
      "\<not> fs_failed fs" "fs_path fs = Some ?d"
    by (rule fs_write_writable [of ?fs ?d ?w "[]" "dump_head X"]) simp_all
  have "open_dump X (c, h, w) = (c\<lparr>cr_crashDumpFile := fs\<rparr>, h, w\<lparr>lw_files := (lw_files w)(?d \<mapsto> dump_head X)\<rparr>)"
    using d(2) path closed f(1) by (auto simp: open_dump_def get_mgr_def fs_open_trunc_def Let_def)
  then show ?thesis using ok f(2,3) other_file [OF d(1)] by (auto simp: crash_ok_def loggable_def whole_text_def)
qed

subsection \<open>The handler of a segmentation fault\<close>

text \<open>The first logger shows everything up to level 4 on the console; nothing else of it changes.\<close>

lemma displayer_ok:
  assumes "mg_loggers m = [a]" "lw_mgr w = Some m" "log_ok b k (h a, w)" "d \<notin> range (rev_path (h a))"
  shows "loggable b k a m d (enableOnlyOneDisplayer m h, w)"
    "whole_text b (enableOnlyOneDisplayer m h a, w) = whole_text b (h a, w)" "sl_tzGap (enableOnlyOneDisplayer m h a) = sl_tzGap (h a)"
proof -
  obtain l where lg: "enableOnlyOneDisplayer m h = h(a := (h a)\<lparr>sl_curLogLevel := l, sl_curDispLevel := 4\<rparr>)" "4 \<le> l" "l \<le> 6"
  proof
    show "enableOnlyOneDisplayer m h = h(a := (h a)\<lparr>sl_curLogLevel := max 4 (sl_curLogLevel (h a)), sl_curDispLevel := 4\<rparr>)"
      using log_ok_stream [OF assms(3)] by (auto simp: enableOnlyOneDisplayer_def assms(1) setLogLevel_def setDispLevel_def max_def)
  qed (use log_ok_stream [OF assms(3)] in auto)
  let ?lg = "(h a)\<lparr>sl_curLogLevel := l, sl_curDispLevel := 4\<rparr>"
  have r: "rev_path ?lg = rev_path (h a)" by (rule rev_path_cong) simp
  have "ring_ok ?lg = ring_ok (h a)" "pending ?lg = pending (h a)" by (simp_all add: ring_ok_def slots_def pending_def)
  then show "loggable b k a m d (enableOnlyOneDisplayer m h, w)" "whole_text b (enableOnlyOneDisplayer m h a, w) = whole_text b (h a, w)"
    "sl_tzGap (enableOnlyOneDisplayer m h a) = sl_tzGap (h a)"
    using assms lg(2,3) same_queue [of m]
    by (simp_all add: lg(1) loggable_def r log_ok_def Let_def writable_def whole_text_def log_text_def)
qed

text \<open>The messages of a dump without other threads, and the text of its file.\<close>

definition no_others :: string where
  "no_others = ''will not explore other threads (disabled by user)''"

definition dump_text :: "crash_env \<Rightarrow> logger_mgr \<Rightarrow> raw_stack \<Rightarrow> string \<Rightarrow> string" where
  "dump_text X m r trace = dump_head X @ (critical_msg (mg_globalCriticalInfo m) @ LF @ LF) @ (no_others @ LF @ LF) @ raw_text r @
     (if trace = [] then [] else trace @ LF)"

lemma crash_ok_mgr:
  assumes "crash_ok b k a m d t (c, h, w)"
  shows "mg_globalCriticalInfo (fst (get_mgr w)) = mg_globalCriticalInfo m"
    "mg_crashDumpOriginOnly (fst (get_mgr w)) = mg_crashDumpOriginOnly m"
  using assms by (auto simp: crash_ok_def loggable_def get_mgr_def)

lemma logStackBacktrace_ok:
  fixes X m c
  defines "d \<equiv> dump_path X m" and "r \<equiv> raw_of X (ce_self X) True"
  defines "trace \<equiv> stack_text X (cr_stackTraceBuffer c) r"
  assumes ok: "loggable b (k + 2 * length (chunks trace) + 4) a m d (h, w)" and path: "mg_crashDumpPath m \<noteq> []" "lw_openable w d"
    and c: "fs_path (cr_crashDumpFile c) = None" "cr_crashDumpThreadStacks c = []" and only: "mg_crashDumpOriginOnly m"
    and E: "length (pe_msg (ce_put X)) = MSG_SIZE"
  shows "\<exists>c' h' w'. logStackBacktrace X timeout_ms (c, h, w) = Inr (c', h', w') \<and>
    crash_ok b k a m d (dump_text X m r trace) (c', h', w') \<and> pending (h' a) = [] \<and>
    cr_exitOnCrash c' = cr_exitOnCrash c \<and> cr_oldSigSegvHandler c' = cr_oldSigSegvHandler c \<and>
    whole_text b (h' a, w') = whole_text b (h a, w) @
      concat (map (crash_line X (sl_tzGap (h a)) 2) ([critical_msg (mg_globalCriticalInfo m), no_others] @ chunks trace))"
proof -
  let ?n = "k + 2 * length (chunks trace)" and ?crit = "critical_msg (mg_globalCriticalInfo m)"
  have nonempty: "?crit \<noteq> []" "no_others \<noteq> []" by (simp_all add: critical_msg_def no_others_def)
  have four: "?n + 4 = Suc (Suc (Suc (Suc ?n)))" by simp
  let ?c0 = "c\<lparr>cr_abortTimer := timeout_ms\<rparr>"
  obtain fs1 w1 where s1: "open_dump X (?c0, h, w) = (?c0\<lparr>cr_crashDumpFile := fs1\<rparr>, h, w1)"
      "crash_ok b (Suc (Suc (Suc (Suc ?n)))) a m d (dump_head X) (?c0\<lparr>cr_crashDumpFile := fs1\<rparr>, h, w1)" "whole_text b (h a, w1) = whole_text b (h a, w)"
    using open_dump_ok [of b "Suc (Suc (Suc (Suc ?n)))" a m X h w ?c0] ok [unfolded four] path c(1) by (auto simp: d_def)
  obtain fs2 h2 w2 where s2: "flushCriticalInfo X (?c0\<lparr>cr_crashDumpFile := fs1\<rparr>, h, w1) = Inr (?c0\<lparr>cr_crashDumpFile := fs2\<rparr>, h2, w2)"
      "crash_ok b (Suc (Suc ?n)) a m d (dump_head X @ ?crit @ LF @ LF) (?c0\<lparr>cr_crashDumpFile := fs2\<rparr>, h2, w2)"
      "whole_text b (h2 a, w2) = whole_text b (h a, w1) @ crash_line X (sl_tzGap (h a)) 2 ?crit" "same_setup (h a) (h2 a)"
    using log_and_dump [OF s1(2) nonempty(1) E, of "?crit @ LF @ LF"]
    by (auto simp: flushCriticalInfo_def Let_def crash_ok_mgr [OF s1(2)])
  let ?c2 = "?c0\<lparr>cr_crashDumpFile := fs2, cr_crashDumpThreadStacks := [r]\<rparr>"
  have c2: "addRawStackInfo X (ce_self X) True (?c0\<lparr>cr_crashDumpFile := fs2\<rparr>) = ?c2" using c(2) by (simp add: addRawStackInfo_def r_def)
  have ok2: "crash_ok b (Suc (Suc ?n)) a m d (dump_head X @ ?crit @ LF @ LF) (?c2, h2, w2)" using s2(2) by simp
  obtain fs3 h3 w3 where s3: "logStackBackTraceOtherThreads X (?c2, h2, w2) = Inr (?c2\<lparr>cr_crashDumpFile := fs3\<rparr>, h3, w3)"
      "crash_ok b ?n a m d ((dump_head X @ ?crit @ LF @ LF) @ no_others @ LF @ LF) (?c2\<lparr>cr_crashDumpFile := fs3\<rparr>, h3, w3)"
      "whole_text b (h3 a, w3) = whole_text b (h2 a, w2) @ crash_line X (sl_tzGap (h2 a)) 2 no_others" "same_setup (h2 a) (h3 a)" "pending (h3 a) = []"
    using log_and_dump [OF ok2 nonempty(2) E, of "no_others @ LF @ LF"] only
    by (auto simp: logStackBackTraceOtherThreads_def Let_def crash_ok_mgr [OF ok2] no_others_def)
  obtain fs4 w4 where s4: "crash_dump (raw_text r) (?c2\<lparr>cr_crashDumpFile := fs3\<rparr>, h3, w3) = (?c2\<lparr>cr_crashDumpFile := fs4\<rparr>, h3, w4)"
      "crash_ok b ?n a m d (((dump_head X @ ?crit @ LF @ LF) @ no_others @ LF @ LF) @ raw_text r) (?c2\<lparr>cr_crashDumpFile := fs4\<rparr>, h3, w4)"
      "whole_text b (h3 a, w4) = whole_text b (h3 a, w3)"
    using crash_dump_ok [OF s3(2), of "raw_text r"] by auto
  let ?c4 = "?c2\<lparr>cr_crashDumpFile := fs4\<rparr>"
  have tr: "stack_text X (cr_stackTraceBuffer ?c4) r = trace" by (simp add: trace_def)
  from flushStackTraceBuffer_ok [where c = ?c4 and r = r and X = X, unfolded tr, OF s4(2) E] s3(5)
  obtain x fs5 c5 h5 w5 where s5: "flushStackTraceBuffer X r (?c4, h3, w4) = Inr (c5, h5, w5)"
      "c5 = ?c4\<lparr>cr_stackTraceBuffer := x, cr_crashDumpFile := fs5\<rparr>" "crash_ok b k a m d (dump_text X m r trace) (c5, h5, w5)"
      "whole_text b (h5 a, w5) = whole_text b (h3 a, w4) @ concat (map (crash_line X (sl_tzGap (h3 a)) 2) (chunks trace))" "pending (h5 a) = []"
    by (auto simp: dump_text_def)
  have "sl_tzGap (h2 a) = sl_tzGap (h a)" "sl_tzGap (h3 a) = sl_tzGap (h a)" using s2(4) s3(4) by (simp_all add: same_setup_def)
  moreover have "logStackBacktrace X timeout_ms (c, h, w) = Inr (c5, h5, w5)"
    using s3(1) s4(1) s5(1) by (simp add: logStackBacktrace_def s1(1) s2(1) c2 flushRawStack_def)
  ultimately show ?thesis using s1(3) s2(3) s3(3) s4(3) s5(2-5) by auto
qed

text \<open>
  C20. A crash loses no line. In a process with one logger and the dump set up as the replica does
  (a path, the crashed thread only), the handler of a segmentation fault returns from all its calls
  of the logger and ends as configured. Then the ring is empty; the log holds what its files and
  its ring held before, the report of the fault, the critical information, and the stack in pieces
  of at most 3072 bytes that make up the whole text; and the dump file holds the time, the critical
  information, the raw stack and the interpreted one.
\<close>

theorem segfault_recorded:
  assumes mgr: "lw_mgr w = Some m" "mg_loggers m = [a]" "mg_crashDumpPath m \<noteq> []" "mg_crashDumpOriginOnly m"
    and trace: "trace = stack_text X (cr_stackTraceBuffer c) (raw_of X (ce_self X) True)"
    and log: "log_ok b (k + 2 * length (chunks trace) + 6) (h a, w)"
    and dump: "dump_path X m \<notin> range (rev_path (h a))" "lw_openable w (dump_path X m)"
      "fs_path (cr_crashDumpFile c) = None" "cr_crashDumpThreadStacks c = []"
    and E: "length (pe_msg (ce_put X)) = MSG_SIZE"
  shows "\<exists>c' h' w'. handleSegFault X (c, h, w) =
      Inr (if chkExitOnCrash X c then Exits (- 1) else if cr_oldSigSegvHandler c then Calls_old else Returns, c', h', w') \<and>
    pending (h' a) = [] \<and>
    log_text b (h' a, w') = log_text b (h a, w) @ pending (h a) @ crash_line X (sl_tzGap (h a)) 1 ''Segmentation fault'' @
      concat (map (crash_line X (sl_tzGap (h a)) 2) ([critical_msg (mg_globalCriticalInfo m), no_others] @ chunks trace)) \<and>
    concat (chunks trace) = trace \<and> list_all (\<lambda>s. length s \<le> 3072) (chunks trace) \<and>
    lw_files w' (dump_path X m) = Some (dump_text X m (raw_of X (ce_self X) True) trace)"
proof -
  let ?n = "k + 2 * length (chunks trace)" and ?h = "enableOnlyOneDisplayer m h" and ?d = "dump_path X m"
  have six: "?n + 6 = Suc (Suc (?n + 4))" by simp
  note dis = displayer_ok [where h = h, OF mgr(2,1) log [unfolded six] dump(1)]
  obtain h1 w1 where s1: "crash_log X 1 ''Segmentation fault'' (c, ?h, w) = Inr (c, h1, w1)" "loggable b (?n + 4) a m ?d (h1, w1)"
      "whole_text b (h1 a, w1) = whole_text b (h a, w) @ crash_line X (sl_tzGap (h a)) 1 ''Segmentation fault''"
      "pending (h1 a) = []" "same_setup (?h a) (h1 a)" "keeps ?d w w1"
    using crash_log_step [OF dis(1) _ _ _ E, of 1 "''Segmentation fault''" c] dis(2,3) by auto
  have "lw_openable w1 ?d" using s1(6) dump(2) by (simp add: keeps_def)
  from logStackBacktrace_ok [OF s1(2) [unfolded trace] mgr(3) this dump(3,4) mgr(4) E, of 60000, folded trace]
  obtain c' h' w' where s2: "logStackBacktrace X 60000 (c, h1, w1) = Inr (c', h', w')"
      "crash_ok b k a m ?d (dump_text X m (raw_of X (ce_self X) True) trace) (c', h', w')" "pending (h' a) = []"
      "cr_exitOnCrash c' = cr_exitOnCrash c" "cr_oldSigSegvHandler c' = cr_oldSigSegvHandler c"
      "whole_text b (h' a, w') = whole_text b (h1 a, w1) @
        concat (map (crash_line X (sl_tzGap (h1 a)) 2) ([critical_msg (mg_globalCriticalInfo m), no_others] @ chunks trace))"
    by blast
  have tz: "sl_tzGap (h1 a) = sl_tzGap (h a)" using s1(5) dis(3) by (simp add: same_setup_def)
  have "handleSegFault X (c, h, w) =
      Inr (if chkExitOnCrash X c then Exits (- 1) else if cr_oldSigSegvHandler c then Calls_old else Returns, c', h', w')"
    by (simp add: handleSegFault_def crash_flush_def get_mgr_def mgr(1) s1(1) s2(1,4,5) chkExitOnCrash_def)
  moreover have "lw_files w' ?d = Some (dump_text X m (raw_of X (ce_self X) True) trace)" using s2(2) by (simp add: crash_ok_def)
  moreover have "list_all (\<lambda>s. length s \<le> 3072) (chunks trace)"
    using chunks_sizes [of trace] by (auto simp: list_all_iff per_log_size_def MSG_SIZE_def)
  ultimately show ?thesis using s1(3) s2(3,6) tz chunks_concat [of trace] by (auto simp: whole_text_def)
qed

text \<open>The logger of the demonstration, in a process that crashes in \<open>main\<close>.\<close>

definition demo_crash_env :: crash_env where
  "demo_crash_env = \<lparr>ce_put = demo_env, ce_file = ''logger.cpp'', ce_line = 578, ce_self = 1, ce_backtrace = (\<lambda>_. [1, 2]),
     ce_hash = (\<lambda>_. 0x2345), ce_gettid = (\<lambda>_. 42), ce_symbols = demo_symbols, ce_tzGap = - 300, ce_getenv = (\<lambda>_. None)\<rparr>"

definition demo_mgr :: logger_mgr where
  "demo_mgr = logger_mgr_new\<lparr>mg_loggers := [7], mg_crashDumpPath := ''.logs''\<rparr>"

definition demo_crash_part :: crash_part where
  "demo_crash_part = addThread 1 (crash_part_new (\<lambda>_. None) False (replicate stackTraceBufferSize (CHR 0x00)))"

lemma log_ok_mgr [simp]: "log_ok b k (lg, w\<lparr>lw_mgr := x\<rparr>) = log_ok b k (lg, w)"
  by (simp add: log_ok_def Let_def writable_def content_def)

lemma chunks_length: "length (chunks msg) \<le> length msg"
proof (induction msg rule: chunks.induct)
  case (1 msg)
  have "length (drop per_log_size msg) < length msg" if "msg \<noteq> []" using that by (simp add: per_log_size_def MSG_SIZE_def)
  then show ?case using 1 by (cases "msg = []") (auto simp: chunks.simps [of msg])
qed

lemma demo_dump_path: "dump_path demo_crash_env demo_mgr = ''.logs/dump_20230405_120009-0500.txt''"
  by (simp add: dump_path_def dump_filename_def demo_crash_env_def demo_mgr_def demo_env_def demo_fmt tz_sign_def tz_abs_def)

lemma demo_stack_text:
  "stack_text demo_crash_env (cr_stackTraceBuffer demo_crash_part) (raw_of demo_crash_env 1 True) =
     stack_message (''#0  0x0000000000005996 in main() at main.cpp:7'' @ LF) 0x2345 42 True"
proof -
  let ?buf = "cr_stackTraceBuffer demo_crash_part" and ?r = "raw_of demo_crash_env 1 True"
  let ?t = "''#0  0x0000000000005996 in main() at main.cpp:7'' @ LF"
  have r: "rw_stackPtrs ?r = [1, 2]" "rw_tidHash ?r = 0x2345" "rw_kernelTid ?r = 42" "rw_crashOrigin ?r" "ce_symbols demo_crash_env = demo_symbols"
    by (simp_all add: raw_of_def demo_crash_env_def)
  have len: "length ?buf = stackTraceBufferSize" by (simp add: demo_crash_part_def addThread_def crash_part_new_def)
  obtain buf l where i: "interpret_loop demo_symbols stackTraceBufferSize 0 (frames_of demo_symbols [1, 2]) (?buf, 0) = (buf, l)" by force
  have "take l buf = ?t"
    using interpret_loop_text [OF len _ i] by (simp add: demo_trace stackTraceBufferSize_def)
  moreover from this have "l \<noteq> 0" by (intro notI) simp
  ultimately show ?thesis by (simp add: stack_text_def stack_interpret_def r i)
qed

theorem segfault_recorded_witness:
  "\<exists>c' h' w'. handleSegFault demo_crash_env (demo_crash_part, \<lambda>_. demo_logger, demo_log_world\<lparr>lw_mgr := Some demo_mgr\<rparr>) =
      Inr (Returns, c', h', w') \<and> pending (h' 7) = [] \<and>
    lw_files w' ''.logs/dump_20230405_120009-0500.txt'' = Some (dump_text demo_crash_env demo_mgr (raw_of demo_crash_env 1 True)
      (stack_message (''#0  0x0000000000005996 in main() at main.cpp:7'' @ LF) 0x2345 42 True))"
proof -
  let ?t = "stack_message (''#0  0x0000000000005996 in main() at main.cpp:7'' @ LF) 0x2345 42 True"
  let ?w = "demo_log_world\<lparr>lw_mgr := Some demo_mgr\<rparr>"
  have self: "ce_self demo_crash_env = 1" "length (pe_msg (ce_put demo_crash_env)) = MSG_SIZE" by (simp_all add: demo_crash_env_def demo_env_def)
  have m: "lw_mgr ?w = Some demo_mgr" "mg_loggers demo_mgr = [7]" "mg_crashDumpPath demo_mgr \<noteq> []" "mg_crashDumpOriginOnly demo_mgr"
    by (simp_all add: demo_mgr_def logger_mgr_new_def)
  have c: "fs_path (cr_crashDumpFile demo_crash_part) = None" "cr_crashDumpThreadStacks demo_crash_part = []"
      "\<not> cr_oldSigSegvHandler demo_crash_part" "\<not> chkExitOnCrash demo_crash_env demo_crash_part"
    by (simp_all add: demo_crash_part_def addThread_def crash_part_new_def ofstream_new_def chkExitOnCrash_def demo_crash_env_def)
  have "length (take 255 (LF @ ''Thread '' @ fmt_x0 4 (unat (0x2345 :: u32)))) \<le> 255" by simp
  moreover have "length (show_nat 42) = 2" by code_simp
  ultimately have "length ?t < 1000" by (simp add: stack_message_def)
  then have "0 + 2 * length (chunks ?t) + 6 < 18446744073709551616" using chunks_length [of ?t] by linarith
  then have ok: "log_ok 0 (0 + 2 * length (chunks ?t) + 6) ((\<lambda>_. demo_logger) 7, ?w)" using demo_logger_ok by simp
  have d: "dump_path demo_crash_env demo_mgr \<notin> range (rev_path ((\<lambda>_. demo_logger) 7))" "lw_openable ?w (dump_path demo_crash_env demo_mgr)"
    by (auto simp: demo_dump_path rev_path_def demo_logger_def demo_log_world_def)
  define t where "t = ?t"
  from segfault_recorded [OF m demo_stack_text [symmetric, folded self(1)] ok d c(1,2) self(2), folded t_def]
  obtain c' h' w' where "handleSegFault demo_crash_env (demo_crash_part, \<lambda>_. demo_logger, ?w) = Inr (Returns, c', h', w')"
      "pending (h' 7) = []" "lw_files w' (dump_path demo_crash_env demo_mgr) = Some (dump_text demo_crash_env demo_mgr (raw_of demo_crash_env 1 True) t)"
    using c(3,4) unfolding self(1) by auto
  then show ?thesis unfolding demo_dump_path t_def by blast
qed

end
