(* ===== verification/Logger_Workers.thy ===== *)
theory Logger_Workers
  imports Logger_Crash
begin

section \<open>The manager's threads\<close>

text \<open>
  The loops of the two threads of \<open>SimpleLoggerMgr\<close> (\<open>flushWorker\<close> and \<open>compressWorker\<close> of \<open>logger.cpp\<close>)
  around the rounds of \<open>Logger_Crash\<close> and \<open>Logger\<close>, and the manager's small members. A loop runs on the
  answers that \<open>chkTermination\<close> gives before its rounds; how long it sleeps is recorded.
\<close>

subsection \<open>Small members\<close>

definition getWithoutInit :: "log_world \<Rightarrow> logger_mgr option" where
  "getWithoutInit w = lw_mgr w"

definition mgr_setCriticalInfo :: "string \<Rightarrow> logger_mgr \<Rightarrow> logger_mgr" where
  "mgr_setCriticalInfo info_str m = m\<lparr>mg_globalCriticalInfo := info_str\<rparr>"

definition getCriticalInfo :: "logger_mgr \<Rightarrow> string" where
  "getCriticalInfo m = mg_globalCriticalInfo m"

definition mgr_setStackTraceOriginOnly :: "bool \<Rightarrow> logger_mgr \<Rightarrow> logger_mgr" where
  "mgr_setStackTraceOriginOnly origin_only m = m\<lparr>mg_crashDumpOriginOnly := origin_only\<rparr>"

definition mgr_setCrashDumpPath :: "string \<Rightarrow> bool \<Rightarrow> logger_mgr \<Rightarrow> logger_mgr" where
  "mgr_setCrashDumpPath path origin_only m = mgr_setStackTraceOriginOnly origin_only (m\<lparr>mg_crashDumpPath := path\<rparr>)"

definition traceAllowed :: "simple_logger \<Rightarrow> bool" where
  "traceAllowed lg \<longleftrightarrow> sl_curLogLevel lg \<ge> 6"

definition debugAllowed :: "simple_logger \<Rightarrow> bool" where
  "debugAllowed lg \<longleftrightarrow> sl_curLogLevel lg \<ge> 5"

text \<open>The static members are the manager's, on the manager that they create if there is none.\<close>

lemma static_members:
  "setCriticalInfo info w = (case get_mgr w of (m, w) \<Rightarrow> w\<lparr>lw_mgr := Some (mgr_setCriticalInfo info m)\<rparr>)"
  "setCrashDumpPath path b w = (case get_mgr w of (m, w) \<Rightarrow> w\<lparr>lw_mgr := Some (mgr_setCrashDumpPath path b m)\<rparr>)"
  "setStackTraceOriginOnly b w = (case get_mgr w of (m, w) \<Rightarrow> w\<lparr>lw_mgr := Some (mgr_setStackTraceOriginOnly b m)\<rparr>)"
  by (auto simp: setCriticalInfo_def setCrashDumpPath_def setStackTraceOriginOnly_def mgr_setCriticalInfo_def
      mgr_setCrashDumpPath_def mgr_setStackTraceOriginOnly_def split: prod.splits)

subsection \<open>The loops\<close>

fun compressWorker :: "shell \<Rightarrow> bool list \<Rightarrow> bool \<Rightarrow> logger_heap \<times> log_world \<Rightarrow> nat list \<times> (logger_heap \<times> log_world)" where
  "compressWorker system [] sleep_next_time st = ([], st)"
| "compressWorker system (terminated # ts) sleep_next_time st =
     (if terminated then ([], st)
      else
        let slept = (if sleep_next_time then [500] else []);
            elem = (case lw_mgr (snd st) of None \<Rightarrow> False | Some m \<Rightarrow> mg_pendingCompElems m \<noteq> [])
        in case compressWorker system ts (\<not> elem) (compress_round system st) of (rest, st) \<Rightarrow> (slept @ rest, st))"

text \<open>The result of \<open>flushWorker\<close> is the status of the process when it ends it.\<close>

fun flushWorker :: "crash_env \<Rightarrow> bool list \<Rightarrow> crash_st \<Rightarrow> log_error + int option \<times> crash_st" where
  "flushWorker X [] st = Inr (None, st)"
| "flushWorker X (terminated # ts) st =
     (if terminated then Inr (None, st)
      else lbind (flush_round X st) (\<lambda>(status, st).
        case status of Some rc \<Rightarrow> Inr (Some rc, st) | None \<Rightarrow> flushWorker X ts st))"

subsection \<open>What they achieve\<close>

text \<open>The files of a list of pending elements, compressed one after the other.\<close>

fun compress_all :: "shell \<Rightarrow> (u64 \<times> nat) list \<Rightarrow> logger_heap \<times> log_world \<Rightarrow> logger_heap \<times> log_world" where
  "compress_all system [] st = st"
| "compress_all system ((fileNum, a) # es) (h, w) =
     (case doCompression system fileNum (h a, w) of (lg, w) \<Rightarrow> compress_all system es (h(a := lg), w))"

lemma rm_loop_mgr: "lw_mgr (snd (rm_loop system n ii st)) = lw_mgr (snd st)"
  by (induction system n ii st rule: rm_loop.induct) (simp_all add: Let_def execCmd_def)

lemma doCompression_mgr: "doCompression system n (lg, w) = (lg', w') \<Longrightarrow> lw_mgr w' = lw_mgr w"
proof -
  let ?w = "execCmd system (''rm -f '' @ getLogFilePath lg n) (execCmd system (''tar zcvf '' @ getLogFilePath lg n @ ''.tar.gz '' @ getLogFilePath lg n) w)"
  let ?k = "Suc (unat (n - sl_maxLogFiles lg)) - unat (sl_minRevnum lg)"
  assume r: "doCompression system n (lg, w) = (lg', w')"
  have "lw_mgr ?w = lw_mgr w" by (simp add: execCmd_def)
  moreover have "w' = ?w \<or> w' = snd (rm_loop system ?k (sl_minRevnum lg) (lg, ?w))"
    using r unfolding doCompression_def prod.case Let_def by (auto split: if_splits prod.splits)
  ultimately show ?thesis using rm_loop_mgr [of system ?k "sl_minRevnum lg" "(lg, ?w)"] by auto
qed

text \<open>The commands do not depend on the manager.\<close>

abbreviation with_mgr :: "logger_mgr option \<Rightarrow> log_st \<Rightarrow> log_st" where
  "with_mgr q st \<equiv> (fst st, (snd st)\<lparr>lw_mgr := q\<rparr>)"

lemma execCmd_with_mgr: "execCmd system cmd (w\<lparr>lw_mgr := q\<rparr>) = (execCmd system cmd w)\<lparr>lw_mgr := q\<rparr>"
  by (simp add: execCmd_def)

lemma rm_loop_with_mgr: "rm_loop system n ii (lg, w\<lparr>lw_mgr := q\<rparr>) = with_mgr q (rm_loop system n ii (lg, w))"
  by (induction n arbitrary: ii lg w) (simp_all add: Let_def execCmd_with_mgr)

lemma doCompression_with_mgr:
  "doCompression system n (lg, w\<lparr>lw_mgr := q\<rparr>) = with_mgr q (doCompression system n (lg, w))"
  unfolding doCompression_def prod.case Let_def execCmd_with_mgr rm_loop_with_mgr
  by (simp add: split_beta)

lemma compress_round_idle: "lw_mgr w = Some m \<Longrightarrow> mg_pendingCompElems m = [] \<Longrightarrow> compress_round system (h, w) = (h, w)"
  by (simp add: compress_round_def)

lemma compress_round_next:
  assumes "lw_mgr w = Some m" "mg_pendingCompElems m = (n, a) # es" "doCompression system n (h a, w) = (lg, w')"
  shows "compress_round system (h, w) = (h(a := lg), w'\<lparr>lw_mgr := Some (m\<lparr>mg_pendingCompElems := es\<rparr>)\<rparr>)"
  using assms by (simp add: compress_round_def doCompression_with_mgr)

lemma compress_all_with_mgr:
  "compress_all system es (h, w\<lparr>lw_mgr := q\<rparr>) =
     (fst (compress_all system es (h, w)), (snd (compress_all system es (h, w)))\<lparr>lw_mgr := q\<rparr>)"
  by (induction es arbitrary: h w) (auto simp: doCompression_with_mgr split_beta)

text \<open>
  Every pending file is compressed by its logger, oldest first, one in a round and without a pause in
  between: a thread that is given at least as many rounds as there are pending files leaves the queue
  empty. It sleeps before the first round and then only in the rounds after the one that found nothing.
\<close>

theorem compressor_drains:
  assumes "lw_mgr w = Some m" "mg_pendingCompElems m = es" "length es \<le> k"
  shows "compressWorker system (replicate k False) s (h, w) =
     ((if s \<and> 0 < k then [500] else []) @ replicate (k - 1 - length es) 500,
      compress_all system es (h, w\<lparr>lw_mgr := Some (m\<lparr>mg_pendingCompElems := []\<rparr>)\<rparr>))"
  using assms
proof (induction k arbitrary: es s h w m)
  case 0
  then show ?case by simp
next
  case (Suc k)
  show ?case
  proof (cases es)
    case Nil
    with Suc.prems Suc.IH [of w m "[]" True h] show ?thesis
      by (cases k) (simp_all add: compress_round_idle)
  next
    case (Cons e es')
    obtain n a where e: "e = (n, a)" by force
    obtain lg w' where d: "doCompression system n (h a, w) = (lg, w')" by force
    let ?m = "m\<lparr>mg_pendingCompElems := es'\<rparr>"
    have "compressWorker system (replicate k False) False (h(a := lg), w'\<lparr>lw_mgr := Some ?m\<rparr>) =
        (replicate (k - 1 - length es') 500, compress_all system es' (h(a := lg), w'\<lparr>lw_mgr := Some (m\<lparr>mg_pendingCompElems := []\<rparr>)\<rparr>))"
      using Suc.IH [of "w'\<lparr>lw_mgr := Some ?m\<rparr>" ?m es' False "h(a := lg)"] Suc.prems(3) Cons by (simp add: fun_upd_def)
    moreover have "compress_round system (h, w) = (h(a := lg), w'\<lparr>lw_mgr := Some ?m\<rparr>)"
      using compress_round_next [where h = h and a = a] Suc.prems Cons e d by blast
    ultimately show ?thesis using Suc.prems Cons e d by (simp add: doCompression_with_mgr)
  qed
qed

text \<open>Flushing without a message never fails.\<close>

lemma flush_loggers_quiet: "\<exists>st. flush_loggers E file line level [] as hw = Inr st"
  by (induction as arbitrary: hw) (force split: prod.splits)+

lemma crash_log_quiet: "\<exists>h' w'. crash_log X level [] (c, h, w) = Inr (c, h', w')"
proof -
  obtain m w0 where g: "get_mgr w = (m, w0)" by force
  obtain h' w' where "flush_loggers (ce_put X) (ce_file X) (ce_line X) level [] (mg_loggers m) (h, w0) = Inr (h', w')"
    using flush_loggers_quiet by (metis surj_pair)
  with g show ?thesis by (simp add: crash_log_def flushAllLoggers_def)
qed

text \<open>
  C39. The flushing thread bounds the time that a stack dump may take: after \<open>abortTimer\<close> is set to \<open>T\<close>
  milliseconds it ends the process with status \<open>-1\<close> in the round in which its sleeps of \<open>500\<close>
  milliseconds add up to at least \<open>T\<close>, in no earlier round, and in no round at all while the timer is off.
\<close>

theorem dump_deadline:
  "\<exists>status c' h' w'. flushWorker X (replicate k False) (c, h, w) = Inr (status, c', h', w') \<and>
     (if cr_abortTimer c \<noteq> 0 \<and> unat (cr_abortTimer c) \<le> 500 * k then status = Some (- 1)
      else status = None \<and> unat (cr_abortTimer c') = unat (cr_abortTimer c) - 500 * k)"
proof (induction k arbitrary: c h w)
  case 0
  then show ?case by (simp add: unat_eq_0)
next
  case (Suc k)
  obtain h1 w1 where q: "crash_log X 0 [] (c, h, w) = Inr (c, h1, w1)" using crash_log_quiet by blast
  let ?c = "c\<lparr>cr_abortTimer := cr_abortTimer c - 500\<rparr>"
  consider "cr_abortTimer c = 0" | "cr_abortTimer c > 500" | "cr_abortTimer c \<noteq> 0" "cr_abortTimer c \<le> 500" by fastforce
  then show ?case
  proof cases
    case 1
    with q Suc.IH [of c h1 w1] show ?thesis by (simp add: flush_round_def)
  next
    case 2
    then have u: "unat (cr_abortTimer c - 500) = unat (cr_abortTimer c) - 500" "500 < unat (cr_abortTimer c)" "cr_abortTimer c \<noteq> 0"
      by (auto simp: unat_sub_if' word_less_nat_alt)
    then have "cr_abortTimer c - 500 \<noteq> 0" by (metis unat_0 zero_less_diff less_irrefl)
    moreover have "flushWorker X (replicate (Suc k) False) (c, h, w) = flushWorker X (replicate k False) (?c, h1, w1)"
      using q 2 u(3) by (simp add: flush_round_def)
    moreover have "unat (cr_abortTimer c) - 500 \<le> 500 * k \<longleftrightarrow> unat (cr_abortTimer c) \<le> 500 * Suc k"
      "unat (cr_abortTimer c) - 500 - 500 * k = unat (cr_abortTimer c) - 500 * Suc k" by auto
    moreover have "cr_abortTimer ?c = cr_abortTimer c - 500" by simp
    ultimately show ?thesis using Suc.IH [of ?c h1 w1] u(3) by (simp only: u(1) simp_thms)
  next
    case 3
    then have "unat (cr_abortTimer c) \<le> 500" "\<not> 500 < cr_abortTimer c" by (simp_all add: word_le_nat_alt not_less)
    with q 3(1) show ?thesis by (simp add: flush_round_def)
  qed
qed

end
