(* ===== verification/Logger_Jobs.thy ===== *)
theory Logger_Jobs
  imports Logger_Workers Logger_Files
begin

section \<open>Counting the compression jobs\<close>

text \<open>
  \<open>SimpleLogger::stop\<close> waits until the logger's counter \<open>numCompJobs\<close> is zero. The counter is raised
  by a logger that changes to a new revision, which also queues the old file with the manager, and
  lowered by the compressing thread. Here the two are followed through any interleaving of messages,
  flushes and rounds of that thread: the counter is the number of queued files, and the thread brings
  it to zero.
\<close>

subsection \<open>Interleavings\<close>

datatype job_event =
    Log_line nat int "string option" "string option" nat string
  | Flush_logger nat
  | Compress_next

fun job_step :: "put_env \<Rightarrow> shell \<Rightarrow> job_event \<Rightarrow> logger_heap \<times> log_world \<Rightarrow> log_error + logger_heap \<times> log_world" where
  "job_step E system (Log_line a level src func line body) (h, w) =
     (case put E a level src func line body (h a, w) of Inl e \<Rightarrow> Inl e | Inr (lg, w) \<Rightarrow> Inr (h(a := lg), w))"
| "job_step E system (Flush_logger a) (h, w) = (case flushAll a (h a, w) of (lg, w) \<Rightarrow> Inr (h(a := lg), w))"
| "job_step E system Compress_next st = Inr (compress_round system st)"

fun run_jobs :: "put_env \<Rightarrow> shell \<Rightarrow> job_event list \<Rightarrow> logger_heap \<times> log_world \<Rightarrow> log_error + logger_heap \<times> log_world" where
  "run_jobs E system [] st = Inr st"
| "run_jobs E system (e # es) st = lbind (job_step E system e st) (run_jobs E system es)"

text \<open>The queued files of a logger, and the invariant.\<close>

definition queued :: "nat \<Rightarrow> (u64 \<times> nat) list \<Rightarrow> nat" where
  "queued a es = length (filter (\<lambda>e. snd e = a) es)"

definition jobs_ok :: "logger_heap \<times> log_world \<Rightarrow> bool" where
  "jobs_ok = (\<lambda>(h, w). \<exists>m. lw_mgr w = Some m \<and> (\<forall>a. sl_numCompJobs (h a) = word_of_nat (queued a (mg_pendingCompElems m))))"

lemma queued_simps [simp]:
  "queued a [] = 0" "queued a (e # es) = (if snd e = a then Suc (queued a es) else queued a es)"
  "queued a (es @ fs) = queued a es + queued a fs"
  by (simp_all add: queued_def)

subsection \<open>What a logger does to the queue\<close>

text \<open>A logger only appends its own files to the queue, and counts them.\<close>

definition queues :: "nat \<Rightarrow> log_st \<Rightarrow> log_st \<Rightarrow> bool" where
  "queues a = (\<lambda>(lg, w) (lg', w'). \<forall>m. lw_mgr w = Some m \<longrightarrow>
     (\<exists>es. lw_mgr w' = Some (m\<lparr>mg_pendingCompElems := mg_pendingCompElems m @ es\<rparr>) \<and> (\<forall>e \<in> set es. snd e = a) \<and>
        sl_numCompJobs lg' = sl_numCompJobs lg + word_of_nat (length es)))"

lemma queues_same: "lw_mgr w' = lw_mgr w \<Longrightarrow> sl_numCompJobs lg' = sl_numCompJobs lg \<Longrightarrow> queues a (lg, w) (lg', w')"
  by (auto simp: queues_def intro: exI [of _ "[]"])

lemma queues_trans:
  assumes "queues a (lg, w) (lg1, w1)" "queues a (lg1, w1) (lg2, w2)"
  shows "queues a (lg, w) (lg2, w2)"
  unfolding queues_def prod.case
proof (intro allI impI)
  fix m
  assume m: "lw_mgr w = Some m"
  let ?q = "\<lambda>es. Some (m\<lparr>mg_pendingCompElems := mg_pendingCompElems m @ es\<rparr>)"
  obtain es where 1: "lw_mgr w1 = ?q es" "\<forall>e \<in> set es. snd e = a" "sl_numCompJobs lg1 = sl_numCompJobs lg + word_of_nat (length es)"
    using assms(1) m by (auto simp: queues_def)
  then obtain fs where "lw_mgr w2 = ?q (es @ fs)" "\<forall>e \<in> set fs. snd e = a" "sl_numCompJobs lg2 = sl_numCompJobs lg1 + word_of_nat (length fs)"
    using assms(2) by (auto simp: queues_def)
  with 1 show "\<exists>es. lw_mgr w2 = ?q es \<and> (\<forall>e \<in> set es. snd e = a) \<and> sl_numCompJobs lg2 = sl_numCompJobs lg + word_of_nat (length es)"
    by (intro exI [of _ "es @ fs"]) auto
qed

lemma flush_elems_queues: "flush_elems iis (lg, w) = (lg', w') \<Longrightarrow> queues a (lg, w) (lg', w')"
proof (induction iis arbitrary: lg w)
  case Nil
  then show ?case by (simp add: queues_same)
next
  case (Cons i iis)
  obtain r e fs w1 where f: "le_flush (sl_logs lg ! i) (sl_fs lg) w = (r, e, fs, w1)" by (metis prod_cases4)
  then have "lw_mgr w1 = lw_mgr w" by (auto simp: le_flush_def fs_write_def split: if_splits option.splits prod.splits)
  then have "queues a (lg, w) (lg\<lparr>sl_logs := (sl_logs lg)[i := e], sl_fs := fs\<rparr>, w1)" by (intro queues_same) simp_all
  moreover have "queues a (lg\<lparr>sl_logs := (sl_logs lg)[i := e], sl_fs := fs\<rparr>, w1) (lg', w')"
    using Cons.IH Cons.prems f by simp
  ultimately show ?case by (rule queues_trans)
qed

lemma new_revision_queues: "new_revision a (lg, w) = (lg', w') \<Longrightarrow> queues a (lg, w) (lg', w')"
  by (auto simp: new_revision_def Let_def fs_open_def queues_def addCompElem_def split: if_splits option.splits)
    (rule exI [of _ "[]"], simp)+

lemma flush_queues:
  assumes "flush a pos (lg, w) = (b, lg', w')"
  shows "queues a (lg, w) (lg', w')"
proof -
  obtain lg1 w1 where e: "flush_elems ([pos ..< length (sl_logs lg)] @ [0 ..< pos]) (lg, w) = (lg1, w1)" by force
  show ?thesis
  proof (cases "sl_flushingLogs lg")
    case True
    then show ?thesis using assms by (simp add: flush_def queues_same)
  next
    case False
    then have "new_revision a (lg1, w1) = (lg', w')" using assms e by (simp add: flush_def)
    then show ?thesis by (rule queues_trans [OF flush_elems_queues [OF e] new_revision_queues])
  qed
qed

lemma flushAll_queues: "flushAll a (lg, w) = (lg', w') \<Longrightarrow> queues a (lg, w) (lg', w')"
  unfolding flushAll_def by (metis flush_queues fst_conv prod.collapse)

lemma put_ring_queues:
  assumes "put_ring a msg n (lg, w) = Inr (lg', w')"
  shows "queues a (lg, w) (lg', w')"
proof -
  let ?lg = "lg\<lparr>sl_cursor := (sl_cursor lg + 1) mod length (sl_logs lg)\<rparr>"
  obtain b lg1 w1 where f: "(if needToFlush (sl_logs lg ! sl_cursor lg) then flush a (sl_cursor lg) (?lg, w) else (True, ?lg, w)) = (b, lg1, w1)"
    by (metis prod_cases3)
  have "queues a (lg, w) (?lg, w)" by (rule queues_same) simp_all
  moreover have "queues a (?lg, w) (lg1, w1)" using f flush_queues queues_same by (fastforce split: if_splits)
  moreover have "queues a (lg1, w1) (lg', w')"
    using assms f by (auto simp: put_ring_def Let_def intro!: queues_same split: if_splits)
  ultimately show ?thesis by (blast intro: queues_trans)
qed

lemma put_queues:
  assumes "put E a level src func line body (lg, w) = Inr (lg', w')"
  shows "queues a (lg, w) (lg', w')"
proof -
  have "(lg', w') = (lg, w) \<or> (\<exists>msg n w1. put_ring a msg n (lg, w) = Inr (lg', w1) \<and> lw_mgr w' = lw_mgr w1)"
    using assms by (auto simp: put_def split: if_splits prod.splits sum.splits) blast+
  then show ?thesis by (metis put_ring_queues queues_same queues_trans prod.inject)
qed

subsection \<open>The invariant\<close>

lemma queued_own: "\<forall>e \<in> set es. snd e = a \<Longrightarrow> queued b es = (if b = a then length es else 0)"
  by (induction es) auto

lemma queues_jobs_ok:
  assumes "jobs_ok (h, w)" "queues a (h a, w) (lg, w')"
  shows "jobs_ok (h(a := lg), w')"
proof -
  obtain m where m: "lw_mgr w = Some m" "\<And>b. sl_numCompJobs (h b) = word_of_nat (queued b (mg_pendingCompElems m))"
    using assms(1) by (auto simp: jobs_ok_def)
  obtain es where "lw_mgr w' = Some (m\<lparr>mg_pendingCompElems := mg_pendingCompElems m @ es\<rparr>)" "\<forall>e \<in> set es. snd e = a"
      "sl_numCompJobs lg = sl_numCompJobs (h a) + word_of_nat (length es)"
    using assms(2) m(1) by (auto simp: queues_def)
  then show ?thesis using m(2) by (simp add: jobs_ok_def queued_own [of es a])
qed

lemma rm_loop_jobs: "sl_numCompJobs (fst (rm_loop system n ii st)) = sl_numCompJobs (fst st)"
  by (induction system n ii st rule: rm_loop.induct) (simp_all add: Let_def)

lemma doCompression_jobs:
  assumes "doCompression system n (lg, w) = (lg', w')"
  shows "sl_numCompJobs lg' = sl_numCompJobs lg - 1"
  using assms rm_loop_jobs [of system] unfolding doCompression_def prod.case Let_def
  by (auto split: if_splits prod.splits) (metis fst_conv)

lemma compress_round_jobs_ok:
  assumes "jobs_ok (h, w)"
  shows "jobs_ok (compress_round system (h, w))"
proof -
  obtain m where m: "lw_mgr w = Some m" "\<And>b. sl_numCompJobs (h b) = word_of_nat (queued b (mg_pendingCompElems m))"
    using assms by (auto simp: jobs_ok_def)
  show ?thesis
  proof (cases "mg_pendingCompElems m")
    case Nil
    then show ?thesis using assms m(1) by (simp add: compress_round_idle)
  next
    case (Cons e es)
    obtain n a where e: "e = (n, a)" by force
    obtain lg w' where d: "doCompression system n (h a, w) = (lg, w')" by force
    have "compress_round system (h, w) = (h(a := lg), w'\<lparr>lw_mgr := Some (m\<lparr>mg_pendingCompElems := es\<rparr>)\<rparr>)"
      using compress_round_next [where h = h and a = a] m(1) Cons e d by blast
    moreover have "sl_numCompJobs lg = word_of_nat (queued a es)" using doCompression_jobs [OF d] m(2) [of a] Cons e by simp
    ultimately show ?thesis using m(2) Cons e by (auto simp: jobs_ok_def)
  qed
qed

lemma job_step_ok:
  assumes "jobs_ok st" "job_step E system e st = Inr st'"
  shows "jobs_ok st'"
proof (cases e)
  case Log_line
  with assms show ?thesis by (cases st) (auto intro: queues_jobs_ok put_queues split: sum.splits prod.splits)
next
  case Flush_logger
  with assms show ?thesis by (cases st) (auto intro: queues_jobs_ok flushAll_queues split: prod.splits)
next
  case Compress_next
  with assms show ?thesis by (cases st) (auto intro: compress_round_jobs_ok)
qed

lemma run_jobs_ok: "jobs_ok st \<Longrightarrow> run_jobs E system es st = Inr st' \<Longrightarrow> jobs_ok st'"
proof (induction es arbitrary: st)
  case (Cons e es)
  then obtain st1 where "job_step E system e st = Inr st1" "run_jobs E system es st1 = Inr st'"
    by (auto simp: lbind_def split: sum.splits)
  then show ?case using Cons.IH job_step_ok Cons.prems(1) by blast
qed simp

lemma compress_all_jobs:
  "compress_all system es (h, w) = (h', w') \<Longrightarrow>
    sl_numCompJobs (h' a) = sl_numCompJobs (h a) - word_of_nat (queued a es) \<and> lw_mgr w' = lw_mgr w"
proof (induction es arbitrary: h w)
  case (Cons e es)
  obtain n b where e: "e = (n, b)" by force
  obtain lg w1 where d: "doCompression system n (h b, w) = (lg, w1)" by force
  have "compress_all system es (h(b := lg), w1) = (h', w')" using Cons.prems e d by simp
  from Cons.IH [OF this] show ?case using doCompression_jobs [OF d] doCompression_mgr [OF d] e by auto
qed simp

text \<open>
  C37. The wait of \<open>stop\<close> ends: after any interleaving of messages, flushes and rounds of the compressing
  thread, the counter \<open>numCompJobs\<close> of every logger is the number of its files that are queued, and
  once the thread has gone through as many rounds as files are queued, the queue is empty and every
  counter is zero.
\<close>

theorem stop_wait_ends:
  assumes "jobs_ok st" "run_jobs E system es st = Inr (h, w)"
  shows "\<exists>m. lw_mgr w = Some m \<and> (\<forall>a. sl_numCompJobs (h a) = word_of_nat (queued a (mg_pendingCompElems m))) \<and>
    (\<forall>k \<ge> length (mg_pendingCompElems m). case compressWorker system (replicate k False) s (h, w) of
       (_, h', w') \<Rightarrow> lw_mgr w' = Some (m\<lparr>mg_pendingCompElems := []\<rparr>) \<and> (\<forall>a. sl_numCompJobs (h' a) = 0))"
proof -
  obtain m where m: "lw_mgr w = Some m" "\<forall>a. sl_numCompJobs (h a) = word_of_nat (queued a (mg_pendingCompElems m))"
    using run_jobs_ok [OF assms] by (auto simp: jobs_ok_def)
  let ?w = "w\<lparr>lw_mgr := Some (m\<lparr>mg_pendingCompElems := []\<rparr>)\<rparr>"
  obtain h' w' where c: "compress_all system (mg_pendingCompElems m) (h, ?w) = (h', w')" by force
  have "lw_mgr w' = Some (m\<lparr>mg_pendingCompElems := []\<rparr>)" "\<forall>a. sl_numCompJobs (h' a) = 0"
    using compress_all_jobs [OF c] m(2) by simp_all
  then show ?thesis using m compressor_drains [OF m(1) refl] c by auto
qed

text \<open>A full file: the next flush changes to a new revision and queues the old one.\<close>

theorem stop_wait_ends_witness:
  "\<exists>h w m. run_jobs demo_env ref_shell [Flush_logger 0] (\<lambda>_. demo_logger\<lparr>sl_fs := \<lparr>fs_path = Some ''srv.log'', fs_failed = False, fs_pos = 61\<rparr>\<rparr>, demo_log_world) = Inr (h, w) \<and>
     lw_mgr w = Some m \<and> mg_pendingCompElems m = [(0, 0)] \<and> sl_numCompJobs (h 0) = 1 \<and>
     (case compressWorker ref_shell [False] True (h, w) of (_, h', w') \<Rightarrow> sl_numCompJobs (h' 0) = 0)"
proof -
  let ?lg = "demo_logger\<lparr>sl_fs := \<lparr>fs_path = Some ''srv.log'', fs_failed = False, fs_pos = 61\<rparr>\<rparr>"
  have ok: "jobs_ok (\<lambda>_. ?lg, demo_log_world)" by (simp add: jobs_ok_def demo_log_world_def demo_logger_def logger_mgr_new_def)
  obtain lg w where f: "flushAll 0 (?lg, demo_log_world) = (lg, w)" by force
  then have q: "lw_mgr w = Some (logger_mgr_new\<lparr>mg_pendingCompElems := [(0, 0)]\<rparr>)"
    by (auto simp: flushAll_def flush_def demo_logger_def demo_log_world_def le_flush_def log_elem_new_def new_revision_def
        fs_tellp_def fs_open_def fs_close_def addCompElem_def logger_mgr_new_def upt_rec Let_def)
  let ?h = "(\<lambda>_. ?lg)(0 := lg)"
  have r: "run_jobs demo_env ref_shell [Flush_logger 0] (\<lambda>_. ?lg, demo_log_world) = Inr (?h, w)" using f by (simp add: lbind_def)
  let ?m = "logger_mgr_new\<lparr>mg_pendingCompElems := [(0, 0)]\<rparr>"
  have t: "\<forall>a. sl_numCompJobs (?h a) = word_of_nat (queued a (mg_pendingCompElems ?m))"
    "\<forall>k \<ge> length (mg_pendingCompElems ?m). case compressWorker ref_shell (replicate k False) True (?h, w) of
       (_, h', w') \<Rightarrow> lw_mgr w' = Some (?m\<lparr>mg_pendingCompElems := []\<rparr>) \<and> (\<forall>a. sl_numCompJobs (h' a) = 0)"
    using stop_wait_ends [OF ok r, of True] q by auto
  have "sl_numCompJobs (?h 0) = 1" using spec [OF t(1), of 0] by simp
  moreover have "case compressWorker ref_shell [False] True (?h, w) of (_, h', w') \<Rightarrow> sl_numCompJobs (h' 0) = 0"
    using spec [OF t(2), of 1] by (auto split: prod.splits)
  ultimately show ?thesis using r q by (intro exI [of _ ?h] exI [of _ w] exI [of _ ?m]) simp
qed

end
