(* ===== verification/Logger_Shutdown.thy ===== *)
theory Logger_Shutdown
  imports Logger_Jobs
begin

section \<open>Ending the manager's threads\<close>

text \<open>
  \<open>~SimpleLoggerMgr\<close> tells the two threads to end, wakes them and joins them. A thread looks at
  \<open>termination\<close> before every round, without a lock, and may go to sleep after the flag was set and the
  notification sent; then only the timeout of its sleep wakes it. The threads and the destructor are
  a step relation over what they share; \<open>sleepFlusher\<close> and \<open>sleepCompressor\<close> are two steps, up to the
  lock of the condition variable and inside \<open>wait_for\<close>, which ends by a notification, by the timeout
  or for no reason.
\<close>

subsection \<open>States and steps\<close>

text \<open>Where a thread is: at the guard of its loop, before its sleep, asleep, in its round, ended.\<close>

datatype worker_pc = W_check | W_sleep | W_wait | W_work | W_done

text \<open>The destructor: not called, the flag set, the signal handlers restored, the flusher notified, the
  compressor notified, the first and the second thread joined, the buffer freed.\<close>

datatype destructor_pc = D_none | D_flag | D_signals | D_flusher | D_compressor | D_joined1 | D_joined2 | D_freed

record mgr_threads =
  mt_termination :: bool
  mt_flusher :: worker_pc
  mt_compressor :: worker_pc
  mt_sleep_next_time :: bool
  mt_pending :: nat
  mt_destructor :: destructor_pc

text \<open>\<open>SimpleLoggerMgr()\<close> starts both threads.\<close>

definition threads_start :: mgr_threads where
  "threads_start = \<lparr>mt_termination = False, mt_flusher = W_check, mt_compressor = W_check, mt_sleep_next_time = True,
     mt_pending = 0, mt_destructor = D_none\<rparr>"

definition chkTermination :: "mgr_threads \<Rightarrow> bool" where
  "chkTermination s = mt_termination s"

text \<open>\<open>notify_all\<close>: a thread that waits goes on; one that does not wait yet is not reached.\<close>

definition notify :: "worker_pc \<Rightarrow> worker_pc" where
  "notify p = (if p = W_wait then W_work else p)"

text \<open>\<open>addCompElem\<close>, by the flusher in its round or by another thread that logs.\<close>

definition add_elem :: "mgr_threads \<Rightarrow> mgr_threads" where
  "add_elem s = s\<lparr>mt_pending := Suc (mt_pending s), mt_compressor := notify (mt_compressor s)\<rparr>"

text \<open>The round of the compressor: an element, if there is one, and then no sleep before the next round.\<close>

definition take_elem :: "mgr_threads \<Rightarrow> mgr_threads" where
  "take_elem s = s\<lparr>mt_pending := mt_pending s - 1, mt_sleep_next_time := (mt_pending s = 0)\<rparr>"

text \<open>Nobody else logs while the manager is being destroyed.\<close>

inductive mgr_step :: "mgr_threads \<Rightarrow> mgr_threads \<Rightarrow> bool" where
  f_end: "mt_flusher s = W_check \<Longrightarrow> chkTermination s \<Longrightarrow> mgr_step s (s\<lparr>mt_flusher := W_done\<rparr>)"
| f_go: "mt_flusher s = W_check \<Longrightarrow> \<not> chkTermination s \<Longrightarrow> mgr_step s (s\<lparr>mt_flusher := W_sleep\<rparr>)"
| f_sleep: "mt_flusher s = W_sleep \<Longrightarrow> mgr_step s (s\<lparr>mt_flusher := W_wait\<rparr>)"
| f_wake: "mt_flusher s = W_wait \<Longrightarrow> mgr_step s (s\<lparr>mt_flusher := W_work\<rparr>)"
| f_round: "mt_flusher s = W_work \<Longrightarrow> mgr_step s ((add_elem ^^ k) (s\<lparr>mt_flusher := W_check\<rparr>))"
| c_end: "mt_compressor s = W_check \<Longrightarrow> chkTermination s \<Longrightarrow> mgr_step s (s\<lparr>mt_compressor := W_done\<rparr>)"
| c_go: "mt_compressor s = W_check \<Longrightarrow> \<not> chkTermination s \<Longrightarrow>
    mgr_step s (s\<lparr>mt_compressor := if mt_sleep_next_time s then W_sleep else W_work\<rparr>)"
| c_sleep: "mt_compressor s = W_sleep \<Longrightarrow> mgr_step s (s\<lparr>mt_compressor := W_wait\<rparr>)"
| c_wake: "mt_compressor s = W_wait \<Longrightarrow> mgr_step s (s\<lparr>mt_compressor := W_work\<rparr>)"
| c_round: "mt_compressor s = W_work \<Longrightarrow> mgr_step s (take_elem (s\<lparr>mt_compressor := W_check\<rparr>))"
| other_logs: "mt_destructor s = D_none \<Longrightarrow> mgr_step s (add_elem s)"
| d_flag: "mt_destructor s = D_none \<Longrightarrow> mgr_step s (s\<lparr>mt_termination := True, mt_destructor := D_flag\<rparr>)"
| d_signals: "mt_destructor s = D_flag \<Longrightarrow> mgr_step s (s\<lparr>mt_destructor := D_signals\<rparr>)"
| d_flusher: "mt_destructor s = D_signals \<Longrightarrow>
    mgr_step s (s\<lparr>mt_flusher := notify (mt_flusher s), mt_destructor := D_flusher\<rparr>)"
| d_compressor: "mt_destructor s = D_flusher \<Longrightarrow>
    mgr_step s (s\<lparr>mt_compressor := notify (mt_compressor s), mt_destructor := D_compressor\<rparr>)"
| d_join1: "mt_destructor s = D_compressor \<Longrightarrow> mt_flusher s = W_done \<Longrightarrow> mgr_step s (s\<lparr>mt_destructor := D_joined1\<rparr>)"
| d_join2: "mt_destructor s = D_joined1 \<Longrightarrow> mt_compressor s = W_done \<Longrightarrow> mgr_step s (s\<lparr>mt_destructor := D_joined2\<rparr>)"
| d_free: "mt_destructor s = D_joined2 \<Longrightarrow> mgr_step s (s\<lparr>mt_destructor := D_freed\<rparr>)"

inductive_cases mgr_stepE: "mgr_step s s'"

subsection \<open>The steps that are left\<close>

fun worker_rank :: "worker_pc \<Rightarrow> nat" where
  "worker_rank W_sleep = 4" | "worker_rank W_wait = 3" | "worker_rank W_work = 2" | "worker_rank W_check = 1" | "worker_rank W_done = 0"

fun destructor_rank :: "destructor_pc \<Rightarrow> nat" where
  "destructor_rank D_none = 7" | "destructor_rank D_flag = 6" | "destructor_rank D_signals = 5" | "destructor_rank D_flusher = 4"
| "destructor_rank D_compressor = 3" | "destructor_rank D_joined1 = 2" | "destructor_rank D_joined2 = 1" | "destructor_rank D_freed = 0"

definition steps_left :: "mgr_threads \<Rightarrow> nat" where
  "steps_left s = worker_rank (mt_flusher s) + worker_rank (mt_compressor s) + destructor_rank (mt_destructor s)"

lemma worker_rank_notify: "worker_rank (notify p) \<le> worker_rank p"
  by (simp add: notify_def)

lemma notify_done [simp]: "notify p = W_done \<longleftrightarrow> p = W_done"
  by (simp add: notify_def)

lemma add_elem_simps [simp]:
  "mt_flusher (add_elem s) = mt_flusher s" "mt_destructor (add_elem s) = mt_destructor s"
  "mt_termination (add_elem s) = mt_termination s" "mt_compressor (add_elem s) = notify (mt_compressor s)"
  by (simp_all add: add_elem_def)

lemma add_elems [simp]:
  "mt_flusher ((add_elem ^^ k) s) = mt_flusher s" "mt_destructor ((add_elem ^^ k) s) = mt_destructor s"
  "mt_termination ((add_elem ^^ k) s) = mt_termination s" "mt_compressor ((add_elem ^^ k) s) = W_done \<longleftrightarrow> mt_compressor s = W_done"
  by (induction k) simp_all

lemma add_elems_rank: "worker_rank (mt_compressor ((add_elem ^^ k) s)) \<le> worker_rank (mt_compressor s)"
  by (induction k) (auto intro: order_trans [OF worker_rank_notify])

text \<open>The flag is set exactly once the destructor runs, and it passes a join only after the thread's end.\<close>

definition mgr_inv :: "mgr_threads \<Rightarrow> bool" where
  "mgr_inv s \<longleftrightarrow> (mt_termination s \<longleftrightarrow> mt_destructor s \<noteq> D_none) \<and>
     (mt_destructor s \<in> {D_joined1, D_joined2, D_freed} \<longrightarrow> mt_flusher s = W_done) \<and>
     (mt_destructor s \<in> {D_joined2, D_freed} \<longrightarrow> mt_compressor s = W_done)"

lemma mgr_step_inv: "mgr_step s s' \<Longrightarrow> mgr_inv s \<Longrightarrow> mgr_inv s'"
  by (induction rule: mgr_step.induct) (auto simp: mgr_inv_def chkTermination_def take_elem_def)

lemma mgr_step_flag: "mgr_step s s' \<Longrightarrow> mt_termination s \<Longrightarrow> mt_termination s'"
  by (induction rule: mgr_step.induct) (simp_all add: take_elem_def)

lemma mgr_step_less:
  assumes "mgr_step s s'" "mgr_inv s" "mt_termination s"
  shows "steps_left s' < steps_left s"
  using assms
proof (induction rule: mgr_step.induct)
  case (f_round s k)
  then show ?case using add_elems_rank [of k "s\<lparr>mt_flusher := W_check\<rparr>"] by (simp add: steps_left_def)
next
  case (d_flusher s)
  then show ?case using worker_rank_notify [of "mt_flusher s"] by (simp add: steps_left_def)
next
  case (d_compressor s)
  then show ?case using worker_rank_notify [of "mt_compressor s"] by (simp add: steps_left_def)
qed (simp_all add: steps_left_def mgr_inv_def chkTermination_def take_elem_def)

lemma mgr_step_enabled:
  assumes "mgr_inv s" "mt_termination s" "mt_destructor s \<noteq> D_freed"
  shows "\<exists>s'. mgr_step s s'"
proof (cases "mt_flusher s = W_done \<and> mt_compressor s = W_done")
  case True
  then show ?thesis using assms by (cases "mt_destructor s") (auto simp: mgr_inv_def intro: mgr_step.intros)
next
  case False
  moreover have "chkTermination s" using assms(2) by (simp add: chkTermination_def)
  ultimately show ?thesis by (cases "mt_flusher s"; cases "mt_compressor s") (auto intro: mgr_step.intros)
qed

lemma mgr_steps_keep:
  assumes "mgr_step\<^sup>*\<^sup>* s s'" "mgr_inv s"
  shows "mgr_inv s' \<and> (mt_termination s \<longrightarrow> mt_termination s')"
  using assms by (induction rule: rtranclp_induct) (auto intro: mgr_step_inv mgr_step_flag)

lemma mgr_steps_bound: "(mgr_step ^^ n) s s' \<Longrightarrow> mgr_inv s \<Longrightarrow> mt_termination s \<Longrightarrow> n + steps_left s' \<le> steps_left s"
proof (induction n arbitrary: s)
  case (Suc n)
  then obtain t where "mgr_step s t" "(mgr_step ^^ n) t s'" by (metis relpowp_Suc_D2)
  then show ?case using Suc.IH [of t] mgr_step_less [of s t] mgr_step_inv mgr_step_flag Suc.prems(2,3) by fastforce
qed simp


text \<open>The flusher has passed its guard but does not sleep yet when it is notified: the notification is missed.\<close>

definition missed_state :: mgr_threads where
  "missed_state = threads_start\<lparr>mt_termination := True, mt_flusher := W_sleep, mt_destructor := D_flusher\<rparr>"

lemma missed_reachable: "mgr_step\<^sup>*\<^sup>* threads_start missed_state"
proof -
  let ?s1 = "threads_start\<lparr>mt_flusher := W_sleep\<rparr>"
  let ?s2 = "?s1\<lparr>mt_termination := True, mt_destructor := D_flag\<rparr>" and ?s3 = "?s1\<lparr>mt_termination := True, mt_destructor := D_signals\<rparr>"
  have "mgr_step threads_start ?s1" using f_go [of threads_start] by (simp add: threads_start_def chkTermination_def)
  moreover have "mgr_step ?s1 ?s2" using d_flag [of ?s1] by (simp add: threads_start_def)
  moreover have "mgr_step ?s2 ?s3" using d_signals [of ?s2] by (simp add: threads_start_def)
  moreover have "mgr_step ?s3 missed_state"
    using d_flusher [of ?s3] by (simp add: threads_start_def missed_state_def notify_def)
  ultimately show ?thesis by (meson converse_rtranclp_into_rtranclp rtranclp.rtrancl_refl)
qed


end
