(* ===== verification/Logger_Windows.thy ===== *)
theory Logger_Windows
  imports Logger_Files
begin

section \<open>The directory scan on Windows\<close>

text \<open>
  The other branch of \<open>SimpleLogger::findMinMaxRevNum\<close>: \<open>FindFirstFile\<close> and \<open>FindNextFile\<close> enumerate the
  names that match the query, which is the directory's path followed by a star. The names in that order
  are the parameter \<open>find_files\<close>; no name at all is the invalid handle.
\<close>

text \<open>The loop, with the name in \<open>filedata\<close> and those that \<open>FindNextFile\<close> will still give.\<close>

fun win_loop :: "string \<Rightarrow> string \<Rightarrow> string list \<Rightarrow> revs \<Rightarrow> revs" where
  "win_loop file_name_only f_name [] rs =
     (if sublist file_name_only f_name then findMinMaxRevNumInternal f_name rs else rs)"
| "win_loop file_name_only f_name (next_name # rest) rs =
     win_loop file_name_only next_name rest
       (if sublist file_name_only f_name then findMinMaxRevNumInternal f_name rs else rs)"

definition findMinMaxRevNum_win :: "(string \<Rightarrow> string list) \<Rightarrow> string \<Rightarrow> u64 \<times> u64" where
  "findMinMaxRevNum_win find_files filePath =
     (case split_path filePath of (dir_path, file_name_only) \<Rightarrow>
        let query_str = dir_path @ ''*'' in
        (case (case find_files query_str of
                 [] \<Rightarrow> (False, 0, 0)
               | f_name # rest \<Rightarrow> win_loop file_name_only f_name rest (False, 0, 0)) of
           (_, min_revnum, max_revnum) \<Rightarrow> (min_revnum, max_revnum)))"

lemma win_loop_rev_loop: "win_loop n f fs rs = rev_loop n (f # fs) rs"
  by (induction n f fs rs rule: win_loop.induct) simp_all

lemma findMinMaxRevNum_win_alt:
  "findMinMaxRevNum_win find_files path =
     (case split_path path of (dir, n) \<Rightarrow> (case rev_loop n (find_files (dir @ ''*'')) (False, 0, 0) of (_, r) \<Rightarrow> r))"
  by (auto simp: findMinMaxRevNum_win_def win_loop_rev_loop split: list.split prod.split simp del: rev_loop.simps) simp_all

lemma rev_loop_irrelevant: "\<forall>f \<in> set fs. \<not> sublist n f \<Longrightarrow> rev_loop n fs rs = rs"
  by (induction fs) simp_all

text \<open>
  What a query gives: a star after a path that ends in a slash gives the names in that directory; a
  star after a path without a slash gives names in the current directory.
\<close>

definition find_laws :: "(string \<Rightarrow> string list) \<Rightarrow> (string \<Rightarrow> string list) \<Rightarrow> bool" where
  "find_laws dir_names find_files \<longleftrightarrow>
     (\<forall>d. find_files (d @ ''/*'') = dir_names (d @ ''/'')) \<and>
     (\<forall>p. CHR ''/'' \<notin> set p \<longrightarrow> set (find_files (p @ ''*'')) \<subseteq> set (dir_names ''./''))"

text \<open>
  For a log file in the current directory the two branches compute the same revisions. For a log file in
  another directory the Windows query has no slash between the directory and the star: it looks into
  the current directory, and when nothing there carries the log file's name the logger starts from
  revision 0, whatever revisions the directory holds.
\<close>

theorem windows_scan:
  assumes laws: "find_laws dir_names find_files" and n: "CHR ''/'' \<notin> set n" and d: "CHR ''/'' \<notin> set d"
  shows "findMinMaxRevNum_win find_files n = findMinMaxRevNum (\<lambda>dir. Some (dir_names dir)) n \<and>
    ((\<forall>f \<in> set (dir_names ''./''). \<not> sublist n f) \<longrightarrow> findMinMaxRevNum_win find_files (d @ ''/'' @ n) = (0, 0))"
proof -
  have "split_path n = (''./'', n)" "split_path (d @ ''/'' @ n) = (d, n)"
    using rfind_absent [OF n] rfind_last [OF n, of d] by (simp_all add: split_path_def)
  moreover have "find_files (''./'' @ ''*'') = dir_names ''./''" using laws [unfolded find_laws_def, THEN conjunct1, rule_format, of "''.''"] by simp
  moreover have "set (find_files (d @ ''*'')) \<subseteq> set (dir_names ''./'')" using laws d by (auto simp: find_laws_def)
  ultimately show ?thesis
    using rev_loop_irrelevant [of "find_files (d @ ''*'')" n "(False, 0, 0)"]
    by (auto simp: subset_iff findMinMaxRevNum_win_alt findMinMaxRevNum_def split: prod.split)
qed

text \<open>The directory \<open>logs\<close> holds revision 3, and the scan finds none.\<close>

definition win_names :: "string \<Rightarrow> string list" where
  "win_names d = (if d = ''./'' then [''logs''] else if d = ''logs/'' then [''srv.log'', ''srv.log.3''] else [])"

definition win_find :: "string \<Rightarrow> string list" where
  "win_find q = (if q = ''logs*'' then [''logs''] else win_names (butlast q))"

theorem windows_scan_witness:
  "findMinMaxRevNum_win win_find ''logs/srv.log'' = (0, 0) \<and>
   findMinMaxRevNum (\<lambda>dir. Some (win_names (dir @ ''/''))) ''logs/srv.log'' = (0, 3)"
proof -
  have "find_laws win_names win_find"
  proof -
    have "win_find (d @ ''/*'') = win_names (d @ ''/'')" for d
      by (auto simp: win_find_def butlast_append append_eq_Cons_conv)
    moreover have "set (win_find (p @ ''*'')) \<subseteq> set (win_names ''./'')" if "CHR ''/'' \<notin> set p" for p
      using that by (auto simp: win_find_def win_names_def)
    ultimately show ?thesis by (simp add: find_laws_def)
  qed
  moreover have "findMinMaxRevNum (\<lambda>dir. Some (win_names (dir @ ''/''))) ''logs/srv.log'' = (0, 3)" by code_simp
  moreover have "\<not> sublist ''srv.log'' ''logs''" by code_simp
  ultimately show ?thesis
    using windows_scan [of win_names win_find "''srv.log''" "''logs''"] by (simp add: win_names_def)
qed

end
