(* ===== verification/Backtrace_Other.thy ===== *)
theory Backtrace_Other
  imports Backtrace
begin

section \<open>Stack traces on other systems\<close>

text \<open>
  The parts of \<open>src/server/backtrace.h\<close> that are compiled on macOS (\<open>_stack_interpret_apple\<close> with the
  functions it uses) and anywhere else (\<open>_stack_interpret_other\<close>), and \<open>stack_backtrace\<close>. The calls to
  the system are parameters, as in \<open>Backtrace\<close>; \<open>None\<close> stands for a read past the end of a message.
\<close>

subsection \<open>macOS: the executable and its load address\<close>

record apple_env =
  ae_exec_path :: "string option"
  ae_text_vmaddr :: u64
  ae_images :: "(string \<times> u64) list"
  ae_popen :: "string \<Rightarrow> string option"
  ae_demangle :: "string \<Rightarrow> string option"
  ae_junk :: "nat \<Rightarrow> string"

definition static_base_address :: "apple_env \<Rightarrow> u64" where
  "static_base_address A = ae_text_vmaddr A"

text \<open>\<open>_NSGetExecutablePath\<close> fails when the path does not fit 1024 bytes.\<close>

definition get_exec_path :: "apple_env \<Rightarrow> string" where
  "get_exec_path A = (case ae_exec_path A of None \<Rightarrow> [] | Some path \<Rightarrow> path)"

definition get_file_part :: "string \<Rightarrow> string" where
  "get_file_part full_path = (case rfind (CHR ''/'') full_path of None \<Rightarrow> full_path | Some pos \<Rightarrow> drop (pos + 1) full_path)"

definition image_slide :: "apple_env \<Rightarrow> u64" where
  "image_slide A =
     (if get_exec_path A = [] then - 1
      else case find (\<lambda>im. fst im = get_exec_path A) (ae_images A) of Some im \<Rightarrow> snd im | None \<Rightarrow> - 1)"

subsection \<open>macOS: one frame\<close>

text \<open>
  \<open>skip_whitespace\<close> stops at the end of the string, \<open>skip_glyph\<close> does not: the rest of the string from
  the cursor on, and for a glyph also what was skipped.
\<close>

definition skip_whitespace :: "string \<Rightarrow> string" where
  "skip_whitespace rest = dropWhile (\<lambda>c. c = CHR '' '') rest"

definition skip_glyph :: "string \<Rightarrow> (string \<times> string) option" where
  "skip_glyph rest =
     (if CHR '' '' \<in> set rest
      then Some (takeWhile (\<lambda>c. c \<noteq> CHR '' '') rest, dropWhile (\<lambda>c. c \<noteq> CHR '' '') rest)
      else None)"

text \<open>File name, address and mangled function of a message; the last one is not read when the address is unknown.\<close>

definition apple_fields :: "string \<Rightarrow> (string \<times> string \<times> string option) option" where
  "apple_fields base_str =
     (case skip_glyph base_str of
        None \<Rightarrow> None
      | Some (_, rest) \<Rightarrow>
      (case skip_glyph (skip_whitespace rest) of
        None \<Rightarrow> None
      | Some (filename, rest) \<Rightarrow>
      (case skip_glyph (skip_whitespace rest) of
        None \<Rightarrow> None
      | Some (address, rest) \<Rightarrow>
          if prefix ''?'' address then Some (filename, address, None)
          else (case skip_glyph (skip_whitespace rest) of
                  None \<Rightarrow> None
                | Some (func_mangled, rest) \<Rightarrow> Some (filename, address, Some func_mangled)))))"

text \<open>The first line of the output of \<open>atos\<close>; the array keeps its old contents when there is none.\<close>

definition fgets_line :: "string \<Rightarrow> string \<Rightarrow> string" where
  "fgets_line out junk =
     (if out = [] then junk
      else take 4094 (takeWhile (\<lambda>c. c \<noteq> CHR 0x0A) out @ take 1 (dropWhile (\<lambda>c. c \<noteq> CHR 0x0A) out)))"

text \<open>
  Function and source in a line \<open>func (in image) (source)\<close>; the closing parenthesis and the line end are
  cut off, unless less than two characters are left.
\<close>

definition atos_parts :: "string \<Rightarrow> (string \<times> string) option" where
  "atos_parts atos_str =
     (case find_str '' (in '' atos_str of
        None \<Rightarrow> None
      | Some (function_part, _) \<Rightarrow>
          (case find_str '') ('' (drop (length function_part) atos_str) of
             None \<Rightarrow> None
           | Some (_, source_part) \<Rightarrow>
               Some (function_part, if length source_part < 2 then source_part else take (length source_part - 2) source_part)))"

definition atos_cmd :: "apple_env \<Rightarrow> string \<Rightarrow> string" where
  "atos_cmd A address =
     ''atos -l 0x'' @ show_hex (unat (image_slide A + static_base_address A)) @ '' -o '' @ get_exec_path A @ '' '' @ address"

text \<open>What is appended after the head of a frame; \<open>None\<close> when the round is left after the head.\<close>

definition apple_tail :: "apple_env \<Rightarrow> nat \<Rightarrow> string \<Rightarrow> string \<Rightarrow> string \<Rightarrow> string option" where
  "apple_tail A i filename address func_mangled =
     (if filename \<noteq> get_file_part (get_exec_path A) then
        Some (case ae_demangle A func_mangled of
                Some cc \<Rightarrow> cc @ '' at '' @ filename @ [CHR 0x0A]
              | None \<Rightarrow> func_mangled @ ''() at '' @ filename @ [CHR 0x0A])
      else
        (case ae_popen A (atos_cmd A address) of
           None \<Rightarrow> None
         | Some out \<Rightarrow>
             (case atos_parts (fgets_line out (ae_junk A i)) of
                None \<Rightarrow> None
              | Some (function_part, source_part) \<Rightarrow> Some (function_part @ '' at '' @ source_part @ [CHR 0x0A]))))"

definition apple_head :: "nat \<Rightarrow> string \<Rightarrow> string" where
  "apple_head frame_num address = ''#'' @ fmt_left 2 frame_num @ '' '' @ address @ '' in ''"

subsection \<open>The loops\<close>

fun apple_loop :: "apple_env \<Rightarrow> nat \<Rightarrow> nat \<Rightarrow> (nat \<times> string) list \<Rightarrow> string \<times> nat \<Rightarrow> (string \<times> nat) option" where
  "apple_loop A output_buflen frame_num [] bc = Some bc"
| "apple_loop A output_buflen frame_num ((i, stack_msg) # frames) (output_buf, cur_len) =
     (if stack_msg = [] then apple_loop A output_buflen frame_num frames (output_buf, cur_len)
      else case apple_fields stack_msg of
        None \<Rightarrow> None
      | Some (filename, address, None) \<Rightarrow> apple_loop A output_buflen frame_num frames (output_buf, cur_len)
      | Some (filename, address, Some func_mangled) \<Rightarrow>
          (case snprintf_macro (apple_head frame_num address) (output_buf, output_buflen, cur_len) of
             (output_buf, avail_len, cur_len) \<Rightarrow>
               (case apple_tail A i filename address func_mangled of
                  None \<Rightarrow> apple_loop A output_buflen (Suc frame_num) frames (output_buf, cur_len)
                | Some rest_text \<Rightarrow>
                    (case snprintf_macro rest_text (output_buf, avail_len, cur_len) of
                       (output_buf, _, cur_len) \<Rightarrow> apple_loop A output_buflen (Suc frame_num) frames (output_buf, cur_len)))))"

definition stack_interpret_apple :: "apple_env \<Rightarrow> string list \<Rightarrow> string \<Rightarrow> nat \<Rightarrow> (string \<times> nat) option" where
  "stack_interpret_apple A stack_msg output_buf output_buflen =
     apple_loop A output_buflen 0 (drop 1 (zip [0 ..< length stack_msg] stack_msg)) (output_buf, 0)"

fun other_loop :: "nat \<Rightarrow> string list \<Rightarrow> string \<times> nat \<Rightarrow> string \<times> nat" where
  "other_loop output_buflen [] bc = bc"
| "other_loop output_buflen (stack_msg # msgs) (output_buf, cur_len) =
     (case snprintf_macro (stack_msg @ [CHR 0x0A]) (output_buf, output_buflen, cur_len) of
        (output_buf, _, cur_len) \<Rightarrow> other_loop output_buflen msgs (output_buf, cur_len))"

definition stack_interpret_other :: "string list \<Rightarrow> string \<Rightarrow> nat \<Rightarrow> string \<times> nat" where
  "stack_interpret_other stack_msg output_buf output_buflen = other_loop output_buflen (drop 1 stack_msg) (output_buf, 0)"

text \<open>\<open>stack_backtrace\<close> of the calling thread: at most 256 frames, which \<open>backtrace\<close> (a parameter) gives.\<close>

definition stack_backtrace :: "symbol_env \<Rightarrow> (nat \<Rightarrow> u64 list) \<Rightarrow> string \<Rightarrow> nat \<Rightarrow> string \<times> nat" where
  "stack_backtrace S backtrace output_buf output_buflen = stack_interpret S (backtrace 256) output_buf output_buflen"

subsection \<open>What the buffer holds\<close>

text \<open>The buffer is filled and counted correctly, however the macro is used.\<close>

definition filled :: "nat \<Rightarrow> string \<times> nat \<Rightarrow> bool" where
  "filled L = (\<lambda>(buf, cur). length buf = L \<and> cur \<le> L)"

lemma filled_append:
  assumes "filled L (buf, cur)" "snprintf_macro x (buf, L, cur) = (buf', a, cur')"
  shows "filled L (buf', cur')" "buf_ok L (buf', a, cur')" "a = L - cur"
    "cur + length x < L \<Longrightarrow> cur' = cur + length x \<and> take cur' buf' = take cur buf @ x"
  using snprintf_macro_append [of L buf L cur x buf' a cur'] assms by (auto simp: filled_def buf_ok_def appended_def)

lemma filled_append2:
  assumes "buf_ok L (buf, a, cur)" "snprintf_macro x (buf, a, cur) = (buf', a', cur')"
  shows "filled L (buf', cur')" "cur + length x < a \<Longrightarrow> cur' = cur + length x \<and> take cur' buf' = take cur buf @ x"
  using snprintf_macro_append [OF assms] by (auto simp: filled_def buf_ok_def appended_def)

text \<open>The traces as they are meant; on macOS a frame that \<open>atos\<close> says nothing of has only its head.\<close>

fun apple_lines :: "apple_env \<Rightarrow> nat \<Rightarrow> (nat \<times> string) list \<Rightarrow> string option" where
  "apple_lines A n [] = Some []"
| "apple_lines A n ((i, stack_msg) # frames) =
     (if stack_msg = [] then apple_lines A n frames
      else case apple_fields stack_msg of
        None \<Rightarrow> None
      | Some (filename, address, None) \<Rightarrow> apple_lines A n frames
      | Some (filename, address, Some func_mangled) \<Rightarrow>
          map_option (\<lambda>rest. apple_head n address @
              (case apple_tail A i filename address func_mangled of None \<Rightarrow> [] | Some rest_text \<Rightarrow> rest_text) @ rest)
            (apple_lines A (Suc n) frames))"

lemma apple_loop_text:
  assumes "filled L (buf, cur)" "apple_loop A L n frames (buf, cur) = r"
  shows "case apple_lines A n frames of
      None \<Rightarrow> r = None
    | Some text \<Rightarrow> \<exists>buf' cur'. r = Some (buf', cur') \<and> filled L (buf', cur') \<and>
        (2 * (cur + length text) < L \<longrightarrow> take cur' buf' = take cur buf @ text)"
  using assms
proof (induction frames arbitrary: n buf cur)
  case (Cons p frames)
  obtain i msg where p: "p = (i, msg)" by force
  consider "msg = []" | "msg \<noteq> []" "apple_fields msg = None"
    | filename address where "msg \<noteq> []" "apple_fields msg = Some (filename, address, None)"
    | filename address fm where "msg \<noteq> []" "apple_fields msg = Some (filename, address, Some fm)"
    by (metis option.exhaust prod_cases3)
  then show ?case
  proof cases
    case (4 filename address fm)
    obtain b a c where x: "snprintf_macro (apple_head n address) (buf, L, cur) = (b, a, c)" by (metis prod_cases3)
    note h = filled_append [OF Cons.prems(1) x]
    show ?thesis
    proof (cases "apple_tail A i filename address fm")
      case None
      then have "apple_loop A L (Suc n) frames (b, c) = r" using Cons.prems(2) 4 by (simp add: p x)
      from Cons.IH [OF h(1) this] show ?thesis using h(4) 4 None by (auto simp: p split: option.splits)
    next
      case (Some rest_text)
      obtain b' a' c' where y: "snprintf_macro rest_text (b, a, c) = (b', a', c')" by (metis prod_cases3)
      note k = filled_append2 [OF h(2) y]
      have xy: "c' = cur + length (apple_head n address) + length rest_text \<and>
          take c' b' = take cur buf @ apple_head n address @ rest_text"
        if "2 * (cur + length (apple_head n address) + length rest_text) < L"
      proof -
        have "c = cur + length (apple_head n address) \<and> take c b = take cur buf @ apple_head n address"
          using that by (intro h(4)) simp
        moreover from this have "c + length rest_text < a" using that h(3) by simp
        ultimately show ?thesis using k(2) by (metis append.assoc)
      qed
      have "apple_loop A L (Suc n) frames (b', c') = r" using Cons.prems(2) 4 Some by (simp add: p x y)
      from Cons.IH [OF k(1) this] show ?thesis using xy 4 Some by (auto simp: p split: option.splits)
    qed
  qed (use Cons in \<open>auto simp: p\<close>)
qed auto

lemma other_loop_text:
  assumes "filled L (buf, cur)" "other_loop L msgs (buf, cur) = (buf', cur')"
  shows "filled L (buf', cur') \<and>
    (cur + length (concat (map (\<lambda>m. m @ [CHR 0x0A]) msgs)) < L \<longrightarrow>
      take cur' buf' = take cur buf @ concat (map (\<lambda>m. m @ [CHR 0x0A]) msgs))"
  using assms
proof (induction msgs arbitrary: buf cur)
  case (Cons m msgs)
  obtain b a c where x: "snprintf_macro (m @ [CHR 0x0A]) (buf, L, cur) = (b, a, c)" by (metis prod_cases3)
  note h = filled_append [OF Cons.prems(1) x]
  have "other_loop L msgs (b, c) = (buf', cur')" using Cons.prems(2) by (simp add: x)
  from Cons.IH [OF h(1) this] show ?case using h(4) by auto
qed simp

text \<open>
  On macOS and on other systems the buffer of a stack trace is not overrun either. Elsewhere the text
  is every message but the first on a line of its own, as long as it is shorter than the buffer. On
  macOS it is a line per frame as long as it takes less than half of the buffer, except that a frame
  of the program itself for which \<open>atos\<close> cannot be run or says nothing keeps its head without a line
  end; and a message of fewer than four words with a blank after each makes the code read past its
  end.
\<close>

theorem other_traces_text:
  assumes "length buf = L"
  shows "(case stack_interpret_other msgs buf L of
      (buf', len) \<Rightarrow> length buf' = L \<and> len \<le> L \<and>
        (length (concat (map (\<lambda>m. m @ [CHR 0x0A]) (drop 1 msgs))) < L \<longrightarrow>
          take len buf' = concat (map (\<lambda>m. m @ [CHR 0x0A]) (drop 1 msgs)))) \<and>
    (case apple_lines A 0 (drop 1 (zip [0 ..< length msgs] msgs)) of
      None \<Rightarrow> stack_interpret_apple A msgs buf L = None
    | Some text \<Rightarrow> \<exists>buf' len. stack_interpret_apple A msgs buf L = Some (buf', len) \<and> length buf' = L \<and> len \<le> L \<and>
        (2 * length text < L \<longrightarrow> take len buf' = text))"
proof -
  have f: "filled L (buf, 0)" using assms by (simp add: filled_def)
  show ?thesis
    using other_loop_text [OF f, of "drop 1 msgs"] apple_loop_text [OF f refl, of A 0 "drop 1 (zip [0 ..< length msgs] msgs)"]
    unfolding stack_interpret_other_def stack_interpret_apple_def by (auto simp: filled_def split: prod.splits option.splits)
qed

theorem other_traces_text_witness:
  "case stack_interpret_other [''a'', ''b''] (replicate 10 (CHR ''x'')) 10 of
     (buf, len) \<Rightarrow> take len buf = ''b'' @ [CHR 0x0A]"
proof -
  have "length (replicate 10 (CHR ''x'')) = 10" by simp
  from other_traces_text [OF this, of "[''a'', ''b'']"] show ?thesis by (auto split: prod.splits)
qed

end
