(* ===== verification/Inmem_Steps.thy ===== *)
theory Inmem_Steps
  imports Inmem_Log_Store
begin

section \<open>The in-memory log store under several threads\<close>

text \<open>
  Not every member function of \<open>inmem_log_store\<close> holds \<open>logs_lock_\<close> throughout. \<open>append\<close>, \<open>write_at\<close>,
  \<open>compact\<close>, \<open>entry_at\<close> and \<open>term_at\<close> touch the map in one critical section, but \<open>log_entries\<close>,
  \<open>log_entries_ext\<close>, \<open>pack\<close> and \<open>apply_pack\<close> take the lock anew for every index, and \<open>last_entry\<close> and
  \<open>flush\<close> take it for \<open>next_slot\<close> first. Here a call is a sequence of critical sections, between which
  the sections of other threads may come. What a thread computes between two sections is its own and
  is part of the step before it.
\<close>

subsection \<open>Threads and their steps\<close>

text \<open>What a call returned.\<close>

datatype ('b, 'e) lresult =
    R_ptrs "'e ptr list"
  | R_list "'e list"
  | R_entry 'e
  | R_buffer 'b
  | R_index u64
  | R_done
  | R_throws exn

text \<open>
  Where a thread is: outside; in the loop of \<open>log_entries\<close> (indexes left, entries read, size of the
  vector), of \<open>log_entries_ext\<close> (indexes left, hint, accumulated size, entries read) and of \<open>pack\<close>
  (count, indexes left, serialized entries); in \<open>last_entry\<close> or \<open>flush\<close> with the slot it has read; in
  the loop of \<open>apply_pack\<close> and before its last section; at the end of a call.
\<close>

datatype ('b, 'e) lpc =
    L_idle
  | L_entries "u64 list" "'e list" nat
  | L_ext "u64 list" u64 u64 "'e list"
  | L_pack i32 "u64 list" "'b list"
  | L_last u64
  | L_flush u64
  | L_unpack nat u64 'b
  | L_start
  | L_ret "('b, 'e) lresult"

text \<open>The actions that change the map, by what they do to it, and the others.\<close>

datatype 'e laction = A_append 'e | A_write_at u64 'e | A_compact u64 | A_put u64 | A_start | A_missing u64 | A_return | A_quiet

fun result_of :: "('a \<Rightarrow> ('b, 'e) lresult) \<Rightarrow> 'a res \<Rightarrow> ('b, 'e) lresult" where
  "result_of f (Inl x) = R_throws x"
| "result_of f (Inr y) = f y"

text \<open>The end of \<open>pack\<close>, without the lock: the buffer for the serialized entries.\<close>

definition pack_out :: "('b, 's, 'e, 'ea) nuraft \<Rightarrow> i32 \<Rightarrow> 'b list \<Rightarrow> 'b res" where
  "pack_out N cnt bufs =
     (let size_total = sum_list (map (buffer_size N) bufs);
          buf_out = set_pos0 N (buffer_alloc N (4 + scast cnt * 4 + size_total))
      in rbind (put_int N buf_out cnt) (put_bufs N bufs))"

text \<open>The next entry of a pack, read before the lock is taken.\<close>

definition unpack_next :: "('b, 's, 'e, 'ea) nuraft \<Rightarrow> 'b \<Rightarrow> ('e \<times> 'b) res" where
  "unpack_next N pack =
     rbind (get_int N pack) (\<lambda>(buf_size, pack).
     rbind (get_buffer N pack (buffer_alloc N (scast buf_size))) (\<lambda>(buf_local, pack).
     rbind (le_deserialize N buf_local) (\<lambda>le. Inr (le, pack))))"

inductive lstep :: "('b, 's, 'e, 'ea) nuraft \<Rightarrow> 'e laction \<Rightarrow> ('b, 'e) lpc \<Rightarrow> ('e, 'ea) inmem_log_store \<Rightarrow>
    ('b, 'e) lpc \<Rightarrow> ('e, 'ea) inmem_log_store \<Rightarrow> bool" for N where
  call_entries: "unat (end' - start) \<le> vector_ptr_max \<Longrightarrow>
    lstep N A_quiet L_idle ls (L_entries (urange start end') [] (unat (end' - start))) ls"
| call_entries_long: "unat (end' - start :: u64) > vector_ptr_max \<Longrightarrow> lstep N A_quiet L_idle ls (L_ret (R_throws Length_error)) ls"
| entries_read: "find_or_dummy ls ii = Inr src \<Longrightarrow>
    lstep N A_quiet (L_entries (ii # iis) es n) ls (L_entries iis (es @ [make_clone N src]) n) ls"
| entries_fail: "find_or_dummy ls ii = Inl x \<Longrightarrow> lstep N A_quiet (L_entries (ii # iis) es n) ls (L_ret (R_throws x)) ls"
| entries_end: "lstep N A_quiet (L_entries [] es n) ls (L_ret (R_ptrs (map Some es @ replicate (n - length es) None))) ls"
| call_ext: "lstep N A_quiet L_idle ls (if sint hint < 0 then L_ret (R_list []) else L_ext (urange start end') hint 0 []) ls"
| ext_read: "find_or_dummy ls ii = Inr src \<Longrightarrow> accum' = accum + buffer_size N (get_buf N src) \<Longrightarrow>
    lstep N A_quiet (L_ext (ii # iis) hint accum es) ls
      (if hint \<noteq> 0 \<and> accum' \<ge> hint then L_ret (R_list (es @ [make_clone N src]))
       else L_ext iis hint accum' (es @ [make_clone N src])) ls"
| ext_fail: "find_or_dummy ls ii = Inl x \<Longrightarrow> lstep N A_quiet (L_ext (ii # iis) hint accum es) ls (L_ret (R_throws x)) ls"
| ext_end: "lstep N A_quiet (L_ext [] hint accum es) ls (L_ret (R_list es)) ls"
| call_pack: "lstep N A_quiet L_idle ls (L_pack cnt (urange index (index + scast cnt)) []) ls"
| pack_read: "sm_find (logs ls) ii = Some (Some le) \<Longrightarrow>
    lstep N A_quiet (L_pack cnt (ii # iis) bufs) ls (L_pack cnt iis (bufs @ [le_serialize N le])) ls"
| pack_null: "sm_find (logs ls) ii = Some None \<Longrightarrow>
    lstep N A_quiet (L_pack cnt (ii # iis) bufs) ls (L_ret (R_throws Null_deref)) ls"
| pack_missing: "sm_find (logs ls) ii = None \<Longrightarrow>
    lstep N (A_missing ii) (L_pack cnt (ii # iis) bufs) ls (L_ret (R_throws Null_deref)) (ls\<lparr>logs := sm_put ii None (logs ls)\<rparr>)"
| pack_end: "lstep N A_quiet (L_pack cnt [] bufs) ls (L_ret (result_of R_buffer (pack_out N cnt bufs))) ls"
| call_last: "lstep N A_quiet L_idle ls (L_last (inmem_next_slot ls)) ls"
| last_read: "lstep N A_quiet (L_last next_idx) ls
    (L_ret (result_of R_entry (rbind (find_or_dummy ls (next_idx - 1)) (\<lambda>e. Inr (make_clone N e))))) ls"
| call_flush: "lstep N A_quiet L_idle ls (L_flush (inmem_next_slot ls)) ls"
| flush_set: "lstep N A_quiet (L_flush next_idx) ls (L_ret R_done) (ls\<lparr>disk_emul_last_durable_index := next_idx - 1\<rparr>)"
| call_unpack: "get_int N (set_pos0 N pack) = Inr (num_logs, pack') \<Longrightarrow>
    lstep N A_quiet L_idle ls (L_unpack (nat (sint num_logs)) index pack') ls"
| call_unpack_fail: "get_int N (set_pos0 N pack) = Inl x \<Longrightarrow> lstep N A_quiet L_idle ls (L_ret (R_throws x)) ls"
| unpack_put: "unpack_next N pack = Inr (le, pack') \<Longrightarrow>
    lstep N (A_put cur_idx) (L_unpack (Suc k) cur_idx pack) ls (L_unpack k (cur_idx + 1) pack')
      (ls\<lparr>logs := sm_put cur_idx (Some le) (logs ls)\<rparr>)"
| unpack_fail: "unpack_next N pack = Inl x \<Longrightarrow> lstep N A_quiet (L_unpack (Suc k) cur_idx pack) ls (L_ret (R_throws x)) ls"
| unpack_end: "lstep N A_quiet (L_unpack 0 cur_idx pack) ls L_start ls"
| unpack_start: "lstep N A_start L_start ls (L_ret R_done)
    (ls\<lparr>start_idx := (case sm_upper_bound 0 (logs ls) of Some p \<Rightarrow> fst p | None \<Rightarrow> 1)\<rparr>)"
| append: "inmem_append N cur_time e ls = (idx, ls') \<Longrightarrow> lstep N (A_append e) L_idle ls (L_ret (R_index idx)) ls'"
| write_at: "lstep N (A_write_at index e) L_idle ls (L_ret R_done) (inmem_write_at N cur_time index e ls)"
| compact: "inmem_compact last_log_index ls = Some (r, ls') \<Longrightarrow> lstep N (A_compact last_log_index) L_idle ls (L_ret R_done) ls'"
| next_slot: "lstep N A_quiet L_idle ls (L_ret (R_index (inmem_next_slot ls))) ls"
| entry_at: "lstep N A_quiet L_idle ls (L_ret (result_of R_entry (inmem_entry_at N ls index))) ls"
| term_at: "lstep N A_quiet L_idle ls (L_ret (result_of R_index (inmem_term_at N ls index))) ls"
| disk_round: "lstep N A_quiet L_idle ls (L_ret R_done) (snd (disk_emul_round N cur_time ls))"
| returns: "lstep N A_return (L_ret r) ls L_idle ls"

inductive_simps lstep_entries: "lstep N act (L_entries iis es n) ls pc' ls'"
inductive_simps lstep_ext: "lstep N act (L_ext iis hint accum es) ls pc' ls'"
inductive_simps lstep_pack: "lstep N act (L_pack cnt iis bufs) ls pc' ls'"
inductive_simps lstep_ret: "lstep N act (L_ret r) ls pc' ls'"

text \<open>The threads of a program over one store; \<open>P\<close> says which actions of which thread are considered.\<close>

inductive sys_step :: "('b, 's, 'e, 'ea) nuraft \<Rightarrow> (nat \<Rightarrow> 'e laction \<Rightarrow> ('e, 'ea) inmem_log_store \<Rightarrow> bool) \<Rightarrow>
    ('e, 'ea) inmem_log_store \<times> (nat \<Rightarrow> ('b, 'e) lpc) \<Rightarrow> ('e, 'ea) inmem_log_store \<times> (nat \<Rightarrow> ('b, 'e) lpc) \<Rightarrow> bool" for N P where
  thread: "lstep N act (pcs u) ls p ls' \<Longrightarrow> P u act ls \<Longrightarrow> sys_step N P (ls, pcs) (ls', pcs(u := p))"

lemma sys_stepI: "lstep N act (pcs u) ls p ls' \<Longrightarrow> P u act ls \<Longrightarrow> pcs' = pcs(u := p) \<Longrightarrow> sys_step N P (ls, pcs) (ls', pcs')"
  by (simp add: sys_step.thread)

subsection \<open>A call that goes on by itself\<close>

text \<open>The result that a call in progress has if the rest of it runs alone, and the indexes it still reads.\<close>

fun alone :: "('b, 's, 'e, 'ea) nuraft \<Rightarrow> ('e, 'ea) inmem_log_store \<Rightarrow> ('b, 'e) lpc \<Rightarrow> ('b, 'e) lresult option" where
  "alone N ls (L_entries iis es n) =
     Some (result_of R_ptrs (rbind (rmap (\<lambda>ii. rbind (find_or_dummy ls ii) (\<lambda>src. Inr (make_clone N src))) iis)
       (\<lambda>r. Inr (map Some (es @ r) @ replicate (n - length (es @ r)) None))))"
| "alone N ls (L_ext iis hint accum es) = Some (result_of R_list (rbind (ext_loop N ls hint accum iis) (\<lambda>r. Inr (es @ r))))"
| "alone N ls (L_pack cnt iis bufs) = Some (result_of R_buffer (rbind (fst (pack_loop N iis ls)) (\<lambda>r. pack_out N cnt (bufs @ r))))"
| "alone N ls (L_ret r) = Some r"
| "alone N ls _ = None"

fun to_read :: "('b, 'e) lpc \<Rightarrow> u64 list" where
  "to_read (L_entries iis es n) = iis"
| "to_read (L_ext iis hint accum es) = iis"
| "to_read (L_pack cnt iis bufs) = iis"
| "to_read _ = []"

lemma rbind_rbind: "rbind (rbind m f) g = rbind m (\<lambda>x. rbind (f x) g)"
  by (cases m) simp_all

text \<open>A step of the call does not change its result.\<close>

lemma pack_loop_step:
  "sm_find (logs ls) ii = Some (Some le) \<Longrightarrow>
    fst (pack_loop N (ii # iis) ls) = rbind (fst (pack_loop N iis ls)) (\<lambda>r. Inr (le_serialize N le # r))"
  by (cases "pack_loop N iis ls"; cases "fst (pack_loop N iis ls)") (auto simp: abind_def)

lemma own_step:
  assumes "lstep N act pc ls pc' ls'" "alone N ls pc = Some r" "act \<noteq> A_return"
  shows "alone N ls' pc' = Some r \<and> set (to_read pc') \<subseteq> set (to_read pc)"
proof (cases pc)
  case (L_entries iis es n)
  with assms(1) show ?thesis using assms(2) by (auto simp: lstep_entries rbind_rbind)
next
  case (L_ext iis hint accum es)
  with assms(1) show ?thesis using assms(2) by (auto simp: lstep_ext rbind_rbind Let_def split: if_splits)
next
  case (L_pack cnt iis bufs)
  with assms(1) show ?thesis using assms(2)
    by (auto simp: lstep_pack rbind_rbind pack_loop_step simp del: pack_loop.simps(2)) (simp_all)
next
  case L_ret
  with assms(1,3) show ?thesis by (simp add: lstep_ret)
qed (use assms(2) in simp_all)

text \<open>Nor does a change of the store that leaves the entries alone which it still reads.\<close>

definition same_at :: "u64 set \<Rightarrow> ('e, 'ea) inmem_log_store \<Rightarrow> ('e, 'ea) inmem_log_store \<Rightarrow> bool" where
  "same_at I ls ls' \<longleftrightarrow> (\<forall>i \<in> I. sm_find (logs ls) i \<noteq> None \<and> sm_find (logs ls') i = sm_find (logs ls) i)"

lemma same_at_find: "same_at I ls ls' \<Longrightarrow> i \<in> I \<Longrightarrow> find_or_dummy ls' i = find_or_dummy ls i"
  by (auto simp: same_at_def find_or_dummy_def)

lemma same_at_trans: "same_at I ls ls' \<Longrightarrow> same_at I ls' ls'' \<Longrightarrow> same_at I ls ls''"
  by (simp add: same_at_def)

lemma same_at_rmap: "same_at I ls ls' \<Longrightarrow> set iis \<subseteq> I \<Longrightarrow>
    rmap (\<lambda>ii. rbind (find_or_dummy ls' ii) f) iis = rmap (\<lambda>ii. rbind (find_or_dummy ls ii) f) iis"
  by (induction iis) (auto simp: same_at_find)

lemma same_at_ext_loop: "same_at I ls ls' \<Longrightarrow> set iis \<subseteq> I \<Longrightarrow> ext_loop N ls' hint accum iis = ext_loop N ls hint accum iis"
  by (induction iis arbitrary: accum) (auto simp: same_at_find Let_def intro!: rbind_cong)

lemma same_at_pack_loop: "same_at I ls ls' \<Longrightarrow> set iis \<subseteq> I \<Longrightarrow> fst (pack_loop N iis ls') = fst (pack_loop N iis ls)"
proof (induction iis)
  case (Cons ii iis)
  then have f: "sm_find (logs ls') ii = sm_find (logs ls) ii" "sm_find (logs ls) ii \<noteq> None" by (auto simp: same_at_def)
  then obtain p where p: "sm_find (logs ls) ii = Some p" by blast
  show ?case using Cons f p by (cases p) (simp_all add: pack_loop_step del: pack_loop.simps(2), simp_all)
qed simp

lemma same_at_alone:
  assumes "same_at I ls ls'" "set (to_read pc) \<subseteq> I"
  shows "alone N ls' pc = alone N ls pc"
  using assms(2)
  by (cases pc) (simp_all add: same_at_rmap [OF assms(1)] same_at_ext_loop [OF assms(1)] same_at_pack_loop [OF assms(1)])

subsection \<open>Threads that leave a range alone\<close>

text \<open>
  While a range of the log is read, other threads may append, overwrite at or behind its end, compact
  before its start, read, and flush.
\<close>

fun polite :: "u64 \<Rightarrow> u64 \<Rightarrow> 'e laction \<Rightarrow> ('e, 'ea) inmem_log_store \<Rightarrow> bool" where
  "polite a b (A_append e) ls \<longleftrightarrow> unat (inmem_next_slot ls) + 1 < 18446744073709551616"
| "polite a b (A_write_at i e) ls \<longleftrightarrow> b \<le> i \<and> i \<le> inmem_next_slot ls \<and> unat i + 1 < 18446744073709551616"
| "polite a b (A_compact i) ls \<longleftrightarrow> i < a"
| "polite a b A_return ls \<longleftrightarrow> True"
| "polite a b A_quiet ls \<longleftrightarrow> True"
| "polite a b _ ls \<longleftrightarrow> False"

definition holds_range :: "u64 \<Rightarrow> u64 \<Rightarrow> ('e, 'ea) inmem_log_store \<Rightarrow> bool" where
  "holds_range a b ls \<longleftrightarrow> inmem_inv ls \<and> start_idx ls \<le> a \<and> a \<le> b \<and> b \<le> inmem_next_slot ls"

lemma holds_range_found: "holds_range a b ls \<Longrightarrow> i \<in> {a ..< b} \<Longrightarrow> sm_find (logs ls) i \<noteq> None"
  using inmem_inv_find [of ls i] by (fastforce simp: holds_range_def)

lemma quiet_step:
  assumes "lstep N act pc ls pc' ls'" "act = A_quiet \<or> act = A_return"
  shows "logs ls' = logs ls" "start_idx ls' = start_idx ls"
  using assms by (cases; simp add: same_logs)+

lemma polite_step:
  assumes "lstep N act pc ls pc' ls'" "polite a b act ls" "holds_range a b ls"
  shows "holds_range a b ls' \<and> same_at {a ..< b} ls ls'"
proof -
  have inv: "inmem_inv ls" and r: "start_idx ls \<le> a" "a \<le> b" "b \<le> inmem_next_slot ls" and ok: "sm_ok (logs ls)"
    using assms(3) by (auto simp: holds_range_def inmem_inv_def)
  have found: "sm_find (logs ls) i \<noteq> None" if "a \<le> i" "i < b" for i using holds_range_found [OF assms(3)] that by simp
  show ?thesis
  proof (cases act)
    case (A_append e)
    then obtain t i where a: "inmem_append N t e ls = (i, ls')" using assms(1) by (auto elim: lstep.cases)
    note spec = inmem_append_spec [OF inv _ a] and at = inmem_append_logs [OF a]
    have room: "unat (inmem_next_slot ls) + 1 < 18446744073709551616" using assms(2) A_append by simp
    have "inmem_next_slot ls' = inmem_next_slot ls + 1"
      using put_at_end(2) [OF inv _ _ _ _ at [THEN conjunct2, THEN conjunct2], of "inmem_next_slot ls"] room inv at
      by (simp add: cut_at_end [OF inv] inmem_inv_def)
    then have "b \<le> inmem_next_slot ls'" using r(3) room unat_Suc_64 [of "inmem_next_slot ls"] by (simp add: u64_le_iff)
    then show ?thesis using spec(2,3) [OF room] at r found by (auto simp: holds_range_def same_at_def)
  next
    case (A_write_at i e)
    then obtain t where a: "ls' = inmem_write_at N t i e ls" using assms(1) by (auto elim: lstep.cases)
    have i: "b \<le> i" "i \<le> inmem_next_slot ls" "unat i + 1 < 18446744073709551616" using assms(2) A_write_at by simp_all
    have s: "start_idx ls \<le> i" using r i(1) by simp
    have spec: "inmem_inv ls'" "inmem_next_slot ls' = i + 1"
      using put_at_end(1,2) [OF inv s i(2,3), where ls' = ls' and c = "make_clone N e"] by (simp_all add: a inmem_write_at_logs)
    have "b \<le> inmem_next_slot ls'" using spec(2) i unat_Suc_64 [of i] by (simp add: u64_le_iff)
    moreover have "sm_find (logs ls') j = sm_find (logs ls) j" if "a \<le> j" "j < b" for j
      using that i(1) ok by (auto simp: a inmem_write_at_logs)
    ultimately show ?thesis using spec(1) r found by (auto simp: holds_range_def same_at_def a inmem_write_at_logs)
  next
    case (A_compact i)
    then obtain x where c: "inmem_compact i ls = Some (x, ls')" and i: "i < a" using assms(1,2) by (auto elim: lstep.cases)
    have lt: "unat i + 1 < 18446744073709551616" using i unat_lt_2_64 [of a] unfolding u64_less_iff by linarith
    have le: "(if start_idx ls \<le> i then i + 1 else start_idx ls) \<le> a"
      using r(1) i unat_Suc_64 [OF lt] by (simp add: u64_le_iff u64_less_iff)
    obtain l where "inmem_compact i ls = Some (True, l)" "inmem_inv l" "start_idx l = (if start_idx ls \<le> i then i + 1 else start_idx ls)"
        "inmem_next_slot l = max (inmem_next_slot ls) (start_idx l)" "\<forall>j \<ge> start_idx l. sm_find (logs l) j = sm_find (logs ls) j"
      using inmem_compact_spec [OF inv lt] by blast
    then have "inmem_inv ls'" "start_idx ls' \<le> a" "inmem_next_slot ls \<le> inmem_next_slot ls'"
        "\<And>j. start_idx ls' \<le> j \<Longrightarrow> sm_find (logs ls') j = sm_find (logs ls) j"
      using c le by auto
    then show ?thesis using r found by (fastforce simp: holds_range_def same_at_def)
  qed (use assms quiet_step [OF assms(1)] found in \<open>auto simp: holds_range_def same_at_def inmem_next_slot_def intro: inmem_inv_cong [THEN iffD1]\<close>)
qed

subsection \<open>Reads of a range are atomic\<close>

text \<open>The calls that read a range, their program points at the start, and what they return by themselves.\<close>

datatype range_call = C_log_entries | C_log_entries_ext u64 | C_pack i32

fun call_range :: "range_call \<Rightarrow> u64 \<Rightarrow> u64 \<Rightarrow> bool" where
  "call_range C_log_entries a b \<longleftrightarrow> unat (b - a) \<le> vector_ptr_max"
| "call_range (C_log_entries_ext hint) a b \<longleftrightarrow> 0 \<le> sint hint"
| "call_range (C_pack cnt) a b \<longleftrightarrow> b = a + scast cnt"

fun call_pc :: "range_call \<Rightarrow> u64 \<Rightarrow> u64 \<Rightarrow> ('b, 'e) lpc" where
  "call_pc C_log_entries a b = L_entries (urange a b) [] (unat (b - a))"
| "call_pc (C_log_entries_ext hint) a b = L_ext (urange a b) hint 0 []"
| "call_pc (C_pack cnt) a b = L_pack cnt (urange a b) []"

fun call_fun :: "('b, 's, 'e, 'ea) nuraft \<Rightarrow> range_call \<Rightarrow> u64 \<Rightarrow> u64 \<Rightarrow> ('e, 'ea) inmem_log_store \<Rightarrow> ('b, 'e) lresult" where
  "call_fun N C_log_entries a b ls = result_of R_ptrs (inmem_log_entries N a b ls)"
| "call_fun N (C_log_entries_ext hint) a b ls = result_of R_list (inmem_log_entries_ext N a b hint ls)"
| "call_fun N (C_pack cnt) a b ls = result_of R_buffer (fst (inmem_pack N a cnt ls))"

lemma call_pc_step:
  assumes "call_range c a b"
  shows "lstep N A_quiet L_idle ls (call_pc c a b) ls"
proof (cases c)
  case (C_log_entries_ext hint)
  then show ?thesis using assms call_ext [of N ls hint a b] by simp
qed (use assms in \<open>auto intro: lstep.intros\<close>)

lemma fst_inmem_pack: "fst (inmem_pack N a cnt ls) = rbind (fst (pack_loop N (urange a (a + scast cnt)) ls)) (pack_out N cnt)"
  by (cases "pack_loop N (urange a (a + scast cnt)) ls"; cases "fst (pack_loop N (urange a (a + scast cnt)) ls)")
    (auto simp: inmem_pack_def abind_def pack_out_def Let_def)

lemma call_alone:
  assumes "call_range c a b"
  shows "alone N ls (call_pc c a b) = Some (call_fun N c a b ls)"
proof (cases c)
  case C_log_entries
  then show ?thesis using assms by (simp add: inmem_log_entries_def Let_def)
next
  case (C_log_entries_ext hint)
  then show ?thesis using assms by (cases "ext_loop N ls hint 0 (urange a b)") (simp_all add: inmem_log_entries_ext_def)
next
  case (C_pack cnt)
  then show ?thesis using assms by (simp add: fst_inmem_pack)
qed

lemma call_goes_on:
  assumes "alone N ls pc = Some r" "\<And>q. pc \<noteq> L_ret q" "\<And>i. i \<in> set (to_read pc) \<Longrightarrow> sm_find (logs ls) i \<noteq> None"
  shows "\<exists>p. lstep N A_quiet pc ls p ls"
proof (cases pc)
  case (L_entries iis es n)
  then show ?thesis by (cases iis; cases "find_or_dummy ls (hd iis)") (auto simp: lstep_entries)
next
  case (L_ext iis hint accum es)
  then show ?thesis by (cases iis; cases "find_or_dummy ls (hd iis)") (auto simp: lstep_ext)
next
  case (L_pack cnt iis bufs)
  show ?thesis
  proof (cases iis)
    case (Cons ii iis')
    then obtain p where "sm_find (logs ls) ii = Some p" using assms(3) L_pack by fastforce
    then show ?thesis using L_pack Cons by (cases p) (auto simp: lstep_pack)
  qed (use L_pack in \<open>auto simp: lstep_pack\<close>)
qed (use assms(1,2) in simp_all)

lemma range_reads_run:
  assumes "(sys_step N (\<lambda>u act ls. polite a b act ls \<and> (u = t \<longrightarrow> act \<noteq> A_return)))\<^sup>*\<^sup>* (ls, pcs) (ls', pcs')"
    and "holds_range a b ls" "alone N ls (pcs t) = Some r" "set (to_read (pcs t)) \<subseteq> {a ..< b}"
  shows "holds_range a b ls' \<and> same_at {a ..< b} ls ls' \<and> alone N ls' (pcs' t) = Some r \<and> set (to_read (pcs' t)) \<subseteq> {a ..< b}"
  using assms(1)
proof (induction rule: rtranclp_induct2)
  case refl
  have "same_at {a ..< b} ls ls" using holds_range_found [OF assms(2)] by (auto simp: same_at_def)
  then show ?case using assms(2-4) by blast
next
  case (step ls1 pcs1 ls2 pcs2)
  then obtain u act p where s: "lstep N act (pcs1 u) ls1 p ls2" "pcs2 = pcs1(u := p)" "polite a b act ls1" "u = t \<Longrightarrow> act \<noteq> A_return"
    by (auto elim: sys_step.cases)
  have k: "holds_range a b ls2" "same_at {a ..< b} ls1 ls2" using polite_step [OF s(1,3)] step.IH by simp_all
  have "alone N ls2 (pcs2 t) = Some r \<and> set (to_read (pcs2 t)) \<subseteq> {a ..< b}"
  proof (cases "u = t")
    case True
    then show ?thesis using own_step [of N act "pcs1 t" ls1 p ls2 r] s step.IH by auto
  next
    case False
    then show ?thesis using s(2) step.IH same_at_alone [OF k(2), of "pcs1 t" N] by simp
  qed
  then show ?case using k step.IH same_at_trans by blast
qed

text \<open>
  C23. Although \<open>log_entries\<close>, \<open>log_entries_ext\<close> and \<open>pack\<close> take the lock anew for every index, a call for a
  range of the log is atomic, whatever number of threads append, overwrite at or behind the end of the
  range, compact before its start, flush and read meanwhile: as long as it has not returned it can
  go on, and what it returns is what the whole call gives when it runs by itself on the store as it was
  when the call began, and likewise on the store at the end.
\<close>

theorem range_reads_atomic:
  assumes "holds_range a b ls" "call_range c a b" "pcs t = call_pc c a b"
    and "(sys_step N (\<lambda>u act ls. polite a b act ls \<and> (u = t \<longrightarrow> act \<noteq> A_return)))\<^sup>*\<^sup>* (ls, pcs) (ls', pcs')"
  shows "(\<exists>p. lstep N A_quiet (pcs' t) ls' p ls') \<or>
    pcs' t = L_ret (call_fun N c a b ls) \<and> call_fun N c a b ls' = call_fun N c a b ls"
proof -
  have start: "alone N ls (pcs t) = Some (call_fun N c a b ls)" unfolding assms(3) by (rule call_alone [OF assms(2)])
  have range: "set (to_read (pcs t)) \<subseteq> {a ..< b}" unfolding assms(3) by (cases c) simp_all
  have r: "holds_range a b ls'" "same_at {a ..< b} ls ls'" "alone N ls' (pcs' t) = Some (call_fun N c a b ls)"
      "set (to_read (pcs' t)) \<subseteq> {a ..< b}"
    using range_reads_run [OF assms(4,1) start range] by simp_all
  show ?thesis
  proof (cases "\<exists>q. pcs' t = L_ret q")
    case True
    have "call_fun N c a b ls' = call_fun N c a b ls"
      using same_at_alone [OF r(2) range, of N] call_alone [OF assms(2), of N ls'] assms(3) start by simp
    then show ?thesis using True r(3) by auto
  next
    case False
    then show ?thesis using call_goes_on [OF r(3)] holds_range_found [OF r(1)] r(4) by blast
  qed
qed

text \<open>A reader of the two entries of \<open>demo_log\<close>; after its first entry another thread appends a third one.\<close>

definition race_entry :: rentry where
  "race_entry = (5, ([9], 0), 1, 0, False, 0)"

definition grown_log :: "(rentry, bool) inmem_log_store" where
  "grown_log = snd (inmem_append ref_nuraft 0 race_entry demo_log)"

definition reader_at :: "(rbuf, rentry) lpc \<Rightarrow> (rbuf, rentry) lpc \<Rightarrow> nat \<Rightarrow> (rbuf, rentry) lpc" where
  "reader_at p q = (\<lambda>_. L_idle)(0 := p, 1 := q)"

lemma reader_at_simps [simp]:
  "reader_at p q 0 = p" "reader_at p q (Suc 0) = q" "(reader_at p q)(0 := p') = reader_at p' q" "(reader_at p q)(Suc 0 := q') = reader_at p q'"
  by (auto simp: reader_at_def)

lemma demo_find: "find_or_dummy demo_log 1 = Inr (3, ([7], 0), 1, 0, False, 0)"
    "find_or_dummy grown_log 2 = Inr (4, ([8], 0), 1, 0, False, 0)"
  by (simp_all add: find_or_dummy_def grown_log_def inmem_append_def demo_log_eq race_entry_def make_clone_def ref_nuraft_def
      demo_log_def inmem_new_def)

theorem range_reads_atomic_witness:
  "\<exists>es ls'. call_fun ref_nuraft C_log_entries 1 3 demo_log = R_ptrs es \<and> length es = 2 \<and> inmem_next_slot ls' = 4 \<and>
     (sys_step ref_nuraft (\<lambda>u act ls. polite 1 3 act ls \<and> (u = 0 \<longrightarrow> act \<noteq> A_return)))\<^sup>*\<^sup>*
       (demo_log, reader_at (call_pc C_log_entries 1 3) L_idle) (ls', reader_at (L_ret (R_ptrs es)) (L_ret (R_index 3)))"
proof -
  let ?P = "\<lambda>u act (ls :: (rentry, bool) inmem_log_store). polite 1 3 act ls \<and> (u = 0 \<longrightarrow> act \<noteq> A_return)"
  let ?S = "sys_step ref_nuraft ?P"
  have r: "urange 1 3 = [1, 2 :: u64]" by (simp add: urange_def upt_rec)
  define e1 e2 where "e1 = make_clone ref_nuraft (3, ([7], 0), 1, 0, False, 0)" and "e2 = make_clone ref_nuraft (4, ([8], 0), 1, 0, False, 0)"
  let ?es = "[Some e1, Some e2]"
  have app: "inmem_append ref_nuraft 0 race_entry demo_log = (3, grown_log)"
    using inmem_append_logs [of ref_nuraft 0 race_entry demo_log] demo_log_inv(2) by (metis grown_log_def prod.collapse fst_conv)
  let ?a = "reader_at (call_pc C_log_entries 1 3) L_idle" and ?b = "reader_at (L_entries [2] [e1] 2) L_idle"
  let ?c = "reader_at (L_entries [2] [e1] 2) (L_ret (R_index 3))" and ?d = "reader_at (L_entries [] [e1, e2] 2) (L_ret (R_index 3))"
  have s1: "?S (demo_log, ?a) (demo_log, ?b)"
    using entries_read [OF demo_find(1), where iis = "[2]" and es = "[]" and n = 2 and N = ref_nuraft]
    by (intro sys_stepI [where u = 0 and act = A_quiet and p = "L_entries [2] [e1] 2"]) (simp_all add: r e1_def)
  have s2: "?S (demo_log, ?b) (grown_log, ?c)"
    using append [OF app] demo_log_inv(2) by (intro sys_stepI [where u = 1 and act = "A_append race_entry" and p = "L_ret (R_index 3)"]) simp_all
  have s3: "?S (grown_log, ?c) (grown_log, ?d)"
    using entries_read [OF demo_find(2), where iis = "[]" and es = "[e1]" and n = 2 and N = ref_nuraft]
    by (intro sys_stepI [where u = 0 and act = A_quiet and p = "L_entries [] [e1, e2] 2"]) (simp_all add: e2_def)
  have s4: "?S (grown_log, ?d) (grown_log, reader_at (L_ret (R_ptrs ?es)) (L_ret (R_index 3)))"
    by (rule sys_stepI [where u = 0 and act = A_quiet and p = "L_ret (R_ptrs ?es)"]) (simp_all add: lstep_entries)
  have run: "?S\<^sup>*\<^sup>* (demo_log, reader_at (call_pc C_log_entries 1 3) L_idle) (grown_log, reader_at (L_ret (R_ptrs ?es)) (L_ret (R_index 3)))"
    using s1 s2 s3 s4 by (meson converse_rtranclp_into_rtranclp rtranclp.rtrancl_refl)
  have h: "holds_range 1 3 demo_log" using demo_log_inv by (simp add: holds_range_def demo_log_eq)
  have c: "call_range C_log_entries 1 3" by (simp add: vector_ptr_max_def)
  have "call_fun ref_nuraft C_log_entries 1 3 demo_log = R_ptrs ?es"
    using range_reads_atomic [OF h c _ run] by (auto simp: lstep_ret)
  moreover have "inmem_next_slot grown_log = 4"
    using inmem_append_logs [OF app] by (simp add: inmem_next_slot_def demo_log_eq)
  ultimately show ?thesis using run by (intro exI [of _ ?es] exI [of _ grown_log]) simp
qed

text \<open>
  \<open>last_entry\<close> is not atomic: a truncating \<open>write_at\<close> between its two critical sections leaves it with an
  index that is gone, and it returns the dummy entry with term 0, although the log was not empty.
\<close>

lemma last_entry_race:
  "\<exists>ls'. (sys_step ref_nuraft (\<lambda>_ _ _. True))\<^sup>*\<^sup>* (demo_log, reader_at L_idle L_idle)
       (ls', reader_at (L_ret (R_entry (make_clone ref_nuraft (0, (replicate 8 0, 0), 1, 0, False, 0)))) (L_ret R_done)) \<and>
     inmem_last_entry ref_nuraft demo_log = Inr (make_clone ref_nuraft (4, ([8], 0), 1, 0, False, 0)) \<and>
     inmem_last_entry ref_nuraft ls' = Inr (make_clone ref_nuraft race_entry)"
proof -
  let ?S = "sys_step ref_nuraft (\<lambda>_ _ _. True)" and ?w = "inmem_write_at ref_nuraft 0 1 race_entry demo_log"
  let ?e = "make_clone ref_nuraft (0, (replicate 8 0, 0), 1, 0, False, 0)"
  have w: "logs ?w = [(0, Some (0, (replicate 8 0, 0), 1, 0, False, 0)), (1, Some (make_clone ref_nuraft race_entry))]" "start_idx ?w = 1"
    by (simp_all add: inmem_write_at_logs demo_log_eq sm_cut_def)
  have "?S (demo_log, reader_at L_idle L_idle) (demo_log, reader_at (L_last 3) L_idle)"
    using call_last [of ref_nuraft demo_log] demo_log_inv(2)
    by (intro sys_stepI [where u = 0 and act = A_quiet and p = "L_last 3"]) simp_all
  moreover have "?S (demo_log, reader_at (L_last 3) L_idle) (?w, reader_at (L_last 3) (L_ret R_done))"
    using write_at [of ref_nuraft 1 race_entry demo_log 0]
    by (intro sys_stepI [where u = 1 and act = "A_write_at 1 race_entry" and p = "L_ret R_done"]) simp_all
  moreover have "?S (?w, reader_at (L_last 3) (L_ret R_done)) (?w, reader_at (L_ret (R_entry ?e)) (L_ret R_done))"
    using last_read [of ref_nuraft 3 ?w]
    by (intro sys_stepI [where u = 0 and act = A_quiet and p = "L_ret (R_entry ?e)"]) (simp_all add: find_or_dummy_def w)
  ultimately have "?S\<^sup>*\<^sup>* (demo_log, reader_at L_idle L_idle) (?w, reader_at (L_ret (R_entry ?e)) (L_ret R_done))"
    by (meson converse_rtranclp_into_rtranclp rtranclp.rtrancl_refl)
  moreover have "inmem_last_entry ref_nuraft demo_log = Inr (make_clone ref_nuraft (4, ([8], 0), 1, 0, False, 0))"
    by (simp add: inmem_last_entry_def demo_log_inv find_or_dummy_def demo_log_eq)
  moreover have "make_clone ref_nuraft (make_clone ref_nuraft race_entry) = make_clone ref_nuraft race_entry"
    by (simp add: race_entry_def make_clone_def ref_nuraft_def)
  then have "inmem_last_entry ref_nuraft ?w = Inr (make_clone ref_nuraft race_entry)"
    by (simp add: inmem_last_entry_def inmem_next_slot_def find_or_dummy_def w)
  ultimately show ?thesis by blast
qed

end
