(* ===== verification/Joining.thy ===== *)
theory Joining
  imports Session Spl_Server
begin

section \<open>From joining a cluster to being read by clients\<close>

text \<open>
  How a new server comes to be used: \<open>apps/spl_server.cpp\<close> builds it and asks a seed server to add it; the
  seed's handler hands the endpoints to Raft; Raft changes the membership; and a client that is
  constructed from the seed later learns the new server's endpoint, takes it apart and connects. Here
  these pieces of code run together over a network of hosts, each with one server that listens on its
  client port and on its join port.
\<close>

subsection \<open>The network\<close>

type_synonym ('db, 'snp, 'mgr, 'rf, 'dcfg, 'cfg) hosts = "string \<rightharpoonup> ('db, 'snp, 'mgr, 'rf, 'dcfg, 'cfg) server"

definition net_rpc :: "('b, 's, 'z) buffer_api_scheme \<Rightarrow> ('sc, 'cc, 'ss, 'cb) raft_conf_api \<Rightarrow>
    ('db, 'r, 'cfg) splinterdb_api \<Rightarrow>
    ('rf, 'rr, 'sc, 'b, ('db, 'snp) splinterdb_state_machine, 'mgr) raft_api \<Rightarrow>
    (string \<times> u16, ('db, 'snp, 'mgr, 'rf, 'dcfg, 'cfg) hosts) rpc_api" where
  "net_rpc N C D R = \<lparr>
     rpc_connect = (\<lambda>host port w.
       (case w host of
          None \<Rightarrow> Inl (Rpc_error ''host not found'')
        | Some s \<Rightarrow> if port = client_port s \<or> port = join_port s then Inr (host, port)
            else Inl (Rpc_error ''connection refused''), w)),
     rpc_call = (\<lambda>(host, port) req w.
       case w host of
         None \<Rightarrow> (Inl (Rpc_error ''connection lost''), w)
       | Some s \<Rightarrow>
           (case (if port = client_port s then client_dispatch N C D R req s
                  else if port = join_port s then join_dispatch C R req s
                  else (Inl (Rpc_error ''connection lost''), s)) of
              (r, s') \<Rightarrow> (r, w(host \<mapsto> s')))),
     rpc_set_timeout = (\<lambda>_ h. h)\<rparr>"

text \<open>
  What Raft promises of an accepted request to add a server: once the change of the membership has been
  carried out (\<open>settled\<close>), the new server is a member beside the old ones.
\<close>

definition join_laws :: "('sc, 'cc, 'ss, 'cb) raft_conf_api \<Rightarrow> ('rf, 'rr, 'sc, 'b, 'sm, 'mgr) raft_api \<Rightarrow>
    ('rf \<Rightarrow> 'rf \<Rightarrow> bool) \<Rightarrow> bool" where
  "join_laws C R settled \<longleftrightarrow>
     (\<forall>sc rf ret rf1 rf2. add_srv R sc rf = (Some ret, rf1) \<and> get_result_code R ret = 0 \<and> settled rf1 rf2 \<longrightarrow>
        map (sc_view C) (get_srv_config_all R rf2) = map (sc_view C) (get_srv_config_all R rf) @ [sc_view C sc])"

definition members :: "('sc, 'cc, 'ss, 'cb) raft_conf_api \<Rightarrow> ('rf, 'rr, 'sc, 'b, 'sm, 'mgr) raft_api \<Rightarrow> 'rf \<Rightarrow> (int \<times> string) list" where
  "members C R rf = map (\<lambda>(i, ep, aux). (i, aux)) (map (sc_view C) (get_srv_config_all R rf))"

text \<open>The port of an endpoint, as \<open>client\<close> and \<open>try_join_cluster\<close> compute it.\<close>

definition endpoint_port :: "string \<Rightarrow> u16 res" where
  "endpoint_port ep = rbind (stoi (snd (split_endpoint ep))) (checked_port (fst (split_endpoint ep)))"

lemma endpoint_port_print:
  assumes "CHR '':'' \<notin> set host" "p \<noteq> 0"
  shows "split_endpoint (host @ '':'' @ show_nat (unat p)) = (host, show_nat (unat p))"
    "endpoint_port (host @ '':'' @ show_nat (unat p)) = Inr p"
  using endpoint_roundtrip [OF assms] by (auto simp: endpoint_port_def split_endpoint_print [OF assms(1)])

subsection \<open>A client constructed from a server\<close>

lemma net_introduce:
  assumes "w host = Some s"
  shows "introduce (net_rpc N C D R) (host, client_port s) w = (Inr (members C R (raft_of s), rf_get_leader R (raft_of s)), w)"
proof -
  have "w(host \<mapsto> s) = w" using assms by (simp add: fun_upd_idem)
  then show ?thesis
    using assms by (simp add: introduce_def call_as_def net_rpc_def abind_def client_dispatch_def handle_ping_def
        handle_get_all_servers_def handle_get_leader_id_def rp_get_all_servers_def get_leader_def members_def sc_view_def comp_def)
qed

text \<open>The loop over the members connects to every one that can be reached.\<close>

lemma net_connect_all:
  assumes "\<forall>m \<in> set srvs. \<exists>p. endpoint_port (snd m) = Inr p" "distinct (map fst srvs)" "sm_ok cs"
  shows "\<exists>cs'. connect_all (net_rpc N C D R) srvs cs w = (Inr cs', w) \<and> sm_ok cs' \<and>
    (\<forall>i h. sm_find cs i = Some h \<longrightarrow> sm_find cs' i = Some h) \<and>
    (\<forall>i ep p s. (i, ep) \<in> set srvs \<and> sm_find cs i = None \<and> endpoint_port ep = Inr p \<and>
       w (fst (split_endpoint ep)) = Some s \<and> p = client_port s \<longrightarrow> sm_find cs' i = Some (fst (split_endpoint ep), p))"
  using assms
proof (induction srvs arbitrary: cs)
  case Nil
  then show ?case by simp
next
  case (Cons m srvs)
  obtain i0 ep0 where m: "m = (i0, ep0)" by force
  obtain p0 where p0: "endpoint_port ep0 = Inr p0" using Cons.prems(1) by (auto simp: m)
  let ?h0 = "fst (split_endpoint ep0)"
  obtain r where r: "rpc_connect (net_rpc N C D R) ?h0 p0 w = (r, w)" by (simp add: net_rpc_def)
  let ?cs = "case r of Inl e \<Rightarrow> cs | Inr h \<Rightarrow> (case sm_find cs i0 of None \<Rightarrow> sm_put i0 h cs | Some _ \<Rightarrow> cs)"
  have std: "std_exception e" if "r = Inl e" for e
    using r that by (auto simp: net_rpc_def split: option.splits if_splits)
  then have step: "connect_all (net_rpc N C D R) (m # srvs) cs w = connect_all (net_rpc N C D R) srvs ?cs w"
    using p0 r by (auto simp: m endpoint_port_def Let_def split: sum.splits)
  have ok: "sm_ok ?cs" using Cons.prems(3) by (auto split: sum.split option.split)
  have at0: "r = Inr (?h0, p0)" if "w ?h0 = Some s" "p0 = client_port s" for s
    using r that by (simp add: net_rpc_def)
  have keep: "sm_find cs i = Some h \<Longrightarrow> sm_find ?cs i = Some h" "i \<noteq> i0 \<Longrightarrow> sm_find ?cs i = sm_find cs i" for i h
    by (auto split: sum.split option.split)
  have d: "distinct (map fst srvs)" "i0 \<notin> fst ` set srvs" "\<forall>m \<in> set srvs. \<exists>p. endpoint_port (snd m) = Inr p"
    using Cons.prems(1,2) by (auto simp: m)
  obtain cs' where c: "connect_all (net_rpc N C D R) srvs ?cs w = (Inr cs', w)" "sm_ok cs'"
      "\<And>i h. sm_find ?cs i = Some h \<Longrightarrow> sm_find cs' i = Some h"
      "\<And>i ep p s. (i, ep) \<in> set srvs \<Longrightarrow> sm_find ?cs i = None \<Longrightarrow> endpoint_port ep = Inr p \<Longrightarrow>
         w (fst (split_endpoint ep)) = Some s \<Longrightarrow> p = client_port s \<Longrightarrow> sm_find cs' i = Some (fst (split_endpoint ep), p)"
    using Cons.IH [OF d(3,1) ok] by blast
  have "sm_find cs' i = Some (fst (split_endpoint ep), p)"
    if a: "(i, ep) \<in> set (m # srvs)" "sm_find cs i = None" "endpoint_port ep = Inr p" "w (fst (split_endpoint ep)) = Some s" "p = client_port s"
    for i ep p s
  proof (cases "i = i0")
    case True
    then have e: "ep = ep0" "p = p0" using a(1,3) d(2) p0 by (force simp: m)+
    have "sm_find ?cs i0 = Some (?h0, p0)" using at0 a(2,4,5) e True by simp
    then show ?thesis using c(3) e True by simp
  next
    case False
    then show ?thesis using c(4) [of i ep p s] a keep(2) [of i] by (auto simp: m)
  qed
  then show ?case unfolding step using c(1,2,3) keep(1) by blast
qed

subsection \<open>Joining through a seed\<close>

lemma set_raft_fields [simp]:
  "client_port (set_raft rf s) = client_port s" "join_port (set_raft rf s) = join_port s" "raft_of (set_raft rf s) = rf"
  "set_raft rf (set_raft rf' s) = set_raft rf s"
  by (simp_all add: set_raft_def)

lemma net_join:
  assumes "call_as (net_rpc N C D R) (host, join_port sd) (Join_replica_group i ep aux) as_joined w = (Inr (0, msg), w')"
    and "w host = Some sd" "join_port sd \<noteq> client_port sd"
  obtains ret rf where "add_srv R (srv_config_new C i 0 ep aux False) (raft_of sd) = (Some ret, rf)"
    "get_result_code R ret = 0" "w' = w(host \<mapsto> set_raft rf sd)"
proof (cases "add_srv R (srv_config_new C i 0 ep aux False) (raft_of sd)")
  case (Pair r rf)
  then show ?thesis
    using assms that
    by (cases r) (auto simp: call_as_def net_rpc_def abind_def join_dispatch_def handle_join_def replica_add_server_def
        set_raft_def rbind_def deref_def)
qed

lemma client_new_connects:
  assumes "w host = Some s" "\<forall>m \<in> set (members C R (raft_of s)). \<exists>p. endpoint_port (snd m) = Inr p"
    and "distinct (map fst (members C R (raft_of s)))"
    and "(i, ep) \<in> set (members C R (raft_of s))" "endpoint_port ep = Inr p" "w (fst (split_endpoint ep)) = Some t" "p = client_port t"
  shows "\<exists>cl. client_new (net_rpc N C D R) host (client_port s) timeout retries w = (Inr cl, w) \<and>
    sm_find (clients cl) i = Some (fst (split_endpoint ep), p) \<and> i \<in> set (rd_policy cl)"
proof -
  have connect: "rpc_connect (net_rpc N C D R) host (client_port s) w = (Inr (host, client_port s), w)"
    using assms(1) by (simp add: net_rpc_def)
  have st: "rpc_set_timeout (net_rpc N C D R) timeout = (\<lambda>h. h)" by (simp add: net_rpc_def)
  obtain cs where cs: "connect_all (net_rpc N C D R) (members C R (raft_of s)) [] w = (Inr cs, w)"
      "sm_find cs i = Some (fst (split_endpoint ep), p)"
    using net_connect_all [OF assms(2,3), of "[]" N C D R w] assms(4-7) by auto
  then have "i \<in> fst ` set cs" by (metis domI dom_sm_find)
  then show ?thesis
    using cs by (simp add: client_new_def connect net_introduce [of w host s, OF assms(1)] st Let_def comp_def case_prod_beta image_def)
qed

text \<open>
  C24. A server that joins is served: when \<open>spl_server\<close> has got to run with a seed, then the seed was asked
  over its join port and handed the new server to Raft, and once Raft has carried out that change, a
  client constructed from the seed has a connection to the new server, at the port it listens on, under
  the id of its flag, and takes it into its round of reads. The other servers may be reachable or not; the
  seed's host may be any other host.
\<close>

theorem joined_server_served:
  fixes R :: "('rf, 'rr, 'sc, 'b, ('db, 'snp) splinterdb_state_machine, ('sc, 'cc, 'ss, 'e, 'ea) inmem_state_mgr) raft_api"
    and w :: "('db, 'snp, ('sc, 'cc, 'ss, 'e, 'ea) inmem_state_mgr, 'rf, 'dcfg, 'cfg) hosts"
  assumes laws: "conf_laws C" "join_laws C R settled" and valid: "flags_valid fl"
    and seed: "w host = Some sd" "FLAGS_seed fl = host @ '':'' @ show_nat (unat (join_port sd))" "CHR '':'' \<notin> set host"
      "join_port sd \<noteq> 0" "join_port sd \<noteq> client_port sd"
    and old: "\<forall>m \<in> set (members C R (raft_of sd)). \<exists>p. endpoint_port (snd m) = Inr p"
      "distinct (map fst (members C R (raft_of sd)))" "FLAGS_serverid fl \<notin> fst ` set (members C R (raft_of sd))"
    and new: "w hostname = None" "CHR '':'' \<notin> set hostname"
    and run: "spl_server_main N C D R ea (net_rpc N C D R) wd md mc hostname fl w = (Inr (Inr (s, nthreads)), w')"
    and carried: "settled (raft_of (the (w' host))) rf"
  shows "\<exists>cl. client_new (net_rpc N C D R) host (client_port sd) timeout retries
        (w'(host \<mapsto> set_raft rf (the (w' host)), hostname \<mapsto> s)) =
        (Inr cl, w'(host \<mapsto> set_raft rf (the (w' host)), hostname \<mapsto> s)) \<and>
      sm_find (clients cl) (FLAGS_serverid fl) = Some (hostname, client_port s) \<and>
      FLAGS_serverid fl \<in> set (rd_policy cl)"
proof -
  let ?ep = "hostname @ '':'' @ show_nat (nat (FLAGS_raftport fl))"
  let ?cep = "hostname @ '':'' @ show_nat (nat (FLAGS_clientport fl))"
  obtain rp where s: "s = \<lparr>replica_instance = rp, client_port = word_of_int (FLAGS_clientport fl), join_port = word_of_int (FLAGS_joinport fl)\<rparr>"
    and join: "try_join_cluster (net_rpc N C D R) (FLAGS_seed fl) (flags_config wd md mc hostname fl) w = (Inr (), w')"
    using spl_server_mainE [OF run] seed(2) by auto
  have sp: "split_endpoint (FLAGS_seed fl) = (host, show_nat (unat (join_port sd)))"
    "rbind (stoi (snd (split_endpoint (FLAGS_seed fl)))) (checked_port (fst (split_endpoint (FLAGS_seed fl)))) = Inr (join_port sd)"
    using endpoint_port_print [OF seed(3,4)] unfolding seed(2) endpoint_port_def by simp_all
  obtain h w1 msg where h: "rpc_connect (net_rpc N C D R) host (join_port sd) w = (Inr h, w1)"
      "call_as (net_rpc N C D R) h (Join_replica_group (FLAGS_serverid fl) ?ep ?cep) as_joined w1 = (Inr (0, msg), w')"
    using try_join_clusterE [OF join valid] sp by (metis fst_conv sum.inject(2))
  then have "call_as (net_rpc N C D R) (host, join_port sd) (Join_replica_group (FLAGS_serverid fl) ?ep ?cep) as_joined w = (Inr (0, msg), w')"
    using seed(1) by (simp add: net_rpc_def)
  then obtain ret rf1 where add: "add_srv R (srv_config_new C (FLAGS_serverid fl) 0 ?ep ?cep False) (raft_of sd) = (Some ret, rf1)"
      "get_result_code R ret = 0" and w': "w' = w(host \<mapsto> set_raft rf1 sd)"
    by (rule net_join [where w = w and host = host, OF _ seed(1,5)])
  have "settled rf1 rf" using carried by (simp add: w')
  then have mem: "members C R rf = members C R (raft_of sd) @ [(FLAGS_serverid fl, ?cep)]"
    using laws add by (auto simp: join_laws_def conf_laws_def members_def)
  have port: "client_port s \<noteq> 0" "nat (FLAGS_clientport fl) = unat (client_port s)"
    using valid_flag_ports(1,2) [OF valid] by (auto simp: s unat_eq_0 [symmetric])
  have ep: "split_endpoint ?cep = (hostname, show_nat (unat (client_port s)))" "endpoint_port ?cep = Inr (client_port s)"
    using endpoint_port_print [OF new(2) port(1)] unfolding port(2) by blast+
  define w2 where "w2 = w'(host \<mapsto> set_raft rf (the (w' host)), hostname \<mapsto> s)"
  have "host \<noteq> hostname" using seed(1) new(1) by auto
  then have at: "w2 host = Some (set_raft rf sd)" "w2 hostname = Some s" by (simp_all add: w2_def w')
  show ?thesis
    using client_new_connects [where w = w2 and host = host and s = "set_raft rf sd" and i = "FLAGS_serverid fl" and ep = ?cep
        and p = "client_port s" and t = s and C = C and R = R] old at ep
    unfolding w2_def [symmetric] by (auto simp: mem)
qed

subsection \<open>Two hosts\<close>

text \<open>A concrete Raft server that also keeps the members, those of its state manager at first.\<close>

type_synonym graft = "rraft \<times> rsc list"

definition grow_raft :: "(graft, rresult, rsc, rbuf, rsm, rmgr) raft_api" where
  "grow_raft = \<lparr>
     raft_params_new = raft_params_new ref_raft,
     launcher_init = (\<lambda>_ mgr _ _ _. Some ((True, 1, []), load_config mgr)), launcher_shutdown = (\<lambda>_ rf. rf),
     is_initialized = (\<lambda>_ j. 2 \<le> j),
     append_entries = (\<lambda>bs ((rf, ms), sm). case ref_append bs (rf, sm) of (r, rf, sm) \<Rightarrow> (r, ((rf, ms), sm))),
     add_srv = (\<lambda>sc (rf, ms). (Some (True, 0, ''Ok'', None), (rf, ms @ [sc]))),
     rf_get_leader = (\<lambda>((_, l, _), _). l), get_srv_config = (\<lambda>(_, ms) i. find (\<lambda>m. fst m = i) ms),
     get_srv_config_all = snd,
     get_accepted = fst, get_result_code = (\<lambda>r. fst (snd r)), get_result_str = (\<lambda>r. fst (snd (snd r))),
     has_result = (\<lambda>r. snd (snd (snd r)) \<noteq> None), rr_get = (\<lambda>r. snd (snd (snd r)))\<rparr>"

abbreviation (input) grow_net where
  "grow_net \<equiv> net_rpc ref_nuraft ref_conf ref_splinterdb grow_raft"

abbreviation (input) grow_main where
  "grow_main \<equiv> spl_server_main ref_nuraft ref_conf ref_splinterdb grow_raft False grow_net (\<lambda>_ _. ()) (\<lambda>_. ()) (\<lambda>_ _ _ _. ())"

lemma grow_join_laws: "join_laws ref_conf grow_raft (=)"
  by (auto simp: join_laws_def grow_raft_def)

lemma grow_net_join:
  assumes "w host = Some sd" "join_port sd \<noteq> client_port sd"
  shows "rpc_connect grow_net host (join_port sd) w = (Inr (host, join_port sd), w)"
    "call_as grow_net (host, join_port sd) (Join_replica_group i ep aux) as_joined w =
       (Inr (0, ''Ok''), w(host \<mapsto> set_raft (fst (raft_of sd), snd (raft_of sd) @ [(i, ep, aux)]) sd))"
  using assms
  by (simp_all add: net_rpc_def call_as_def abind_def join_dispatch_def handle_join_def replica_add_server_def
      grow_raft_def ref_conf_def set_raft_def case_prod_beta)

lemma grow_replica_new:
  assumes "1 \<le> FLAGS_serverid fl"
  shows "\<exists>rp :: (rdb, unit, rmgr, graft, unit, unit) replica.
    replica_new ref_nuraft ref_conf ref_splinterdb grow_raft False (flags_config (\<lambda>_ _. ()) (\<lambda>_. ()) (\<lambda>_ _ _ _. ()) host fl) = Inr rp \<and>
    snd (rp_raft_instance rp) = [(FLAGS_serverid fl, host @ '':'' @ show_nat (unat (word_of_int (FLAGS_raftport fl) :: u16)),
       host @ '':'' @ show_nat (unat (word_of_int (FLAGS_clientport fl) :: u16)))]"
proof -
  let ?cfg = "flags_config (\<lambda>_ _. ()) (\<lambda>_. ()) (\<lambda>_ _ _ _. ()) host fl"
  have l: "launcher_init grow_raft sm mgr p n q = Some ((True, 1, []), load_config mgr)" for sm mgr p n q by (simp add: grow_raft_def)
  have "is_initialized grow_raft rf 2" "2 < unat (cfg_initialization_retries ?cfg)" for rf
    by (simp_all add: grow_raft_def flags_config_def Let_def replica_config_new_def)
  then have i: "replica_initialize grow_raft ?cfg sm mgr p = Inr ((True, 1, []), load_config mgr)" for sm mgr p
    unfolding replica_initialize_ready l by blast
  have c: "splinterdb_create ref_splinterdb x = (0, [])" for x by (simp add: ref_splinterdb_def)
  show ?thesis
    using assms by (simp add: replica_new_def Let_def state_machine_new_def c i state_mgr_new_def load_config_def ref_conf_def)
qed

text \<open>
  The first server starts without a seed on the host \<open>seed\<close>, the second on the host \<open>new\<close> joins through it,
  and a client that is given the first one's address is connected to the second.
\<close>

theorem joined_server_served_witness:
  "\<exists>sd s w' cl. grow_main ''seed'' (default_flags\<lparr>FLAGS_serverid := 1\<rparr>) Map.empty = (Inr (Inr (sd, 4)), Map.empty) \<and>
     grow_main ''new'' (default_flags\<lparr>FLAGS_serverid := 2, FLAGS_seed := ''seed:10002''\<rparr>) [''seed'' \<mapsto> sd] = (Inr (Inr (s, 4)), w') \<and>
     client_new grow_net ''seed'' 10003 10000 3 (w'(''new'' \<mapsto> s)) = (Inr cl, w'(''new'' \<mapsto> s)) \<and>
     sm_find (clients cl) 2 = Some (''new'', 10003)"
proof -
  let ?f1 = "default_flags\<lparr>FLAGS_serverid := 1\<rparr>"
  let ?f2 = "default_flags\<lparr>FLAGS_serverid := 2, FLAGS_seed := ''seed:10002''\<rparr>"
  have f: "FLAGS_serverid ?f1 = 1" "FLAGS_serverid ?f2 = 2" "FLAGS_seed ?f2 = ''seed:10002''" "FLAGS_seed ?f1 = []"
    "FLAGS_clientport ?f1 = 10003" "FLAGS_clientport ?f2 = 10003" "FLAGS_joinport ?f1 = 10002" "FLAGS_joinport ?f2 = 10002"
    "FLAGS_nthreads ?f1 = 4" "FLAGS_nthreads ?f2 = 4" "FLAGS_raftport ?f1 = 10001"
    by (simp_all add: default_flags_def)
  have char: "char_of (48 :: nat) = CHR ''0''" "char_of (49 :: nat) = CHR ''1''" "char_of (50 :: nat) = CHR ''2''" "char_of (51 :: nat) = CHR ''3''"
    by code_simp+
  have digits: "show_nat 10001 = ''10001''" "show_nat 10002 = ''10002''" "show_nat 10003 = ''10003''" by (simp_all add: show_nat.simps char)
  have valid: "flags_valid ?f2" using default_flags_valid by (simp add: flags_valid_def)
  obtain r1 :: "(rdb, unit, rmgr, graft, unit, unit) replica" where
    r1: "replica_new ref_nuraft ref_conf ref_splinterdb grow_raft False (flags_config (\<lambda>_ _. ()) (\<lambda>_. ()) (\<lambda>_ _ _ _. ()) ''seed'' ?f1) = Inr r1"
      "snd (rp_raft_instance r1) = [(1, ''seed:10001'', ''seed:10003'')]"
    using grow_replica_new [of ?f1 "''seed''"] by (auto simp: f digits)
  obtain r2 :: "(rdb, unit, rmgr, graft, unit, unit) replica" where
    r2: "replica_new ref_nuraft ref_conf ref_splinterdb grow_raft False (flags_config (\<lambda>_ _. ()) (\<lambda>_. ()) (\<lambda>_ _ _ _. ()) ''new'' ?f2) = Inr r2"
    using grow_replica_new [of ?f2 "''new''"] by (auto simp: f)
  define sd where "sd = \<lparr>replica_instance = r1, client_port = 10003, join_port = 10002\<rparr>"
  define s where "s = \<lparr>replica_instance = r2, client_port = 10003, join_port = 10002\<rparr>"
  have m1: "grow_main ''seed'' ?f1 Map.empty = (Inr (Inr (sd, 4)), Map.empty)"
    unfolding spl_server_main_def server_new_def Let_def f r1(1) by (simp add: sd_def)
  have ep: "rbind (stoi (snd (split_endpoint ''seed:10002''))) (checked_port ''seed'') = Inr 10002"
    "fst (split_endpoint ''seed:10002'') = ''seed''" "endpoint_port ''seed:10003'' = Inr 10003"
    using endpoint_port_print [of "''seed''" "10002"] endpoint_port_print [of "''seed''" "10003"] by (simp_all add: endpoint_port_def digits)
  have sd: "client_port sd = 10003" "join_port sd = 10002" by (simp_all add: sd_def)
  have join: "rpc_connect grow_net ''seed'' 10002 [''seed'' \<mapsto> sd] = (Inr (''seed'', 10002), [''seed'' \<mapsto> sd])"
    "call_as grow_net (''seed'', 10002) (Join_replica_group i ep aux) as_joined [''seed'' \<mapsto> sd] =
       (Inr (0, ''Ok''), [''seed'' \<mapsto> set_raft (fst (raft_of sd), snd (raft_of sd) @ [(i, ep, aux)]) sd])" for i ep aux
    using grow_net_join [of "[''seed'' \<mapsto> sd]" "''seed''" sd] by (simp_all add: sd)
  have "\<exists>w'. try_join_cluster grow_net ''seed:10002'' (flags_config (\<lambda>_ _. ()) (\<lambda>_. ()) (\<lambda>_ _ _ _. ()) ''new'' ?f2) [''seed'' \<mapsto> sd] = (Inr (), w')
      \<and> w' ''seed'' \<noteq> None"
    by (simp add: try_join_cluster_def Let_def ep join abind_def)
  then obtain w' sd' where w': "try_join_cluster grow_net ''seed:10002'' (flags_config (\<lambda>_ _. ()) (\<lambda>_. ()) (\<lambda>_ _ _ _. ()) ''new'' ?f2)
      [''seed'' \<mapsto> sd] = (Inr (), w')" "w' ''seed'' = Some sd'" by auto
  have m2: "grow_main ''new'' ?f2 [''seed'' \<mapsto> sd] = (Inr (Inr (s, 4)), w')"
    unfolding spl_server_main_def server_new_def Let_def f r2 using w'(1) by (simp add: s_def abind_def)
  have mem: "members ref_conf grow_raft (raft_of sd) = [(1, ''seed:10003'')]"
    using r1(2) by (simp add: members_def sd_def grow_raft_def ref_conf_def sc_view_def)
  have at: "w'(''seed'' \<mapsto> set_raft (raft_of (the (w' ''seed''))) (the (w' ''seed'')), ''new'' \<mapsto> s) = w'(''new'' \<mapsto> s)"
    using w'(2) by (simp add: set_raft_def fun_upd_idem)
  have "\<exists>cl. client_new grow_net ''seed'' (client_port sd) 10000 3 (w'(''new'' \<mapsto> s)) = (Inr cl, w'(''new'' \<mapsto> s)) \<and>
      sm_find (clients cl) (FLAGS_serverid ?f2) = Some (''new'', client_port s) \<and> FLAGS_serverid ?f2 \<in> set (rd_policy cl)"
    using joined_server_served [OF ref_conf_laws grow_join_laws valid, where w = "[''seed'' \<mapsto> sd]" and host = "''seed''" and sd = sd
      and hostname = "''new''" and s = s and w' = w' and rf = "raft_of (the (w' ''seed''))" and timeout = 10000 and retries = 3, OF _ _ _ _ _ _ _ _ _ _ m2]
    unfolding at mem by (simp add: f ep digits) (simp add: sd_def digits)
  then show ?thesis using m1 m2 by (auto simp: f sd_def s_def)
qed

end
