(* ===== verification/Spec2Isabelle.thy ===== *)
theory Spec2Isabelle
  imports Rpc_Typing Spl_Client Spl_Server Spl_Demo Splinterdb_Log_Store Raft_Logger Logger_Alone Logger_Timed Logger_Shutdown
    Logger_Windows Backtrace_Other Inmem_Steps Joining
begin

text \<open>
  \<^bold>\<open>A verification library for the replicated SplinterDB.\<close>

  The program is a key-value store replicated by Raft. A client (\<open>src/client/client.cpp\<close>, used by
  \<open>apps/spl_client.cpp\<close>) calls the servers of a cluster over rpclib. A server
  (\<open>src/server/server.cpp\<close>, started by \<open>apps/spl_server.cpp\<close>) answers reads from the SplinterDB
  instance of its replica and turns a mutation into an operation
  (\<open>src/server/splinterdb_operation.cpp\<close>), which the replica (\<open>src/server/replica.cpp\<close>) serializes and
  appends to the Raft log. NuRaft keeps the log in a log store
  (\<open>src/server/in_memory_log_store.cpp\<close>; \<open>src/server/splinterdb_log_store.cpp\<close> is an alternative
  that the build does not select) and its vote and configuration in the state manager
  (\<open>src/server/in_memory_state_mgr.hxx\<close>), and hands every committed entry to the state machine
  (\<open>src/server/splinterdb_state_machine.cpp\<close>), which applies the operation to SplinterDB and returns
  the store's code through Raft to the server and the client.

  \<^bold>\<open>Parameters.\<close> NuRaft, SplinterDB, rpclib and gflags are git submodules and not part of the
  repository. They are records of functions over opaque types (\<open>nuraft\<close>, \<open>raft_conf_api\<close>,
  \<open>raft_api\<close>, \<open>splinterdb_api\<close>, \<open>rpc_api\<close>, \<open>flags\<close>). What the code relies on of them is stated as
  named predicates: \<open>buffer_laws\<close>, \<open>serializer_laws\<close>, \<open>log_entry_laws\<close> (buffers are bytes with a
  cursor, log entries survive serialization), \<open>conf_laws\<close>, \<open>kv_laws\<close> and \<open>never_fails\<close> (the store
  is a map; its calls do not fail), \<open>leader_commits\<close> (in blocking mode the Raft server of a leader
  returns after the commit, with its result), \<open>raft_laws\<close> (the leader goes on
  leading and has added the entry to its log; an elected server leads with its log; the others name
  their leader and reject an append). They are hypotheses of the theorems that need them;
  each has a concrete instance (\<open>ref_nuraft\<close>, \<open>ref_conf\<close>, \<open>ref_splinterdb\<close>, \<open>ref_raft\<close>,
  \<open>two_servers\<close>), on which the witnesses run.

  \<^bold>\<open>Conventions.\<close> \<open>uint64_t\<close>, \<open>uint16_t\<close> and bytes are words of their width; return codes of
  SplinterDB are 32-bit words read by \<open>sint\<close>; server ids and Raft codes are \<open>int\<close>; a shared pointer
  is an \<open>option\<close>; an exception, \<open>exit\<close>, a null dereference and \<open>front()\<close> of an empty queue are the
  values of \<open>exn\<close>. A member function that changes its object has the type \<open>('s, 'a) act\<close>: the state
  survives an exception. The build type is \<open>Release\<close>, so \<open>assert\<close> is nothing.

  \<^bold>\<open>Theories, in the order of the code.\<close>
  \<^item> \<open>Prelude\<close>: machine types, \<open>exn\<close>, sequencing, loops over \<open>uint64_t\<close> ranges, byte images.
    \<open>Std_Map\<close>: \<open>std::map\<close> as a sorted list, with the locale \<open>ordered_map\<close>. \<open>Std_String\<close>:
    \<open>to_string\<close>, \<open>stoi\<close>, endpoints and their round trip.
  \<^item> \<open>Nuraft_Api\<close>, \<open>Raft_Api\<close>, \<open>Splinterdb_Api\<close>: the parameters, their laws, the instances.
  \<^item> \<open>Owned_Slice\<close> and \<open>Operation\<close>: byte strings and log commands with their wire form; the locale
    \<open>stream_codec\<close> gives the round trip and the rejection of truncated input once, interpreted for
    both.
  \<^item> \<open>State_Machine\<close>: \<open>commit\<close> refines the update of a key-value map, throws without effect, and
    keeps replicas that commit the same log in agreement; the snapshot functions throw, as in the
    code.
  \<^item> \<open>Log_Store\<close>: the contract of a log store as a locale over its observations.
    \<open>Inmem_Log_Store\<close> implements it (the interpretation \<open>inmem\<close>): the invariant of the map and of
    the computed next slot in every reachable state, reads of ranges and of batches, packs, compaction
    and its termination, the emulated disk. \<open>Inmem_Steps\<close>: the same store under threads, with every
    critical section of its mutex as one step; reads of a range that other threads leave alone are
    atomic, and \<open>last_entry\<close>, which takes the mutex twice, is not. \<open>Splinterdb_Log_Store\<close>: the other store, with the
    theorems that show its \<open>append\<close> and \<open>write_at\<close> one index off; it therefore does not interpret
    the locale.
  \<^item> \<open>State_Mgr\<close>: the kept vote and configuration (locale \<open>keeper\<close>, interpreted twice).
  \<^item> \<open>Replica\<close> and \<open>Server\<close>: configuration, start-up with its bounded wait, reads, appends, the
    handlers, and what the mutating handlers and a read do on a leader.
  \<^item> \<open>Rpc\<close>, \<open>Read_Policy\<close> (locale \<open>read_policy\<close>, the round robin), \<open>Client\<close>: connections, reads in
    turn, retries, change of leader.
  \<^item> \<open>Session\<close>: client and servers together. The specification is one list of operations of which
    every server has applied a prefix; the locale \<open>event_simulation\<close>, interpreted on the code's
    events, gives that every sequence of client commands, of commits on the servers and of changes of
    the leader is answered as specified, also by a client that still remembers an old leader, and that
    a server on which enough entries are committed has the leader's map. \<open>Rpc_Typing\<close>: rpclib converts
    a response only when it is read; every handler returns the type that the callers ask for (locale
    \<open>typed_rpc\<close>, interpreted on the cluster), so no client operation ends in a failed conversion.
  \<^item> \<open>Spl_Client\<close> and \<open>Spl_Server\<close>: the two programs. \<open>Joining\<close>: a server program, the seed server it
    joins through and a later client on one network; what Raft does between is \<open>join_laws\<close>. \<open>Spl_Demo\<close>: the example program
    \<open>apps/splinterdb.cpp\<close> and the text that it prints.
  \<^item> \<open>Ieee_Double\<close> and \<open>Timer\<close>: the 64-bit floating point numbers (values as rationals, rounding to
    nearest even, conversion to \<open>uint64_t\<close>) and \<open>timer.h\<close> on them: when a timer fires, how far its
    readings and the printed durations are from the elapsed time.
  \<^item> \<open>Logger_Format\<close>, \<open>Logger\<close>, \<open>Logger_Ring\<close>, \<open>Logger_Files\<close>, \<open>Logger_Steps\<close>, \<open>Raft_Logger\<close>,
    \<open>Backtrace\<close>, \<open>Logger_Crash\<close>: the logger that NuRaft writes to (\<open>src/server/logger.cpp\<close>, \<open>logger.h\<close>, \<open>backtrace.h\<close>). The text of a message in its array of
    4096 bytes; \<open>SimpleLogger\<close> with its ring of slots, its file, the revisions of the file, their
    compression, start and stop, over a directory, a console and the manager; the ring as a queue,
    which loses no line and keeps their order when calls do not overlap; the restart on an existing
    directory and the retention of archives; the ring under any number of threads as an inductive
    step relation, with mutual exclusion on slots, conservation of lines and progress; what the
    replica makes of the ring's size; the text of a stack trace within its buffer; and the crash
    path, which loses no line of the log and writes the dump file (the locale \<open>line_log\<close> of
    \<open>Logger_Ring\<close> is interpreted for a logger and for the manager's messages). \<open>Logger_Alone\<close> relates
    the two views of the ring: the steps of one thread alone are the functions. \<open>Logger_Workers\<close>,
    \<open>Logger_Jobs\<close> and \<open>Logger_Shutdown\<close>: the loops of the manager's threads, the time limit of a dump,
    the queue of files to compress and the counter that \<open>stop\<close> waits for, and the destructor that ends
    the threads, as a step relation with a bound on the steps that are left. \<open>Logger_Timed\<close>: the macros for messages at
    intervals, on the clock of \<open>Timer\<close>. \<open>Backtrace_Other\<close>: stack traces on macOS and elsewhere. \<open>Logger_Windows\<close>: the
    search for old log files on Windows.
  \<^item> this theory: properties across components, namely that a log shipped as a pack and committed
    leads another replica to the same map, and that a published endpoint is understood by clients.

  \<^bold>\<open>Loops and termination.\<close> All loops are structural recursion or have a termination proof, but
  three: the one of \<open>compact\<close>, whose 64-bit guard can hold forever, the one of \<open>replaceString\<close>,
  which does not end for an empty pattern, and the walk of the example program through an iterator of
  the store. They are \<open>partial_function (option)\<close>; that \<open>compact\<close>
  returns for every index but the largest is a theorem, and so are that the path of a logger is
  always found and that the example program ends. The threads of the logger's manager run on the list
  of answers that their guard gives. Where \<open>put\<close> would wait for another thread, a call that runs by itself gives the
  error \<open>Spins\<close>; the theorems show that this does not happen. No definition uses fuel.

  \<^bold>\<open>Not modelled.\<close> How long the manager's threads sleep (a round may come at any time), \<open>splinterdb_wrapper.h\<close> (only includes),
  the loops of rpclib that \<open>server::run\<close> starts, console output other than that of the logger and of
  the example program, and
  the interleaving of several calls of one server's or client's member functions: they are state
  machines of whole calls, while the log store and the logger, which lock inside, also have step
  relations. \<open>tar\<close> and \<open>rm\<close>, which the logger runs in
  a shell, are a parameter with the laws \<open>shell_laws\<close> (instance \<open>ref_shell\<close>); the entries of the log
  directory are a parameter, related to its files by \<open>listed\<close>. The stacks of threads, their symbols, the
  answers of \<open>addr2line\<close>, \<open>atos\<close> and the demangler are parameters too (\<open>crash_env\<close>, \<open>symbol_env\<close>,
  \<open>apple_env\<close>), and so are the readings of the clock. In \<open>Session\<close> the network loses nothing and a
  change of leader loses no entry; what clients do about failing calls is in \<open>Client\<close>.
\<close>

section \<open>Shipping the log and committing it\<close>

text \<open>
  What a replica commits: the payloads of the entries that its log store gives for a range of
  indexes, with their indexes.
\<close>

definition read_payloads :: "('b, 's, 'e, 'ea) nuraft \<Rightarrow> ('e, 'ea) inmem_log_store \<Rightarrow> u64 \<Rightarrow> u64 \<Rightarrow> (u64 \<times> 'b) list res" where
  "read_payloads N ls a b = rmap (\<lambda>i. rbind (inmem_entry_at N ls i) (\<lambda>e. Inr (i, get_buf N e))) (urange a b)"

lemma read_payloads_entries:
  assumes laws: "buffer_laws N e64 e32" "log_entry_laws N" and inv: "inmem_inv ls"
    and a: "start_idx ls \<le> a" "a \<le> b" "b \<le> inmem_next_slot ls"
  shows "\<exists>ps. read_payloads N ls a b = Inr ps \<and> map fst ps = urange a b \<and>
    map (\<lambda>p. data_begin N (snd p)) ps = map ev_buf (take (unat b - unat a) (drop (unat a - unat (start_idx ls)) (inmem_entries N ls)))"
proof -
  let ?e = "\<lambda>i. make_clone N (the (the (sm_find (logs ls) i)))"
  have r: "read_payloads N ls a b = Inr (map (\<lambda>i. (i, get_buf N (?e i))) (urange a b))"
    unfolding read_payloads_def using a by (intro rmap_Inr) (auto simp: inmem_entry_at_spec [OF inv])
  have "data_begin N (get_buf N (?e i)) = ev_buf (inmem_view N ls i)" for i
    using view_make_clone [OF laws, of "the (the (sm_find (logs ls) i))"]
    by (simp add: inmem_view_def le_view_def)
  moreover have "urange a b = take (unat b - unat a) (urange a (inmem_next_slot ls))"
    using take_urange [of a b "inmem_next_slot ls"] a(2,3) by simp
  ultimately have "map (\<lambda>p. data_begin N (snd p)) (map (\<lambda>i. (i, get_buf N (?e i))) (urange a b)) =
      map ev_buf (take (unat b - unat a) (drop (unat a - unat (start_idx ls)) (inmem_entries N ls)))"
    by (simp add: comp_def inmem_entries_def drop_map drop_urange [OF a(1)] take_map)
  then show ?thesis using r by (simp add: comp_def)
qed

lemma carries_cong:
  assumes "map fst ps = map fst qs" "map (\<lambda>p. data_begin N (snd p)) ps = map (\<lambda>p. data_begin N (snd p)) qs" "carries N e64 ps ops"
  shows "carries N e64 qs ops"
proof -
  have len: "length ps = length qs" using assms(1) by (metis length_map)
  have "fst (ps ! j) = fst (qs ! j) \<and> data_begin N (snd (ps ! j)) = data_begin N (snd (qs ! j))" if "j < length qs" for j
    using arg_cong [OF assms(1), of "\<lambda>l. l ! j"] arg_cong [OF assms(2), of "\<lambda>l. l ! j"] that len by simp
  then show ?thesis using assms(3) len by (auto simp: carries_def list_all2_conv_all_nth case_prod_beta)
qed

text \<open>
  C4. A log that was packed on one replica and applied on another leads both to the same state: if
  the payloads of the packed range carry operations, the other replica reads the same operations at
  the same indexes from its own log store, and committing what each reads, two state machines that
  agreed before agree again, on the map that the operations describe.
\<close>

theorem shipped_log_agrees:
  assumes laws: "buffer_laws N e64 e32" "serializer_laws N e64 e32" "log_entry_laws N"
    and db: "kv_laws D kv mg" "never_fails D"
    and src: "inmem_inv src" and dst: "inmem_inv dst"
    and i: "start_idx src \<le> i" "unat i + n \<le> unat (inmem_next_slot src)" "0 < n" "n < 2147483648"
    and small: "list_all (packable N) (stored src (urange i (i + word_of_nat n)))"
    and at: "start_idx dst \<le> i" "i \<le> inmem_next_slot dst"
    and ops: "read_payloads N src i (i + word_of_nat n) = Inr ps" "carries N e64 ps ops"
    and same: "kv (spl_handle smA) = kv (spl_handle smB)"
  shows "\<exists>pack dst' qs outsA smA' outsB smB'.
    inmem_pack N i (word_of_nat n) src = (Inr pack, src) \<and> inmem_apply_pack N i pack dst = (Inr (), dst') \<and>
    read_payloads N dst' i (i + word_of_nat n) = Inr qs \<and>
    commit_all N D ps smA = (Inr outsA, smA') \<and> commit_all N D qs smB = (Inr outsB, smB') \<and>
    kv (spl_handle smA') = kv (spl_handle smB') \<and>
    kv (spl_handle smB') = fold (kv_apply mg) (map snd ops) (kv (spl_handle smB))"
proof -
  let ?b = "i + word_of_nat n"
  have lim: "unat i + n < 18446744073709551616" using i(2) unat_lt_2_64 [of "inmem_next_slot src"] by linarith
  then have un: "unat ?b = unat i + n"
    using unat_add_64 [of i "word_of_nat n"] by (simp add: unat_of_nat_64)
  let ?ks = "unat i - unat (start_idx src)" and ?kd = "unat i - unat (start_idx dst)"
  obtain pack dst' where p: "inmem_pack N i (word_of_nat n) src = (Inr pack, src)"
    "inmem_apply_pack N i pack dst = (Inr (), dst')" "inmem_inv dst'" "start_idx dst' = start_idx dst"
    and cores: "map le_core (inmem_entries N dst') = take ?kd (map le_core (inmem_entries N dst)) @
      take n (drop ?ks (map le_core (inmem_entries N src))) @ drop (?kd + n) (map le_core (inmem_entries N dst))"
    using pack_unpack [OF laws(1,3) src dst i small at] by blast
  have len: "length (take ?kd (map le_core (inmem_entries N dst))) = ?kd"
    "length (take n (drop ?ks (map le_core (inmem_entries N src)))) = n"
    using at i by (simp_all add: length_inmem_entries u64_le_iff diff_le_mono)
  then have "take n (drop ?kd (map le_core (inmem_entries N dst'))) = take n (drop ?ks (map le_core (inmem_entries N src)))"
    unfolding cores by simp
  then have eq: "map le_core (take n (drop ?kd (inmem_entries N dst'))) = map le_core (take n (drop ?ks (inmem_entries N src)))"
    by (simp add: take_map drop_map)
  have bufs: "map ev_buf vs = map (\<lambda>c. snd (snd c)) (map le_core vs)" for vs by (simp add: le_core_def)
  have "length (inmem_entries N dst') \<ge> ?kd + n" using arg_cong [OF cores, of length] len by simp
  then have le: "i \<le> ?b" "?b \<le> inmem_next_slot src" "?b \<le> inmem_next_slot dst'" "start_idx dst' \<le> i"
    using un i(2) at(1) p(4) inmem_next_slot_entries [OF p(3), of N] by (simp_all add: u64_le_iff)
  obtain qs where qs: "read_payloads N dst' i ?b = Inr qs" "map fst qs = urange i ?b"
    "map (\<lambda>p. data_begin N (snd p)) qs = map ev_buf (take n (drop ?kd (inmem_entries N dst')))"
    using read_payloads_entries [OF laws(1,3) p(3) le(4,1,3)] un p(4) by auto
  have ps: "map fst ps = urange i ?b" "map (\<lambda>p. data_begin N (snd p)) ps = map ev_buf (take n (drop ?ks (inmem_entries N src)))"
    using read_payloads_entries [OF laws(1,3) src i(1) le(1,2)] un ops(1) by auto
  have "carries N e64 qs ops"
    by (rule carries_cong [OF _ _ ops(2)]) (use ps qs(2,3) eq bufs in metis)+
  from commit_all_kv [OF laws(1,2) db this, of smB] commit_all_kv [OF laws(1,2) db ops(2), of smA] p(1,2) qs(1) same
  show ?thesis by auto
qed

text \<open>Two replicas' state machines for a concrete run.\<close>

definition demo_sm :: rsm where
  "demo_sm = \<lparr>spl_handle = [], last_committed_idx = 0, commit_thread_initialized = True, snapshots = [],
     disable_snapshots = True\<rparr>"

definition demo_op :: splinterdb_operation where
  "demo_op = make_put (owned_slice_vector [1]) (owned_slice_vector [2])"

definition op_log :: "(rentry, bool) inmem_log_store" where
  "op_log = snd (inmem_append ref_nuraft 0 (3, (op_wire u64_bytes demo_op, 0), 1, 0, False, 0) (inmem_new ref_nuraft False))"

lemma op_log_eq: "logs op_log = [(0, Some (0, (replicate 8 0, 0), 1, 0, False, 0)),
    (1, Some (3, (op_wire u64_bytes demo_op, 0), 1, 0, False, 0))]" "start_idx op_log = 1"
  by (simp_all add: op_log_def inmem_append_def inmem_new_def make_clone_def ref_nuraft_def)

lemma op_log_inv: "inmem_inv op_log" "inmem_next_slot op_log = 2"
proof -
  have d: "dom (sm_find (logs op_log)) = insert 0 {start_idx op_log ..< 2}"
  proof -
    have "{1 ..< 2 :: u64} = set (urange 1 2)" by simp
    also have "urange 1 2 = [1 :: u64]" by (simp add: urange_def upt_rec)
    finally show ?thesis by (simp add: op_log_eq sm_find_def)
  qed
  have "inmem_inv op_log \<and> inmem_next_slot op_log = 2"
    by (rule inmem_invI [OF _ _ _ d]) (auto simp: op_log_eq sm_ok_def)
  then show "inmem_inv op_log" "inmem_next_slot op_log = 2" by auto
qed

theorem shipped_log_agrees_witness:
  "\<exists>pack dst' qs outs sm'. inmem_pack ref_nuraft 1 1 op_log = (Inr pack, op_log) \<and>
     inmem_apply_pack ref_nuraft 1 pack (inmem_new ref_nuraft False) = (Inr (), dst') \<and>
     read_payloads ref_nuraft dst' 1 2 = Inr qs \<and> commit_all ref_nuraft ref_splinterdb qs demo_sm = (Inr outs, sm') \<and>
     map_of (spl_handle sm') [1] = Some [2]"
proof -
  have r: "urange 1 (1 + word_of_nat 1) = [1 :: u64]" by (simp add: urange_def upt_rec)
  have small: "list_all (packable ref_nuraft) (stored op_log (urange 1 (1 + word_of_nat 1)))"
    unfolding r by (simp add: stored_def op_log_eq packable_def ref_nuraft_def ref_le_bytes_def op_wire_def demo_op_def
        make_put_def owned_slice_vector_def os_wire_def)
  obtain e where e: "read_payloads ref_nuraft op_log 1 (1 + word_of_nat 1) = Inr [(1, (op_wire u64_bytes demo_op, e))]"
    unfolding read_payloads_def r
    by (simp add: inmem_entry_at_def find_or_dummy_def op_log_eq make_clone_def ref_nuraft_def)
  have "op_ok demo_op" "op_known demo_op" "kv_apply (\<lambda>_ v. Some v) demo_op m = m([1] \<mapsto> [2])" for m
    using put_operation [of "[1]" "[2]"] by (simp_all add: demo_op_def)
  then have c: "carries ref_nuraft u64_bytes [(1, (op_wire u64_bytes demo_op, e))] [(1, demo_op)]"
    by (simp add: carries_def ref_nuraft_def)
  have new: "inmem_inv (inmem_new ref_nuraft False)" "start_idx (inmem_new ref_nuraft False) \<le> 1"
    "1 \<le> inmem_next_slot (inmem_new ref_nuraft False)"
    using inmem_new_inv [of ref_nuraft False] by (simp_all add: inmem_new_def)
  have lo: "start_idx op_log \<le> 1" "unat (1 :: u64) + 1 \<le> unat (inmem_next_slot op_log)" "0 < (1 :: nat)" "(1 :: nat) < 2147483648"
    by (simp_all add: op_log_eq op_log_inv)
  from shipped_log_agrees [OF ref_buffer_laws ref_serializer_laws ref_log_entry_laws ref_kv_laws ref_never_fails op_log_inv(1)
      new(1) lo small new(2,3) e c, of demo_sm demo_sm]
  obtain pack dst' qs outs sm' where "inmem_pack ref_nuraft 1 1 op_log = (Inr pack, op_log)"
     "inmem_apply_pack ref_nuraft 1 pack (inmem_new ref_nuraft False) = (Inr (), dst')"
     "read_payloads ref_nuraft dst' 1 2 = Inr qs" "commit_all ref_nuraft ref_splinterdb qs demo_sm = (Inr outs, sm')"
     "map_of (spl_handle sm') = (map_of (spl_handle demo_sm))([1] \<mapsto> [2])"
    using \<open>\<And>m. kv_apply (\<lambda>_ v. Some v) demo_op m = m([1] \<mapsto> [2])\<close> by auto
  then show ?thesis by auto
qed

section \<open>From a server's endpoint to the client\<close>

text \<open>
  A client finds a server by what the server publishes: the client endpoint of a replica, whose
  address has no colon and whose client port is not 0, is split by the client's constructor into
  exactly that address and that port, and passes its check.
\<close>

theorem published_endpoint_parses:
  fixes R :: "('rf, 'rr, 'sc, 'b, ('db, 'snp) splinterdb_state_machine, ('sc, 'cc, 'ss, 'e, 'ea) inmem_state_mgr) raft_api"
  assumes "replica_new N C D R ea cfg = Inr rp" "CHR '':'' \<notin> set (cfg_addr cfg)" "cfg_client_port cfg \<noteq> 0"
  shows "fst (split_endpoint (rp_client_endpoint rp)) = cfg_addr cfg \<and>
    rbind (stoi (snd (split_endpoint (rp_client_endpoint rp)))) (checked_port (cfg_addr cfg)) = Inr (cfg_client_port cfg)"
proof -
  have "rp_client_endpoint rp = cfg_addr cfg @ '':'' @ show_nat (unat (cfg_client_port cfg))"
    using assms(1) by (auto simp: replica_new_def Let_def rbind_eq_Inr split: if_splits)
  then show ?thesis using endpoint_roundtrip [OF assms(2,3)] by (auto split: prod.splits)
qed

theorem published_endpoint_parses_witness:
  "\<exists>rp. demo_replica = Inr rp \<and> fst (split_endpoint (rp_client_endpoint rp)) = ''localhost'' \<and>
     rbind (stoi (snd (split_endpoint (rp_client_endpoint rp)))) (checked_port ''localhost'') = Inr 25001"
proof -
  obtain rp where rp: "demo_replica = Inr rp" using demo_replica_ok by blast
  have "cfg_addr demo_config = ''localhost''" "cfg_client_port demo_config = 25001"
    by (simp_all add: demo_config_def replica_config_new_def)
  then show ?thesis using published_endpoint_parses [OF rp [unfolded demo_replica_def]] rp by auto
qed

end
